(* ===== verification/Prelude.thy ===== *)
theory Prelude
  imports Main "HOL-Library.Word"
begin

text \<open>
  Shared material of the development: the computation type that the asynchronous Rust functions
  are translated to, its combinators, the rules to reason about it, and the arithmetic of
  \<open>usize\<close> with the overflow check written out.

  A computation runs on a state and either does not complete (\<open>None\<close>: an \<open>.await\<close> that is
  never resolved, or a loop that is never left), or completes with a value (\<open>Done\<close>) or with a
  panic (\<open>Panic\<close>), and the state it leaves.
\<close>

named_theorems io_simps "how computations run"
named_theorems triple_intros "rules of the Hoare triples"

section \<open>Computations\<close>

datatype 'r res = Done 'r | Panic

type_synonym ('r, 's) io = "'s \<Rightarrow> ('r res \<times> 's) option"

definition ret :: "'r \<Rightarrow> ('r, 's) io" where
  "ret r = (\<lambda>s. Some (Done r, s))"

definition panic :: "('r, 's) io" where
  "panic = (\<lambda>s. Some (Panic, s))"

definition io_bind :: "('r, 's) io \<Rightarrow> ('r \<Rightarrow> ('q, 's) io) \<Rightarrow> ('q, 's) io" where
  "io_bind m k = (\<lambda>s. case m s of
       None \<Rightarrow> None
     | Some (Panic, t) \<Rightarrow> Some (Panic, t)
     | Some (Done r, t) \<Rightarrow> k r t)"

definition io_seq :: "('r, 's) io \<Rightarrow> ('q, 's) io \<Rightarrow> ('q, 's) io" where
  "io_seq m n = io_bind m (\<lambda>_. n)"

definition gets :: "('s \<Rightarrow> 'r) \<Rightarrow> ('r, 's) io" where
  "gets f = (\<lambda>s. Some (Done (f s), s))"

definition modify :: "('s \<Rightarrow> 's) \<Rightarrow> (unit, 's) io" where
  "modify f = (\<lambda>s. Some (Done (), f s))"

definition io_assert :: "bool \<Rightarrow> (unit, 's) io" where
  "io_assert b = (if b then ret () else panic)"

text \<open>A synchronous call and an \<open>.await\<close> of an outside function, as computations.\<close>

definition call :: "('s \<Rightarrow> 'r \<times> 's) \<Rightarrow> ('r, 's) io" where
  "call f = (\<lambda>s. case f s of (r, t) \<Rightarrow> Some (Done r, t))"

definition await :: "('s \<Rightarrow> ('r \<times> 's) option) \<Rightarrow> ('r, 's) io" where
  "await f = (\<lambda>s. case f s of None \<Rightarrow> None | Some (r, t) \<Rightarrow> Some (Done r, t))"

text \<open>A computation on a part of the state.\<close>

definition zoom :: "('s \<Rightarrow> 't) \<Rightarrow> ('t \<Rightarrow> 's \<Rightarrow> 's) \<Rightarrow> ('r, 't) io \<Rightarrow> ('r, 's) io" where
  "zoom get put m = (\<lambda>s. case m (get s) of None \<Rightarrow> None | Some (x, t) \<Rightarrow> Some (x, put t s))"

text \<open>
  A \<open>loop\<close>: each round says whether to go round again or to leave with a value. The loop may
  never be left, so its value is an option (\<^theory_text>\<open>partial_function (option)\<close>).
\<close>

datatype 'b flow = Again | Leave 'b

partial_function (option) io_loop ::
  "('s \<Rightarrow> ('b flow res \<times> 's) option) \<Rightarrow> 's \<Rightarrow> ('b res \<times> 's) option" where
  "io_loop body s = (case body s of
       None \<Rightarrow> None
     | Some (x, t) \<Rightarrow> (case x of
           Panic \<Rightarrow> Some (Panic, t)
         | Done fl \<Rightarrow> (case fl of
               Again \<Rightarrow> io_loop body t
             | Leave b \<Rightarrow> Some (Done b, t))))"

declare io_loop.simps [code]

lemma ret_run [io_simps]: "ret r s = Some (Done r, s)"
  by (simp add: ret_def)

lemma panic_run [io_simps]: "panic s = Some (Panic, s)"
  by (simp add: panic_def)

lemma io_bind_run [io_simps]:
  "io_bind m k s = (case m s of
       None \<Rightarrow> None
     | Some (x, t) \<Rightarrow> (case x of Panic \<Rightarrow> Some (Panic, t) | Done r \<Rightarrow> k r t))"
  by (auto simp: io_bind_def split: option.splits res.splits)

lemma io_seq_run [io_simps]:
  "io_seq m n s = (case m s of
       None \<Rightarrow> None
     | Some (x, t) \<Rightarrow> (case x of Panic \<Rightarrow> Some (Panic, t) | Done r \<Rightarrow> n t))"
  by (simp add: io_seq_def io_bind_run)

lemma gets_run [io_simps]: "gets f s = Some (Done (f s), s)"
  by (simp add: gets_def)

lemma modify_run [io_simps]: "modify f s = Some (Done (), f s)"
  by (simp add: modify_def)

lemma io_assert_run [io_simps]:
  "io_assert b s = Some (if b then Done () else Panic, s)"
  by (simp add: io_assert_def ret_def panic_def)

lemma call_run [io_simps]: "call f s = (case f s of (r, t) \<Rightarrow> Some (Done r, t))"
  by (simp add: call_def)

lemma await_run [io_simps]:
  "await f s = (case f s of None \<Rightarrow> None | Some (r, t) \<Rightarrow> Some (Done r, t))"
  by (simp add: await_def)

lemma zoom_run [io_simps]:
  "zoom get put m s = (case m (get s) of None \<Rightarrow> None | Some (x, t) \<Rightarrow> Some (x, put t s))"
  by (simp add: zoom_def)

text \<open>A sequence that completes went through a state in between.\<close>

lemma io_bind_DoneE:
  assumes "io_bind m k s = Some (Done r, t)"
  obtains x u where "m s = Some (Done x, u)" "k x u = Some (Done r, t)"
  using assms by (auto simp: io_simps split: option.splits res.splits)

lemma io_seq_DoneE:
  assumes "io_seq m n s = Some (Done r, t)"
  obtains x u where "m s = Some (Done x, u)" "n u = Some (Done r, t)"
  using assms unfolding io_seq_def by (rule io_bind_DoneE)

lemma io_bind_ret [simp]: "io_bind (ret r) k = k r"
  by (rule ext) (simp add: io_simps)

lemma io_bind_panic [simp]: "io_bind panic k = panic"
  by (rule ext) (simp add: io_simps)

lemma io_bind_ret_right [simp]: "io_bind m ret = m"
  by (rule ext) (simp add: io_simps split: option.splits res.splits prod.splits)

lemma io_bind_assoc: "io_bind (io_bind m k) h = io_bind m (\<lambda>r. io_bind (k r) h)"
  by (rule ext) (simp add: io_simps split: option.splits res.splits prod.splits)

section \<open>Loops\<close>

text \<open>
  Facts about every completed run of a loop follow from an invariant of the rounds that go round
  again; that a loop completes follows from a relation that the rounds decrease.
\<close>

lemma io_loop_rule:
  assumes run: "io_loop body s = Some (x, t)"
    and init: "I s"
    and again: "\<And>s u. I s \<Longrightarrow> body s = Some (Done Again, u) \<Longrightarrow> I u"
    and leave: "\<And>s b u. I s \<Longrightarrow> body s = Some (Done (Leave b), u) \<Longrightarrow> Q (Done b) u"
    and panics: "\<And>s u. I s \<Longrightarrow> body s = Some (Panic, u) \<Longrightarrow> Q Panic u"
  shows "Q x t"
proof -
  have "(\<forall>s u. I s \<longrightarrow> body s = Some (Done Again, u) \<longrightarrow> I u) \<longrightarrow>
        (\<forall>s b u. I s \<longrightarrow> body s = Some (Done (Leave b), u) \<longrightarrow> Q (Done b) u) \<longrightarrow>
        (\<forall>s u. I s \<longrightarrow> body s = Some (Panic, u) \<longrightarrow> Q Panic u) \<longrightarrow>
        I s \<longrightarrow> Q (fst (x, t)) (snd (x, t))"
  proof (rule io_loop.raw_induct [where P = "\<lambda>body s y.
        (\<forall>s u. I s \<longrightarrow> body s = Some (Done Again, u) \<longrightarrow> I u) \<longrightarrow>
        (\<forall>s b u. I s \<longrightarrow> body s = Some (Done (Leave b), u) \<longrightarrow> Q (Done b) u) \<longrightarrow>
        (\<forall>s u. I s \<longrightarrow> body s = Some (Panic, u) \<longrightarrow> Q Panic u) \<longrightarrow>
        I s \<longrightarrow> Q (fst y) (snd y)", OF _ run], goal_cases)
    case (1 loop body s y)
    note IH = 1(1) and eq = 1(2)
    show ?case
    proof (intro impI, goal_cases)
      case 1
      show ?case
      proof (cases "body s")
        case None
        with eq show ?thesis by simp
      next
        case (Some p)
        obtain x t where p: "body s = Some (x, t)" using Some by (cases p) simp
        show ?thesis
        proof (cases x)
          case Panic
          with p eq 1 show ?thesis by auto
        next
          case (Done fl)
          show ?thesis
          proof (cases fl)
            case Again
            with Done p eq have "loop body t = Some y" by simp
            from IH [OF this] 1 show ?thesis using Again Done p by blast
          next
            case (Leave b)
            with Done p eq 1 show ?thesis by auto
          qed
        qed
      qed
    qed
  qed
  then show ?thesis using assms by auto
qed

lemma io_loop_total:
  assumes wf: "wf R"
    and init: "I s"
    and step: "\<And>s. I s \<Longrightarrow> \<exists>x t. body s = Some (x, t) \<and> (x = Done Again \<longrightarrow> I t \<and> (t, s) \<in> R)"
  shows "\<exists>x t. io_loop body s = Some (x, t)"
  using wf init
proof (induction s rule: wf_induct_rule)
  case (less s)
  obtain x t where b: "body s = Some (x, t)"
    and c: "x = Done Again \<longrightarrow> I t \<and> (t, s) \<in> R"
    using step [OF less.prems] by blast
  show ?case
  proof (cases "x = Done Again")
    case True
    with c less.IH have "\<exists>y u. io_loop body t = Some (y, u)" by blast
    with b True show ?thesis by (subst io_loop.simps) simp
  next
    case False
    with b show ?thesis
      by (subst io_loop.simps) (auto split: res.splits flow.splits)
  qed
qed

section \<open>Hoare triples for completed runs\<close>

text \<open>
  \<open>triple P m Q\<close>: from a state with \<open>P\<close>, if \<open>m\<close> completes without a panic, the value and the
  final state satisfy \<open>Q\<close>. \<open>frames R m\<close>: however \<open>m\<close> ends, first and last state are in \<open>R\<close>;
  \<open>keeps R m\<close>: they are if \<open>m\<close> does not panic.
  \<open>safe P m\<close>: from a state with \<open>P\<close>, \<open>m\<close> does not panic.
\<close>

definition triple :: "('s \<Rightarrow> bool) \<Rightarrow> ('r, 's) io \<Rightarrow> ('r \<Rightarrow> 's \<Rightarrow> bool) \<Rightarrow> bool" where
  "triple P m Q \<longleftrightarrow> (\<forall>s r t. P s \<longrightarrow> m s = Some (Done r, t) \<longrightarrow> Q r t)"

definition frames :: "('s \<Rightarrow> 's \<Rightarrow> bool) \<Rightarrow> ('r, 's) io \<Rightarrow> bool" where
  "frames R m \<longleftrightarrow> (\<forall>s x t. m s = Some (x, t) \<longrightarrow> R s t)"

definition keeps :: "('s \<Rightarrow> 's \<Rightarrow> bool) \<Rightarrow> ('r, 's) io \<Rightarrow> bool" where
  "keeps R m \<longleftrightarrow> (\<forall>s r t. m s = Some (Done r, t) \<longrightarrow> R s t)"

definition safe :: "('s \<Rightarrow> bool) \<Rightarrow> ('r, 's) io \<Rightarrow> bool" where
  "safe P m \<longleftrightarrow> (\<forall>s t. P s \<longrightarrow> m s \<noteq> Some (Panic, t))"

lemma tripleI: "(\<And>s r t. P s \<Longrightarrow> m s = Some (Done r, t) \<Longrightarrow> Q r t) \<Longrightarrow> triple P m Q"
  by (simp add: triple_def)

lemma tripleD: "triple P m Q \<Longrightarrow> P s \<Longrightarrow> m s = Some (Done r, t) \<Longrightarrow> Q r t"
  by (simp add: triple_def)

lemma framesD: "frames R m \<Longrightarrow> m s = Some (x, t) \<Longrightarrow> R s t"
  by (simp add: frames_def)

lemma keepsI: "(\<And>s r t. m s = Some (Done r, t) \<Longrightarrow> R s t) \<Longrightarrow> keeps R m"
  by (simp add: keeps_def)

lemma keepsD: "keeps R m \<Longrightarrow> m s = Some (Done r, t) \<Longrightarrow> R s t"
  by (simp add: keeps_def)

lemma frames_keeps: "frames R m \<Longrightarrow> keeps R m"
  by (simp add: frames_def keeps_def)

lemma keeps_weaken: "keeps R m \<Longrightarrow> (\<And>s t. R s t \<Longrightarrow> R' s t) \<Longrightarrow> keeps R' m"
  by (simp add: keeps_def)

lemma triple_ret [triple_intros]: "(\<And>s. P s \<Longrightarrow> Q r s) \<Longrightarrow> triple P (ret r) Q"
  by (simp add: triple_def io_simps)

lemma triple_panic [triple_intros]: "triple P panic Q"
  by (simp add: triple_def io_simps)

lemma triple_gets [triple_intros]: "(\<And>s. P s \<Longrightarrow> Q (f s) s) \<Longrightarrow> triple P (gets f) Q"
  by (simp add: triple_def io_simps)

lemma triple_modify [triple_intros]: "(\<And>s. P s \<Longrightarrow> Q () (f s)) \<Longrightarrow> triple P (modify f) Q"
  by (simp add: triple_def io_simps)

lemma triple_assert [triple_intros]:
  "(\<And>s. P s \<Longrightarrow> b \<Longrightarrow> Q () s) \<Longrightarrow> triple P (io_assert b) Q"
  by (auto simp: triple_def io_simps split: if_splits)

lemma triple_bind [triple_intros]:
  "triple P m M \<Longrightarrow> (\<And>r. triple (M r) (k r) Q) \<Longrightarrow> triple P (io_bind m k) Q"
  by (fastforce simp: triple_def io_simps split: option.splits res.splits)

lemma triple_seq [triple_intros]:
  "triple P m (\<lambda>_. M) \<Longrightarrow> triple M n Q \<Longrightarrow> triple P (io_seq m n) Q"
  by (fastforce simp: triple_def io_simps split: option.splits res.splits)

lemma triple_conseq:
  "triple P m Q \<Longrightarrow> (\<And>s. P' s \<Longrightarrow> P s) \<Longrightarrow> (\<And>r s. Q r s \<Longrightarrow> Q' r s) \<Longrightarrow> triple P' m Q'"
  by (metis triple_def)

lemma triple_post: "triple P m Q \<Longrightarrow> (\<And>r s. Q r s \<Longrightarrow> Q' r s) \<Longrightarrow> triple P m Q'"
  by (auto simp: triple_def)

lemma triple_pre: "triple P m Q \<Longrightarrow> (\<And>s. P' s \<Longrightarrow> P s) \<Longrightarrow> triple P' m Q"
  by (auto simp: triple_def)

lemma triple_exI: "(\<And>a. triple (P a) m Q) \<Longrightarrow> triple (\<lambda>s. \<exists>a. P a s) m Q"
  by (auto simp: triple_def)

lemma triple_loop:
  assumes "triple I body (\<lambda>fl s. case fl of Again \<Rightarrow> I s | Leave b \<Rightarrow> Q b s)"
  shows "triple I (io_loop body) Q"
proof (rule tripleI)
  fix s r t
  assume "I s" and run: "io_loop body s = Some (Done r, t)"
  have "case Done r of Done b \<Rightarrow> Q b t | Panic \<Rightarrow> True"
  proof (rule io_loop_rule [where I = I and Q = "\<lambda>x u. case x of Done b \<Rightarrow> Q b u | Panic \<Rightarrow> True", OF run \<open>I s\<close>])
    show "\<And>s u. I s \<Longrightarrow> body s = Some (Done Again, u) \<Longrightarrow> I u"
      using assms by (fastforce dest: tripleD)
    show "\<And>s b u. I s \<Longrightarrow> body s = Some (Done (Leave b), u) \<Longrightarrow>
        case Done b of Done b \<Rightarrow> Q b u | Panic \<Rightarrow> True"
      using assms by (fastforce dest: tripleD)
  qed simp
  then show "Q r t" by simp
qed

section \<open>Relations kept by every run\<close>

text \<open>
  What a computation does to the state in every run is stated as a reflexive and transitive
  relation between first and last state; the combinators keep such a relation.
\<close>

locale frame_rel =
  fixes R :: "'s \<Rightarrow> 's \<Rightarrow> bool"
  assumes refl: "R s s"
    and trans: "R s t \<Longrightarrow> R t u \<Longrightarrow> R s u"
begin

lemma frames_ret: "frames R (ret r)"
  by (simp add: frames_def io_simps refl)

lemma frames_panic: "frames R panic"
  by (simp add: frames_def io_simps refl)

lemma frames_gets: "frames R (gets f)"
  by (simp add: frames_def io_simps refl)

lemma frames_assert: "frames R (io_assert b)"
  by (simp add: frames_def io_simps refl)

lemma frames_modify: "(\<And>s. R s (f s)) \<Longrightarrow> frames R (modify f)"
  by (simp add: frames_def io_simps)

lemma frames_bind: "frames R m \<Longrightarrow> (\<And>r. frames R (k r)) \<Longrightarrow> frames R (io_bind m k)"
  by (fastforce simp: frames_def io_simps split: option.splits res.splits intro: trans)

lemma frames_seq: "frames R m \<Longrightarrow> frames R n \<Longrightarrow> frames R (io_seq m n)"
  unfolding io_seq_def by (rule frames_bind)

lemma frames_loop:
  assumes "frames R body"
  shows "frames R (io_loop body)"
  unfolding frames_def
proof (intro allI impI)
  fix s x t
  assume run: "io_loop body s = Some (x, t)"
  show "R s t"
    by (rule io_loop_rule [where I = "R s" and Q = "\<lambda>_. R s", OF run])
      (use assms in \<open>auto simp: frames_def intro: refl trans\<close>)
qed

lemma keeps_ret: "keeps R (ret r)"
  by (simp add: keeps_def io_simps refl)

lemma keeps_panic: "keeps R panic"
  by (simp add: keeps_def io_simps)

lemma keeps_gets: "keeps R (gets f)"
  by (simp add: keeps_def io_simps refl)

lemma keeps_assert: "keeps R (io_assert b)"
  by (simp add: keeps_def io_simps refl)

lemma keeps_modify: "(\<And>s. R s (f s)) \<Longrightarrow> keeps R (modify f)"
  by (simp add: keeps_def io_simps)

lemma keeps_bind: "keeps R m \<Longrightarrow> (\<And>r. keeps R (k r)) \<Longrightarrow> keeps R (io_bind m k)"
  by (fastforce simp: keeps_def io_simps split: option.splits res.splits intro: trans)

lemma keeps_seq: "keeps R m \<Longrightarrow> keeps R n \<Longrightarrow> keeps R (io_seq m n)"
  unfolding io_seq_def by (rule keeps_bind)

lemma keeps_loop:
  assumes "keeps R body"
  shows "keeps R (io_loop body)"
proof (rule keepsI)
  fix s r t
  assume "io_loop body s = Some (Done r, t)"
  moreover have "triple (R s) (io_loop body) (\<lambda>_. R s)"
    by (rule triple_loop) (use assms in \<open>auto simp: triple_def keeps_def intro: trans split: flow.splits\<close>)
  ultimately show "R s t" by (auto intro: tripleD refl)
qed

lemmas keeps_rules =
  keeps_ret keeps_panic keeps_gets keeps_assert keeps_bind keeps_seq keeps_loop

lemmas frames_rules =
  frames_ret frames_panic frames_gets frames_assert frames_bind frames_seq frames_loop

end

section \<open>Unsigned machine integers\<close>

type_synonym usize = "64 word"
type_synonym u32 = "32 word"

text \<open>
  Subtraction of \<open>usize\<close> with the overflow check of the Rust arithmetic: a borrow panics.
  \<open>size as u32\<close> keeps the low 32 bits.
\<close>

definition usize_sub :: "usize \<Rightarrow> usize \<Rightarrow> (usize, 's) io" where
  "usize_sub a b = (if b \<le> a then ret (a - b) else panic)"

definition usize_add :: "usize \<Rightarrow> usize \<Rightarrow> (usize, 's) io" where
  "usize_add a b = (if unat a + unat b < 2 ^ 64 then ret (a + b) else panic)"

lemma usize_add_code [code]: "usize_add a b = (if a \<le> a + b then ret (a + b) else panic)"
  by (simp add: usize_add_def no_olen_add_nat)

definition as_u32 :: "usize \<Rightarrow> u32" where
  "as_u32 n = ucast n"

lemma usize_sub_run [io_simps]:
  "usize_sub a b s = Some (if b \<le> a then Done (a - b) else Panic, s)"
  by (simp add: usize_sub_def ret_def panic_def)

lemma usize_add_run [io_simps]:
  "usize_add a b s = Some (if unat a + unat b < 2 ^ 64 then Done (a + b) else Panic, s)"
  by (simp add: usize_add_def ret_def panic_def)

lemma unat_as_u32: "unat (as_u32 n) = unat n mod 2 ^ 32"
  by (simp add: as_u32_def unsigned_ucast_eq take_bit_eq_mod)

lemma unat_as_u32_le: "unat (as_u32 n) \<le> unat n"
  by (simp add: unat_as_u32)

end
