(* ===== verification/Message.thy ===== *)
theory Message
  imports Prelude
begin

text \<open>
  The data of the actor library: the messages and results of \<open>message.rs\<close>, the schedulers of
  \<open>actor.rs\<close>, the life cycle, the supervisor messages and the context record of
  \<open>context.rs\<close>, and the envelopes of \<open>envelope.rs\<close>.

  Every message type, reply type and future output of the library is some \<open>M: Message\<close>; the model
  has one type \<open>'m\<close> of all of them, and one type \<open>'a\<close> of all actor structs. The two ends of a
  channel, a semaphore, a permit and a task are known by a \<open>handle\<close>.
\<close>

type_synonym handle = nat

section \<open>Life cycle (context.rs)\<close>

datatype actor_state = Running | Stopping | Stopped

fun actor_state_display :: "actor_state \<Rightarrow> string" where
  "actor_state_display Running = ''Running''"
| "actor_state_display Stopping = ''Stopping''"
| "actor_state_display Stopped = ''Stopped''"

fun actor_state_rank :: "actor_state \<Rightarrow> nat" where
  "actor_state_rank Running = 0"
| "actor_state_rank Stopping = 1"
| "actor_state_rank Stopped = 2"

lemma actor_state_rank_inject [simp]: "actor_state_rank s = actor_state_rank t \<longleftrightarrow> s = t"
  by (cases s; cases t) simp_all

text \<open>The order in which the comment of \<open>Ctx::state\<close> lets the states follow each other.\<close>

instantiation actor_state :: linorder
begin

definition less_eq_actor_state :: "actor_state \<Rightarrow> actor_state \<Rightarrow> bool" where
  "less_eq_actor_state s t \<longleftrightarrow> actor_state_rank s \<le> actor_state_rank t"

definition less_actor_state :: "actor_state \<Rightarrow> actor_state \<Rightarrow> bool" where
  "less_actor_state s t \<longleftrightarrow> actor_state_rank s < actor_state_rank t"

instance
  by standard (auto simp: less_eq_actor_state_def less_actor_state_def)

end

lemma actor_state_le_simps [simp]:
  "Running \<le> s" "s \<le> Stopped" "s \<le> Running \<longleftrightarrow> s = Running" "Stopped \<le> s \<longleftrightarrow> s = Stopped"
  "Stopping \<le> s \<longleftrightarrow> s \<noteq> Running" "s \<le> Stopping \<longleftrightarrow> s \<noteq> Stopped"
  by (cases s; simp add: less_eq_actor_state_def)+

lemma actor_state_display_inject: "actor_state_display s = actor_state_display t \<longleftrightarrow> s = t"
  by (cases s; cases t) simp_all

datatype supervisor_message = Shutdown

section \<open>Schedulers, answers and child deaths (actor.rs, message.rs)\<close>

datatype scheduler = Blocking | NonBlocking

text \<open>\<open>AsyncHandle\<close> holds the join handle of the task that computes the answer.\<close>

datatype async_handle = AsyncHandle handle

datatype 'm ask_result = Reply 'm | Task async_handle

text \<open>A \<open>JoinError\<close> is an opaque value of the runtime, here a number.\<close>

type_synonym join_error = nat

datatype child_error = ChildPanic join_error | ChildCancelled join_error

datatype anonymous_task_cancelled = CancelSuccess | CancelCancel | CancelPanic

datatype into_future_shutdown = IntoFutureShutdown (stop_now: bool) (shutdown_tx: handle)

section \<open>The context of an actor (context.rs)\<close>

datatype into_future_sender = Now handle | UponCompletion handle

fun into_inner :: "into_future_sender \<Rightarrow> handle" where
  "into_inner (Now inner) = inner"
| "into_inner (UponCompletion inner) = inner"

datatype actor_ref = ActorRef (ref_address: handle)

datatype anonymous_ref = AnonymousRef (ref_handle: handle)

record ctx =
  address :: actor_ref
  mailbox :: handle
  notifier :: handle
  state :: actor_state
  max_anonymous_actors :: handle
  overflow_anonymous_actors :: usize
  into_future_sender :: "into_future_sender option"

record 'a dead_actor =
  dead_actor :: 'a
  dead_ctx :: ctx

type_synonym 'a dead_actor_result = "child_error + 'a dead_actor"

definition dead_actor_panic :: "join_error \<Rightarrow> 'a dead_actor_result" where
  "dead_actor_panic err = Inl (ChildPanic err)"

definition dead_actor_cancelled :: "join_error \<Rightarrow> 'a dead_actor_result" where
  "dead_actor_cancelled err = Inl (ChildCancelled err)"

text \<open>An anonymous actor: the output of its future, \<open>None\<close> when it was cancelled, and its receiver.\<close>

record 'x anonymous_actor =
  anon_result :: "'x option"
  anon_receiver :: handle

section \<open>Envelopes (envelope.rs)\<close>

text \<open>
  A mailbox holds boxed trait objects. Their dynamic types are the four structs that implement
  \<open>SendMessage\<close>, one constructor of \<open>boxed\<close> each. The framework's own messages are the two types
  that \<open>generic.rs\<close> implements \<open>InternalHandler\<close> for.
\<close>

datatype internal =
    InternalShutdown into_future_shutdown
  | InternalAnonymous anonymous_task_cancelled

datatype confidential_envelope = ConfidentialEnvelope (conf_msg: "internal option")

datatype 'm envelope = Envelope (env_msg: "'m option")

datatype 'm response = Response (resp_msg: "'m envelope") (resp_tx: "handle option")

datatype 'm async_response = AsyncResponse (async_msg: "'m envelope") (async_tx: "handle option")

datatype 'm boxed =
    BoxConfidential confidential_envelope
  | BoxEnvelope "'m envelope"
  | BoxResponse "'m response"
  | BoxAsyncResponse "'m async_response"

definition confidential_new :: "internal \<Rightarrow> confidential_envelope" where
  "confidential_new m = ConfidentialEnvelope (Some m)"

definition envelope_new :: "'m \<Rightarrow> 'm envelope" where
  "envelope_new m = Envelope (Some m)"

definition response_new :: "'m envelope \<Rightarrow> handle \<Rightarrow> 'm response" where
  "response_new m tx = Response m (Some tx)"

definition async_response_new :: "'m envelope \<Rightarrow> handle \<Rightarrow> 'm async_response" where
  "async_response_new m tx = AsyncResponse m (Some tx)"

text \<open>\<open>Option::unwrap\<close>, and the \<open>unwrap\<close> of an envelope: take the message, panic if it is gone.\<close>

definition unwrap :: "'x option \<Rightarrow> ('x, 's) io" where
  "unwrap v = (case v of None \<Rightarrow> panic | Some x \<Rightarrow> ret x)"

definition confidential_unwrap :: "confidential_envelope \<Rightarrow> (internal \<times> confidential_envelope, 's) io" where
  "confidential_unwrap e = io_bind (unwrap (conf_msg e)) (\<lambda>m. ret (m, ConfidentialEnvelope None))"

definition envelope_unwrap :: "'m envelope \<Rightarrow> ('m \<times> 'm envelope, 's) io" where
  "envelope_unwrap e = io_bind (unwrap (env_msg e)) (\<lambda>m. ret (m, Envelope None))"

text \<open>
  \<open>as_any\<close> of each of the four structs is the struct itself. A downcast to \<open>Envelope<M>\<close>
  succeeds exactly on a box of that type; no box is an \<open>Envelope\<close> of an internal message.
\<close>

definition as_any :: "'m boxed \<Rightarrow> 'm boxed" where
  "as_any b = b"

fun downcast_envelope :: "'m boxed \<Rightarrow> 'm envelope option" where
  "downcast_envelope (BoxEnvelope e) = Some e"
| "downcast_envelope (BoxConfidential c) = None"
| "downcast_envelope (BoxResponse r) = None"
| "downcast_envelope (BoxAsyncResponse r) = None"

fun downcast_internal_envelope :: "'m boxed \<Rightarrow> internal envelope option" where
  "downcast_internal_envelope (BoxEnvelope e) = None"
| "downcast_internal_envelope (BoxConfidential c) = None"
| "downcast_internal_envelope (BoxResponse r) = None"
| "downcast_internal_envelope (BoxAsyncResponse r) = None"

lemma unwrap_run [io_simps]:
  "unwrap v s = Some (case v of None \<Rightarrow> Panic | Some x \<Rightarrow> Done x, s)"
  by (simp add: unwrap_def ret_def panic_def split: option.splits)

lemma unwrap_Some [simp]: "unwrap (Some x) = ret x"
  by (simp add: unwrap_def)

lemma unwrap_None [simp]: "unwrap None = panic"
  by (simp add: unwrap_def)

lemma envelope_unwrap_new [simp]: "envelope_unwrap (envelope_new m) = ret (m, Envelope None)"
  by (simp add: envelope_unwrap_def envelope_new_def)

lemma confidential_unwrap_new [simp]:
  "confidential_unwrap (confidential_new m) = ret (m, ConfidentialEnvelope None)"
  by (simp add: confidential_unwrap_def confidential_new_def)

lemma envelope_unwrap_twice: "envelope_unwrap (Envelope None) = panic"
  by (simp add: envelope_unwrap_def)

lemma downcast_internal_envelope_None [simp]: "downcast_internal_envelope b = None"
  by (cases b) simp_all

lemma downcast_envelope_eq_Some: "downcast_envelope b = Some e \<longleftrightarrow> b = BoxEnvelope e"
  by (cases b) auto

end
