(* ===== verification/Tokio.thy ===== *)
theory Tokio
  imports Message
begin

text \<open>
  The runtime the library is written against. Tokio is not part of the repository, so every
  function of it that the code calls is a field of the record \<open>tokio\<close>, a parameter of the
  definitions that use it; \<open>'w\<close> is the world the runtime and all other tasks live in. A
  synchronous call maps a world to a result and a new world; an awaited call may also never be
  resolved (\<open>None\<close>), and the world it resolves in is the one other tasks have left by then.

  What the documentation of Tokio promises about these functions is stated below as predicates on
  the record. A theorem that needs such a promise has it as a named hypothesis.
\<close>

type_synonym ('x, 'w) fut = "'w \<Rightarrow> ('x \<times> 'w) option"

datatype 'x try_send_error = TrySendFull 'x | TrySendClosed 'x

datatype try_acquire_error = NoPermits | SemaphoreClosed

text \<open>
  The outcomes of the two \<open>tokio::select!\<close> of the executor: the watch channel of the supervisor
  changed or lost its sender, or the mailbox was received from; and a message of a stopping actor
  or the end of its sleep.
\<close>

datatype 'm supervised_event = WatchChanged | WatchClosed | MailboxRecv "'m boxed option"

datatype 'm stopping_event = StopRecv "'m boxed option" | StopSlept

text \<open>
  The asynchronous blocks the library hands to \<open>tokio::spawn\<close>, each with the values it captures.
  A user future is the computation it performs.
\<close>

datatype ('a, 'm, 'w) task =
    RunActor 'a ctx
  | SuperviseChild 'a ctx (task_receiver: handle) (task_supervisor: actor_ref)
  | AnonymousMessage (task_supervisor: actor_ref) (task_receiver: handle) "handle option" "('m, 'w) io"
  | AnonymousUnit (task_supervisor: actor_ref) (task_receiver: handle) "handle option" "(unit, 'w) io"
  | AnonymousAnswer (task_receiver: handle) "handle option" "('m, 'w) io"
  | BridgeHandle ctx (task_receiver: handle) actor_ref handle
  | BridgeAsk ctx (task_receiver: handle) actor_ref handle
  | BridgeAsync ctx (task_receiver: handle) actor_ref handle
  | ReaderPipe handle handle (task_receiver: handle) handle
  | WriterPipe handle handle (task_receiver: handle) handle
  | ServeConnection handle actor_ref
  | RunInput nat handle
  | NotifyShutdown handle

record ('a, 'm, 'w) tokio =
  \<comment> \<open>\<open>sync::mpsc\<close>, the mailboxes\<close>
  mpsc_channel :: "usize \<Rightarrow> 'w \<Rightarrow> handle \<times> 'w"
  mpsc_try_send :: "handle \<Rightarrow> 'm boxed \<Rightarrow> 'w \<Rightarrow> ('m boxed try_send_error + unit) \<times> 'w"
  mpsc_send :: "handle \<Rightarrow> 'm boxed \<Rightarrow> ('m boxed + unit, 'w) fut"
  mpsc_is_closed :: "handle \<Rightarrow> 'w \<Rightarrow> bool"
  mpsc_recv :: "handle \<Rightarrow> ('m boxed option, 'w) fut"
  mpsc_try_recv :: "handle \<Rightarrow> 'w \<Rightarrow> 'm boxed option \<times> 'w"
  mpsc_close :: "handle \<Rightarrow> 'w \<Rightarrow> 'w"
  \<comment> \<open>\<open>sync::watch\<close>, the pipe from a supervisor to its children\<close>
  watch_channel :: "'w \<Rightarrow> handle \<times> 'w"
  watch_send :: "handle \<Rightarrow> supervisor_message option \<Rightarrow> 'w \<Rightarrow> 'w"
  watch_subscribe :: "handle \<Rightarrow> 'w \<Rightarrow> handle \<times> 'w"
  watch_is_closed :: "handle \<Rightarrow> 'w \<Rightarrow> bool"
  watch_borrow :: "handle \<Rightarrow> 'w \<Rightarrow> supervisor_message option"
  watch_borrow_and_update :: "handle \<Rightarrow> 'w \<Rightarrow> supervisor_message option \<times> 'w"
  watch_drop_rx :: "handle \<Rightarrow> 'w \<Rightarrow> 'w"
  \<comment> \<open>\<open>sync::oneshot\<close>, for an answer and for the struct of a finished actor\<close>
  oneshot_channel :: "'w \<Rightarrow> handle \<times> 'w"
  oneshot_send :: "handle \<Rightarrow> 'm \<Rightarrow> 'w \<Rightarrow> ('m + unit) \<times> 'w"
  oneshot_recv :: "handle \<Rightarrow> (unit + 'm, 'w) fut"
  oneshot_send_actor :: "handle \<Rightarrow> 'a \<Rightarrow> 'w \<Rightarrow> ('a + unit) \<times> 'w"
  oneshot_recv_actor :: "handle \<Rightarrow> (unit + 'a, 'w) fut"
  oneshot_drop_tx :: "handle \<Rightarrow> 'w \<Rightarrow> 'w"
  \<comment> \<open>\<open>sync::Semaphore\<close>\<close>
  sem_new :: "usize \<Rightarrow> 'w \<Rightarrow> handle \<times> 'w"
  sem_available :: "handle \<Rightarrow> 'w \<Rightarrow> usize"
  sem_try_acquire :: "handle \<Rightarrow> 'w \<Rightarrow> (try_acquire_error + handle) \<times> 'w"
  sem_acquire_many :: "handle \<Rightarrow> u32 \<Rightarrow> (unit + handle, 'w) fut"
  permit_drop :: "handle \<Rightarrow> 'w \<Rightarrow> 'w"
  \<comment> \<open>tasks and their join handles\<close>
  spawn :: "('a, 'm, 'w) task \<Rightarrow> 'w \<Rightarrow> handle \<times> 'w"
  task_abort :: "handle \<Rightarrow> 'w \<Rightarrow> 'w"
  join_answer :: "handle \<Rightarrow> (join_error + 'm anonymous_actor, 'w) fut"
  spawn_join_message :: "('m anonymous_actor, 'w) io \<Rightarrow> (join_error + 'm anonymous_actor, 'w) io"
  spawn_join_unit :: "(unit anonymous_actor, 'w) io \<Rightarrow> (join_error + unit anonymous_actor, 'w) io"
  spawn_join_child :: "('a \<times> ctx \<times> handle option, 'w) io \<Rightarrow> (join_error + 'a \<times> ctx \<times> handle option, 'w) io"
  spawn_blocking :: "(unit, 'a \<times> ctx \<times> 'w) io \<Rightarrow> (join_error + unit, 'a \<times> ctx \<times> 'w) io"
  err_is_cancelled :: "join_error \<Rightarrow> bool"
  err_is_panic :: "join_error \<Rightarrow> bool"
  \<comment> \<open>time, and \<open>select!\<close>\<close>
  sleep :: "nat \<Rightarrow> (unit, 'w) fut"
  select_supervised :: "handle \<Rightarrow> handle \<Rightarrow> ('m supervised_event, 'w) fut"
  select_stopping :: "handle \<Rightarrow> nat \<Rightarrow> ('m stopping_event, 'w) fut"
  select_message :: "handle \<Rightarrow> ('m, 'w) io \<Rightarrow> ('m option, 'w) io"
  select_unit :: "handle \<Rightarrow> (unit, 'w) io \<Rightarrow> (unit option, 'w) io"
  select_answer :: "handle \<Rightarrow> ('m, 'a \<times> 'w) io \<Rightarrow> ('m option, 'a \<times> 'w) io"

section \<open>What the documentation of Tokio promises\<close>

text \<open>
  \<open>Sender::try_send\<close> and \<open>Sender::send\<close>: the error of a failed send owns the value that was to be
  sent.
\<close>

definition mpsc_returns :: "('a, 'm, 'w) tokio \<Rightarrow> bool" where
  "mpsc_returns T \<longleftrightarrow>
     (\<forall>h b w b' w'. mpsc_try_send T h b w = (Inl (TrySendFull b'), w') \<longrightarrow> b' = b) \<and>
     (\<forall>h b w b' w'. mpsc_try_send T h b w = (Inl (TrySendClosed b'), w') \<longrightarrow> b' = b) \<and>
     (\<forall>h b w b' w'. mpsc_send T h b w = Some (Inl b', w') \<longrightarrow> b' = b)"

lemma mpsc_returnsD:
  assumes "mpsc_returns T"
  shows "mpsc_try_send T h b w = (Inl (TrySendFull b'), w') \<Longrightarrow> b' = b"
    and "mpsc_try_send T h b w = (Inl (TrySendClosed b'), w') \<Longrightarrow> b' = b"
    and "mpsc_send T h b w = Some (Inl b', w') \<Longrightarrow> b' = b"
  using assms unfolding mpsc_returns_def by blast+

text \<open>
  \<open>Semaphore\<close>: a semaphore made with \<open>n\<close> permits, to which none are added, never has more than
  \<open>n\<close> available.
\<close>

definition sem_bounded :: "('a, 'm, 'w) tokio \<Rightarrow> handle \<Rightarrow> usize \<Rightarrow> bool" where
  "sem_bounded T h n \<longleftrightarrow> (\<forall>w. sem_available T h w \<le> n)"

text \<open>
  The receiver of an mpsc channel: messages come out in the order they went in; once the receiver
  has closed the channel nothing goes in any more, what is in it can still be received. A view
  reads the channel off the world: all messages it ever took, those that are still in it, and
  whether it is closed. \<open>mail_grows\<close> is what all other code, which has no receiver of this channel,
  can do to it; \<open>mail_takes\<close> is the receipt of one message, before which others may have arrived.
\<close>

record ('m, 'w) mail_view =
  mail_sent :: "'w \<Rightarrow> 'm boxed list"
  mail_pending :: "'w \<Rightarrow> 'm boxed list"
  mail_closed :: "'w \<Rightarrow> bool"

definition mail_grows :: "('m, 'w) mail_view \<Rightarrow> 'w \<Rightarrow> 'w \<Rightarrow> bool" where
  "mail_grows M w w' \<longleftrightarrow>
     (\<exists>new. mail_sent M w' = mail_sent M w @ new \<and> mail_pending M w' = mail_pending M w @ new \<and>
        (mail_closed M w \<longrightarrow> new = [])) \<and>
     (mail_closed M w \<longrightarrow> mail_closed M w')"

definition mail_takes :: "('m, 'w) mail_view \<Rightarrow> 'm boxed \<Rightarrow> 'w \<Rightarrow> 'w \<Rightarrow> bool" where
  "mail_takes M b w w' \<longleftrightarrow> (\<exists>v. mail_grows M w v \<and> mail_sent M w' = mail_sent M v \<and>
     mail_pending M v = b # mail_pending M w' \<and> mail_closed M w' = mail_closed M v)"

definition mpsc_receiver :: "('a, 'm, 'w) tokio \<Rightarrow> handle \<Rightarrow> ('m, 'w) mail_view \<Rightarrow> bool" where
  "mpsc_receiver T rx M \<longleftrightarrow>
     (\<forall>w w'. mpsc_try_recv T rx w = (None, w') \<longrightarrow> mail_pending M w = [] \<and> w' = w) \<and>
     (\<forall>w b w'. mpsc_try_recv T rx w = (Some b, w') \<longrightarrow> mail_takes M b w w') \<and>
     (\<forall>w. mail_sent M (mpsc_close T rx w) = mail_sent M w \<and>
        mail_pending M (mpsc_close T rx w) = mail_pending M w \<and> mail_closed M (mpsc_close T rx w)) \<and>
     (\<forall>w w'. mpsc_recv T rx w = Some (None, w') \<longrightarrow> mail_grows M w w') \<and>
     (\<forall>w b w'. mpsc_recv T rx w = Some (Some b, w') \<longrightarrow> mail_takes M b w w')"

text \<open>A branch of a \<open>select!\<close> that receives does just that; the other branches receive nothing.\<close>

definition select_receiver :: "('a, 'm, 'w) tokio \<Rightarrow> handle \<Rightarrow> ('m, 'w) mail_view \<Rightarrow> bool" where
  "select_receiver T rx M \<longleftrightarrow>
     (\<forall>h w b w'. select_supervised T h rx w = Some (MailboxRecv (Some b), w') \<longrightarrow> mail_takes M b w w') \<and>
     (\<forall>h w w'. select_supervised T h rx w = Some (MailboxRecv None, w') \<longrightarrow> mail_grows M w w') \<and>
     (\<forall>h w w'. select_supervised T h rx w = Some (WatchChanged, w') \<longrightarrow> mail_grows M w w') \<and>
     (\<forall>h w w'. select_supervised T h rx w = Some (WatchClosed, w') \<longrightarrow> mail_grows M w w') \<and>
     (\<forall>n w b w'. select_stopping T rx n w = Some (StopRecv (Some b), w') \<longrightarrow> mail_takes M b w w') \<and>
     (\<forall>n w w'. select_stopping T rx n w = Some (StopRecv None, w') \<longrightarrow> mail_grows M w w') \<and>
     (\<forall>n w w'. select_stopping T rx n w = Some (StopSlept, w') \<longrightarrow> mail_grows M w w')"

interpretation mail: frame_rel "mail_grows M" for M
  by unfold_locales (auto simp: mail_grows_def)

lemma mpsc_receiverD:
  assumes "mpsc_receiver T rx M"
  shows "mpsc_try_recv T rx w = (None, w') \<Longrightarrow> mail_pending M w = [] \<and> w' = w"
    and "mpsc_try_recv T rx w = (Some b, w') \<Longrightarrow> mail_takes M b w w'"
    and "mail_sent M (mpsc_close T rx w) = mail_sent M w"
    and "mail_pending M (mpsc_close T rx w) = mail_pending M w"
    and "mail_closed M (mpsc_close T rx w)"
    and "mpsc_recv T rx w = Some (None, w') \<Longrightarrow> mail_grows M w w'"
    and "mpsc_recv T rx w = Some (Some b, w') \<Longrightarrow> mail_takes M b w w'"
  using assms unfolding mpsc_receiver_def by metis+

lemma select_receiverD:
  assumes "select_receiver T rx M"
  shows "select_supervised T h rx w = Some (MailboxRecv (Some b), w') \<Longrightarrow> mail_takes M b w w'"
    and "select_supervised T h rx w = Some (MailboxRecv None, w') \<Longrightarrow> mail_grows M w w'"
    and "select_supervised T h rx w = Some (WatchChanged, w') \<Longrightarrow> mail_grows M w w'"
    and "select_supervised T h rx w = Some (WatchClosed, w') \<Longrightarrow> mail_grows M w w'"
    and "select_stopping T rx n w = Some (StopRecv (Some b), w') \<Longrightarrow> mail_takes M b w w'"
    and "select_stopping T rx n w = Some (StopRecv None, w') \<Longrightarrow> mail_grows M w w'"
    and "select_stopping T rx n w = Some (StopSlept, w') \<Longrightarrow> mail_grows M w w'"
  using assms unfolding select_receiver_def by metis+

lemma mail_takes_closed:
  "mail_takes M b w w' \<Longrightarrow> mail_closed M w \<Longrightarrow>
     mail_sent M w' = mail_sent M w \<and> mail_pending M w = b # mail_pending M w' \<and> mail_closed M w'"
  by (auto simp: mail_takes_def mail_grows_def)

lemma mail_grows_closed:
  "mail_grows M w w' \<Longrightarrow> mail_closed M w \<Longrightarrow>
     mail_sent M w' = mail_sent M w \<and> mail_pending M w' = mail_pending M w \<and> mail_closed M w'"
  by (auto simp: mail_grows_def)

end
