(* ===== verification/Address.thy ===== *)
theory Address
  imports Tokio
begin

text \<open>
  The addresses of \<open>address.rs\<close>: the errors of sending and asking with their texts, and every
  operation of \<open>ActorRef\<close> and \<open>AnonymousRef\<close> as a computation on the world. A send that fails
  gets the boxed envelope back from the channel and downcasts it to \<open>Envelope<M>\<close> to take the
  message out of it; the downcasts and their \<open>unwrap\<close>s are written out.
\<close>

section \<open>Errors\<close>

datatype 'm send_error = Lost | Closed 'm | Full 'm

datatype 'm ask_error = AskClosed 'm | AskDropped

datatype into_future_error = MailboxClosed | Paniced

fun send_error_into_inner :: "'m send_error \<Rightarrow> ('m, 's) io" where
  "send_error_into_inner Lost = panic"
| "send_error_into_inner (Closed msg) = ret msg"
| "send_error_into_inner (Full msg) = ret msg"

fun send_error_from :: "'m try_send_error \<Rightarrow> 'm send_error" where
  "send_error_from (TrySendFull m) = Full m"
| "send_error_from (TrySendClosed m) = Closed m"

fun send_error_display :: "'m send_error \<Rightarrow> string" where
  "send_error_display Lost =
     ''Message to actor failed because mailbox was/is full, and message was lost for some reason''"
| "send_error_display (Closed _) = ''Message failed to send to actor because mailbox is closed''"
| "send_error_display (Full _) = ''Message to actor failed because mailbox was/is full''"

fun ask_error_display :: "'m ask_error \<Rightarrow> string" where
  "ask_error_display (AskClosed _) = ''Message failed to send to actor because mailbox is closed''"
| "ask_error_display AskDropped =
     ''Message successfully sent to actor however it failed while we were waiting for a response''"

fun into_future_error_display :: "into_future_error \<Rightarrow> string" where
  "into_future_error_display MailboxClosed =
     ''Actor failed to resolve because it's mailbox is already closed'' @ [CHR 0x0A]"
| "into_future_error_display Paniced =
     ''Actor failed to resolve because of it Paniced'' @ [CHR 0x0A]"

section \<open>Operations of ActorRef\<close>

definition actor_ref_new :: "handle \<Rightarrow> actor_ref" where
  "actor_ref_new h = ActorRef h"

definition actor_ref_clone :: "actor_ref \<Rightarrow> actor_ref" where
  "actor_ref_clone r = ActorRef (ref_address r)"

definition actor_ref_display :: "string \<Rightarrow> actor_ref \<Rightarrow> string" where
  "actor_ref_display name r = ''ActorRef<'' @ name @ ''>''"

definition internal_send_async ::
  "('a, 'm, 'w) tokio \<Rightarrow> actor_ref \<Rightarrow> internal \<Rightarrow> (internal send_error + unit, 'w) io" where
  "internal_send_async T r m =
     io_bind (await (mpsc_send T (ref_address r) (BoxConfidential (confidential_new m))))
       (\<lambda>res. case res of
            Inl err \<Rightarrow>
              (case downcast_internal_envelope (as_any err) of
                 Some envelope \<Rightarrow>
                   io_bind (envelope_unwrap envelope) (\<lambda>(msg, _). ret (Inl (Closed msg)))
               | None \<Rightarrow> ret (Inl Lost))
          | Inr _ \<Rightarrow> ret (Inr ()))"

definition try_send :: "('a, 'm, 'w) tokio \<Rightarrow> actor_ref \<Rightarrow> 'm \<Rightarrow> (unit, 'w) io" where
  "try_send T r m =
     io_bind (call (mpsc_try_send T (ref_address r) (BoxEnvelope (envelope_new m)))) (\<lambda>_. ret ())"

text \<open>
  \<open>err.as_any().downcast_mut::<Envelope<M>>().unwrap().unwrap()\<close>, shared by the sends and asks.
\<close>

definition unwrap_box :: "'m boxed \<Rightarrow> ('m, 'w) io" where
  "unwrap_box err =
     io_bind (unwrap (downcast_envelope (as_any err)))
       (\<lambda>e. io_bind (envelope_unwrap e) (\<lambda>(msg, _). ret msg))"

definition send :: "('a, 'm, 'w) tokio \<Rightarrow> actor_ref \<Rightarrow> 'm \<Rightarrow> ('m send_error + unit, 'w) io" where
  "send T r m =
     io_bind (call (mpsc_try_send T (ref_address r) (BoxEnvelope (envelope_new m))))
       (\<lambda>res. case res of
            Inl (TrySendFull err) \<Rightarrow> io_bind (unwrap_box err) (\<lambda>msg. ret (Inl (Full msg)))
          | Inl (TrySendClosed err) \<Rightarrow> io_bind (unwrap_box err) (\<lambda>msg. ret (Inl (Closed msg)))
          | Inr _ \<Rightarrow> ret (Inr ()))"

definition send_async :: "('a, 'm, 'w) tokio \<Rightarrow> actor_ref \<Rightarrow> 'm \<Rightarrow> ('m send_error + unit, 'w) io" where
  "send_async T r m =
     io_bind (await (mpsc_send T (ref_address r) (BoxEnvelope (envelope_new m))))
       (\<lambda>res. case res of
            Inl err \<Rightarrow> io_bind (unwrap_box err) (\<lambda>msg. ret (Inl (Closed msg)))
          | Inr _ \<Rightarrow> ret (Inr ()))"

text \<open>The end of the awaiting functions: \<open>rx.await.ok()\<close> and \<open>rx.await.map_err(..)\<close>.\<close>

definition await_ok :: "('a, 'm, 'w) tokio \<Rightarrow> handle \<Rightarrow> ('m option, 'w) io" where
  "await_ok T rx = io_bind (await (oneshot_recv T rx))
     (\<lambda>res. ret (case res of Inl _ \<Rightarrow> None | Inr v \<Rightarrow> Some v))"

definition await_answer :: "('a, 'm, 'w) tokio \<Rightarrow> handle \<Rightarrow> ('m ask_error + 'm, 'w) io" where
  "await_answer T rx = io_bind (await (oneshot_recv T rx))
     (\<lambda>res. ret (case res of Inl _ \<Rightarrow> Inl AskDropped | Inr v \<Rightarrow> Inr v))"

definition try_ask :: "('a, 'm, 'w) tokio \<Rightarrow> actor_ref \<Rightarrow> 'm \<Rightarrow> ('m option, 'w) io" where
  "try_ask T r m =
     io_bind (call (oneshot_channel T)) (\<lambda>tx.
     io_bind (call (mpsc_try_send T (ref_address r)
               (BoxResponse (response_new (envelope_new m) tx))))
       (\<lambda>res. case res of Inl _ \<Rightarrow> ret None | Inr _ \<Rightarrow> await_ok T tx))"

definition ask :: "('a, 'm, 'w) tokio \<Rightarrow> actor_ref \<Rightarrow> 'm \<Rightarrow> ('m ask_error + 'm, 'w) io" where
  "ask T r m =
     io_bind (call (oneshot_channel T)) (\<lambda>tx.
     io_bind (await (mpsc_send T (ref_address r)
               (BoxResponse (response_new (envelope_new m) tx))))
       (\<lambda>res. case res of
            Inl err \<Rightarrow> io_bind (unwrap_box err) (\<lambda>msg. ret (Inl (AskClosed msg)))
          | Inr _ \<Rightarrow> await_answer T tx))"

definition try_async_ask :: "('a, 'm, 'w) tokio \<Rightarrow> actor_ref \<Rightarrow> 'm \<Rightarrow> ('m option, 'w) io" where
  "try_async_ask T r m =
     io_bind (call (oneshot_channel T)) (\<lambda>tx.
     io_bind (call (mpsc_try_send T (ref_address r)
               (BoxAsyncResponse (async_response_new (envelope_new m) tx))))
       (\<lambda>res. case res of Inl _ \<Rightarrow> ret None | Inr _ \<Rightarrow> await_ok T tx))"

definition async_ask :: "('a, 'm, 'w) tokio \<Rightarrow> actor_ref \<Rightarrow> 'm \<Rightarrow> ('m ask_error + 'm, 'w) io" where
  "async_ask T r m =
     io_bind (call (oneshot_channel T)) (\<lambda>tx.
     io_bind (await (mpsc_send T (ref_address r)
               (BoxAsyncResponse (async_response_new (envelope_new m) tx))))
       (\<lambda>res. case res of
            Inl err \<Rightarrow> io_bind (unwrap_box err) (\<lambda>msg. ret (Inl (AskClosed msg)))
          | Inr _ \<Rightarrow> await_answer T tx))"

definition schedule :: "('a, 'm, 'w) tokio \<Rightarrow> actor_ref \<Rightarrow> nat \<Rightarrow> (actor_ref, 'w) io" where
  "schedule T r duration = io_bind (await (sleep T duration)) (\<lambda>_. ret r)"

text \<open>
  Awaiting the struct of a finished actor: the two requests differ in \<open>stop_now\<close>.
\<close>

definition await_actor :: "('a, 'm, 'w) tokio \<Rightarrow> handle \<Rightarrow> (into_future_error + 'a, 'w) io" where
  "await_actor T rx = io_bind (await (oneshot_recv_actor T rx))
     (\<lambda>res. ret (case res of Inr actor \<Rightarrow> Inr actor | Inl _ \<Rightarrow> Inl Paniced))"

definition request_shutdown ::
  "('a, 'm, 'w) tokio \<Rightarrow> actor_ref \<Rightarrow> bool \<Rightarrow> handle \<Rightarrow> (into_future_error + 'a, 'w) io" where
  "request_shutdown T r now tx =
     io_bind (internal_send_async T r (InternalShutdown (IntoFutureShutdown now tx)))
       (\<lambda>res. case res of Inl _ \<Rightarrow> ret (Inl MailboxClosed) | Inr _ \<Rightarrow> await_actor T tx)"

definition wait_for_completion ::
  "('a, 'm, 'w) tokio \<Rightarrow> actor_ref \<Rightarrow> (into_future_error + 'a, 'w) io" where
  "wait_for_completion T r =
     io_bind (call (oneshot_channel T)) (\<lambda>tx. request_shutdown T r False tx)"

definition into_future :: "('a, 'm, 'w) tokio \<Rightarrow> actor_ref \<Rightarrow> (into_future_error + 'a, 'w) io" where
  "into_future T r =
     io_bind (gets (mpsc_is_closed T (ref_address r))) (\<lambda>closed.
       if closed then ret (Inl MailboxClosed)
       else io_bind (call (oneshot_channel T)) (\<lambda>tx. request_shutdown T r True tx))"

text \<open>\<open>AnonymousRef\<close>: the join handle of an anonymous task, which can be aborted.\<close>

definition anonymous_ref_new :: "handle \<Rightarrow> anonymous_ref" where
  "anonymous_ref_new h = AnonymousRef h"

definition halt :: "('a, 'm, 'w) tokio \<Rightarrow> anonymous_ref \<Rightarrow> (unit, 'w) io" where
  "halt T r = modify (task_abort T (ref_handle r))"

section \<open>What the operations return\<close>

lemma unwrap_box_envelope [simp]: "unwrap_box (BoxEnvelope (envelope_new m)) = ret m"
  by (simp add: unwrap_box_def as_any_def)

lemma unwrap_box_response [simp]: "unwrap_box (BoxResponse r) = panic"
  by (simp add: unwrap_box_def as_any_def)

lemma unwrap_box_async_response [simp]: "unwrap_box (BoxAsyncResponse r) = panic"
  by (simp add: unwrap_box_def as_any_def)

lemma unwrap_box_cases:
  obtains m where "b = BoxEnvelope (Envelope (Some m))" "unwrap_box b = ret m"
  | "unwrap_box b = panic"
  by (cases b; simp add: unwrap_box_def as_any_def envelope_unwrap_def)
    (metis (no_types, lifting) envelope.collapse io_bind_panic io_bind_ret not_Some_eq prod.case
      unwrap_None unwrap_Some)

lemma internal_send_async_eq:
  "internal_send_async T r m =
     io_bind (await (mpsc_send T (ref_address r) (BoxConfidential (confidential_new m))))
       (\<lambda>res. ret (case res of Inl _ \<Rightarrow> Inl Lost | Inr _ \<Rightarrow> Inr ()))"
  unfolding internal_send_async_def
  by (rule arg_cong [where f = "io_bind _"]) (rule ext, simp split: sum.splits)

text \<open>
  The message a failed send gives back. The contract of the sends that return an error: they do
  not panic, and whatever they could not deliver comes back to the caller.
\<close>

fun send_error_message :: "'m send_error \<Rightarrow> 'm option" where
  "send_error_message Lost = None"
| "send_error_message (Closed m) = Some m"
| "send_error_message (Full m) = Some m"

lemma send_error_into_inner_message:
  "send_error_message e = Some m \<Longrightarrow> send_error_into_inner e = ret m"
  by (cases e) simp_all

locale returning_sender =
  fixes channel_ok :: "'t \<Rightarrow> bool"
    and snd_op :: "'t \<Rightarrow> 'h \<Rightarrow> 'm \<Rightarrow> ('m send_error + unit, 'w) io"
  assumes gives_back: "channel_ok T \<Longrightarrow> snd_op T r m w = Some (x, w') \<Longrightarrow>
    x = Done (Inr ()) \<or> (\<exists>e. x = Done (Inl e) \<and> send_error_message e = Some m)"
begin

lemma no_panic: "channel_ok T \<Longrightarrow> safe (\<lambda>_. True) (snd_op T r m)"
  unfolding safe_def using gives_back by blast

lemma never_lost: "channel_ok T \<Longrightarrow> snd_op T r m w = Some (Done (Inl e), w') \<Longrightarrow> e \<noteq> Lost"
  using gives_back [of T r m w "Done (Inl e)" w'] by auto

text \<open>A caller that takes the message out of the error of its send has its own message.\<close>

lemma into_inner_message:
  assumes "channel_ok T"
  shows "triple (\<lambda>_. True)
    (io_bind (snd_op T r m) (\<lambda>res. case res of Inl e \<Rightarrow> send_error_into_inner e | Inr _ \<Rightarrow> ret m))
    (\<lambda>x _. x = m)"
  unfolding triple_def
proof (intro allI impI)
  fix w x t
  assume run: "io_bind (snd_op T r m)
    (\<lambda>res. case res of Inl e \<Rightarrow> send_error_into_inner e | Inr _ \<Rightarrow> ret m) w = Some (Done x, t)"
  then obtain y w' where y: "snd_op T r m w = Some (y, w')"
    by (auto simp: io_simps split: option.splits)
  with gives_back [OF assms y] run show "x = m"
    by (auto simp: io_simps send_error_into_inner_message)
qed

end

interpretation send: returning_sender mpsc_returns send
  by unfold_locales
    (auto simp: send_def io_simps dest: mpsc_returnsD
      split: option.splits prod.splits sum.splits res.splits try_send_error.splits)

interpretation send_async: returning_sender mpsc_returns send_async
  by unfold_locales
    (auto simp: send_async_def io_simps dest: mpsc_returnsD
      split: option.splits prod.splits sum.splits res.splits)

lemma send_async_run:
  assumes "mpsc_returns T"
  shows "send_async T r m w =
    (case mpsc_send T (ref_address r) (BoxEnvelope (envelope_new m)) w of
       None \<Rightarrow> None
     | Some (Inl _, w') \<Rightarrow> Some (Done (Inl (Closed m)), w')
     | Some (Inr _, w') \<Rightarrow> Some (Done (Inr ()), w'))"
  by (auto simp: send_async_def io_simps dest: mpsc_returnsD [OF assms]
      split: prod.split sum.split option.split)

section \<open>Properties\<close>

text \<open>\<open>ActorRef::send\<close> on every branch: a full and a closed mailbox are told apart, the message comes
  back in the error, and nothing panics.\<close>

theorem send_result:
  assumes "mpsc_returns T"
  shows "send T r m w =
    (case mpsc_try_send T (ref_address r) (BoxEnvelope (envelope_new m)) w of
       (Inl (TrySendFull _), w') \<Rightarrow> Some (Done (Inl (Full m)), w')
     | (Inl (TrySendClosed _), w') \<Rightarrow> Some (Done (Inl (Closed m)), w')
     | (Inr _, w') \<Rightarrow> Some (Done (Inr ()), w'))"
  by (auto simp: send_def io_simps dest: mpsc_returnsD [OF assms]
      split: prod.split sum.split try_send_error.split)

text \<open>C32: a caller of \<open>send_async\<close> that takes the message out of the error, on every branch: a send that the mailbox
  refuses comes back with an error, without a panic, and \<open>into_inner\<close> of the error is the very message that was sent; a
  send that is accepted comes back with none.\<close>

theorem send_async_into_inner:
  assumes "mpsc_returns T"
  shows "io_bind (send_async T r m) (\<lambda>res. case res of
       Inl e \<Rightarrow> io_bind (send_error_into_inner e) (\<lambda>x. ret (Some x)) | Inr _ \<Rightarrow> ret None) w =
    (case mpsc_send T (ref_address r) (BoxEnvelope (envelope_new m)) w of
       None \<Rightarrow> None
     | Some (Inl _, w') \<Rightarrow> Some (Done (Some m), w')
     | Some (Inr _, w') \<Rightarrow> Some (Done None, w'))"
  by (auto simp: send_async_run [OF assms] io_simps split: option.split prod.split sum.split)

text \<open>C33: \<open>ActorRef::ask\<close> on every branch: the answer, or \<open>AskDropped\<close> when its sender is gone; but a closed
  mailbox is a panic, because the box that comes back is not an \<open>Envelope\<close>.\<close>

theorem ask_result:
  assumes "mpsc_returns T"
  shows "ask T r m w =
    (case oneshot_channel T w of (tx, w1) \<Rightarrow>
     (case mpsc_send T (ref_address r) (BoxResponse (response_new (envelope_new m) tx)) w1 of
        None \<Rightarrow> None
      | Some (Inl _, w2) \<Rightarrow> Some (Panic, w2)
      | Some (Inr _, w2) \<Rightarrow>
          (case oneshot_recv T tx w2 of
             None \<Rightarrow> None
           | Some (Inl _, w3) \<Rightarrow> Some (Done (Inl AskDropped), w3)
           | Some (Inr v, w3) \<Rightarrow> Some (Done (Inr v), w3))))"
  by (auto simp: ask_def await_answer_def io_simps dest: mpsc_returnsD [OF assms]
      split: prod.split sum.split option.split)

text \<open>The same of \<open>ActorRef::async_ask\<close>.\<close>

theorem async_ask_result:
  assumes "mpsc_returns T"
  shows "async_ask T r m w =
    (case oneshot_channel T w of (tx, w1) \<Rightarrow>
     (case mpsc_send T (ref_address r) (BoxAsyncResponse (async_response_new (envelope_new m) tx)) w1 of
        None \<Rightarrow> None
      | Some (Inl _, w2) \<Rightarrow> Some (Panic, w2)
      | Some (Inr _, w2) \<Rightarrow>
          (case oneshot_recv T tx w2 of
             None \<Rightarrow> None
           | Some (Inl _, w3) \<Rightarrow> Some (Done (Inl AskDropped), w3)
           | Some (Inr v, w3) \<Rightarrow> Some (Done (Inr v), w3))))"
  by (auto simp: async_ask_def await_answer_def io_simps dest: mpsc_returnsD [OF assms]
      split: prod.split sum.split option.split)

text \<open>The framework's own \<open>internal_send_async\<close> never gives its message back: every failure is
  \<open>Lost\<close>, the branch that returns \<open>Closed\<close> is never taken.\<close>

theorem internal_send_async_lost:
  "internal_send_async T r m w =
    (case mpsc_send T (ref_address r) (BoxConfidential (confidential_new m)) w of
       None \<Rightarrow> None
     | Some (Inl _, w') \<Rightarrow> Some (Done (Inl Lost), w')
     | Some (Inr _, w') \<Rightarrow> Some (Done (Inr ()), w'))"
  by (simp add: internal_send_async_eq io_simps split: option.split prod.split sum.split)

text \<open>Awaiting an actor, on every branch: a mailbox that is closed at the beginning or when the request
  is sent is \<open>MailboxClosed\<close>, a subscriber that is dropped is \<open>Paniced\<close>, else the actor's struct.\<close>

theorem into_future_result:
  "into_future T r w =
    (if mpsc_is_closed T (ref_address r) w then Some (Done (Inl MailboxClosed), w)
     else (case oneshot_channel T w of (tx, w1) \<Rightarrow>
       (case mpsc_send T (ref_address r)
            (BoxConfidential (confidential_new (InternalShutdown (IntoFutureShutdown True tx)))) w1 of
          None \<Rightarrow> None
        | Some (Inl _, w2) \<Rightarrow> Some (Done (Inl MailboxClosed), w2)
        | Some (Inr _, w2) \<Rightarrow>
            (case oneshot_recv_actor T tx w2 of
               None \<Rightarrow> None
             | Some (Inl _, w3) \<Rightarrow> Some (Done (Inl Paniced), w3)
             | Some (Inr a, w3) \<Rightarrow> Some (Done (Inr a), w3)))))"
  by (auto simp: into_future_def request_shutdown_def await_actor_def internal_send_async_eq io_simps
      split: option.split prod.split sum.split)

end
