(* ===== verification/Actor.thy ===== *)
theory Actor
  imports Address
begin

text \<open>
  The traits of \<open>actor.rs\<close>. What a user implements is a record of computations: \<open>actor_impl\<close> has
  the items of the trait \<open>Actor\<close>, and \<open>actor_ops\<close> adds what the actor does with its messages
  (\<open>Handler\<close>, \<open>Ask\<close>, \<open>AsyncAsk\<close>, one function each over all message types, with the scheduler it
  asks for). User code runs on the actor struct, its context and the world.
\<close>

type_synonym ('a, 'w) env = "'a \<times> ctx \<times> 'w"

type_synonym ('a, 'w) hook = "(unit, ('a, 'w) env) io"

record ('a, 'w) actor_impl =
  actor_name :: string
  impl_max_anonymous_actors :: usize
  impl_mailbox_size :: usize
  on_start :: "('a, 'w) hook"
  pre_run :: "('a, 'w) hook"
  post_run :: "('a, 'w) hook"
  on_stopping :: "('a, 'w) hook"
  on_stopped :: "('a, 'w) hook"
  on_end :: "('a, 'w) hook"

text \<open>
  The future that \<open>AsyncAsk::handle\<close> returns may borrow the actor struct: it is a computation on
  the struct and the world.
\<close>

record ('a, 'm, 'w) actor_ops = "('a, 'w) actor_impl" +
  handle_send :: "'m \<Rightarrow> ('a, 'w) hook"
  handle_ask :: "'m \<Rightarrow> ('m ask_result, ('a, 'w) env) io"
  handle_async_ask :: "'m \<Rightarrow> (('m, 'a \<times> 'w) io, ('a, 'w) env) io"
  scheduler_send :: "'m \<Rightarrow> scheduler"
  scheduler_ask :: "'m \<Rightarrow> scheduler"
  scheduler_async_ask :: "'m \<Rightarrow> scheduler"

text \<open>The provided methods of the traits: \<open>usize::MAX >> 3\<close>, six letters, empty hooks.\<close>

definition default_max_anonymous_actors :: usize where
  "default_max_anonymous_actors = drop_bit 3 (- 1)"

definition default_mailbox_size :: usize where
  "default_mailbox_size = 6"

definition default_scheduler :: "'m \<Rightarrow> scheduler" where
  "default_scheduler m = NonBlocking"

definition default_actor :: "string \<Rightarrow> ('a, 'w) actor_impl" where
  "default_actor nm = \<lparr> actor_name = nm,
     impl_max_anonymous_actors = default_max_anonymous_actors,
     impl_mailbox_size = default_mailbox_size,
     on_start = ret (), pre_run = ret (), post_run = ret (),
     on_stopping = ret (), on_stopped = ret (), on_end = ret () \<rparr>"

text \<open>An actor with the default hooks and schedulers and the given handlers.\<close>

definition with_handlers ::
  "('a, 'w) actor_impl \<Rightarrow> ('m \<Rightarrow> ('a, 'w) hook) \<Rightarrow>
   ('m \<Rightarrow> ('m ask_result, ('a, 'w) env) io) \<Rightarrow>
   ('m \<Rightarrow> (('m, 'a \<times> 'w) io, ('a, 'w) env) io) \<Rightarrow> ('a, 'm, 'w) actor_ops" where
  "with_handlers impl hs ha hy = actor_impl.extend impl (actor_ops.fields hs ha hy
     default_scheduler default_scheduler default_scheduler)"

lemma with_handlers_simps [simp]:
  "actor_name (with_handlers I hs ha hy) = actor_name I"
  "impl_max_anonymous_actors (with_handlers I hs ha hy) = impl_max_anonymous_actors I"
  "impl_mailbox_size (with_handlers I hs ha hy) = impl_mailbox_size I"
  "on_start (with_handlers I hs ha hy) = on_start I"
  "pre_run (with_handlers I hs ha hy) = pre_run I"
  "post_run (with_handlers I hs ha hy) = post_run I"
  "on_stopping (with_handlers I hs ha hy) = on_stopping I"
  "on_stopped (with_handlers I hs ha hy) = on_stopped I"
  "on_end (with_handlers I hs ha hy) = on_end I"
  "handle_send (with_handlers I hs ha hy) = hs"
  "handle_ask (with_handlers I hs ha hy) = ha"
  "handle_async_ask (with_handlers I hs ha hy) = hy"
  "scheduler_send (with_handlers I hs ha hy) = default_scheduler"
  "scheduler_ask (with_handlers I hs ha hy) = default_scheduler"
  "scheduler_async_ask (with_handlers I hs ha hy) = default_scheduler"
  by (simp_all add: with_handlers_def actor_impl.defs actor_ops.defs)

lemma unat_default_max: "unat default_max_anonymous_actors = 2 ^ 61 - 1"
  by (simp add: default_max_anonymous_actors_def mask_eq_exp_minus_1)

end
