(* ===== verification/Context.thy ===== *)
theory Context
  imports Actor
begin

text \<open>
  The context of \<open>context.rs\<close>: creating it, stopping and aborting the actor, the subscriptions to
  its end, and everything an actor spawns through its context, as computations on the context and
  the world; and the asynchronous blocks of the anonymous tasks, which run on the world alone.
  Where the code relies on when a value is dropped (watch receivers, permits, the sending side of
  a oneshot) the drop is written out.
\<close>

type_synonym 'w cworld = "ctx \<times> 'w"

definition in_world :: "('r, 'w) io \<Rightarrow> ('r, 'w cworld) io" where
  "in_world = zoom snd (\<lambda>w (c, _). (c, w))"

lemma in_world_run [io_simps]:
  "in_world m (c, w) = (case m w of None \<Rightarrow> None | Some (x, w') \<Rightarrow> Some (x, (c, w')))"
  by (simp add: in_world_def zoom_run split: option.splits)

section \<open>Creating, stopping and watching an actor\<close>

definition ctx_new :: "('a, 'm, 'w) tokio \<Rightarrow> ('b, 'v, 'x) actor_impl_scheme \<Rightarrow> (ctx, 'w) io" where
  "ctx_new T P =
     io_bind (call (mpsc_channel T (impl_mailbox_size P))) (\<lambda>tx.
     io_bind (call (watch_channel T)) (\<lambda>ntf.
     io_bind (call (sem_new T (impl_max_anonymous_actors P))) (\<lambda>sem.
       ret \<lparr> address = actor_ref_new tx, mailbox = tx, notifier = ntf, state = Running,
             max_anonymous_actors = sem, overflow_anonymous_actors = 0,
             into_future_sender = None \<rparr>)))"

definition stop :: "ctx \<Rightarrow> ctx" where
  "stop c = (if state c = Running then c\<lparr>state := Stopping\<rparr> else c)"

definition abort :: "('a, 'm, 'w) tokio \<Rightarrow> 'w cworld \<Rightarrow> 'w cworld" where
  "abort T = (\<lambda>(c, w).
     if state c = Running \<or> state c = Stopping
     then (c\<lparr>state := Stopped\<rparr>, mpsc_close T (mailbox c) w) else (c, w))"

definition ctx_address :: "ctx \<Rightarrow> actor_ref" where
  "ctx_address c = actor_ref_clone (address c)"

text \<open>Setting \<open>into_future_sender\<close> drops the sender it held.\<close>

definition set_into_future_sender ::
  "('a, 'm, 'w) tokio \<Rightarrow> into_future_sender \<Rightarrow> 'w cworld \<Rightarrow> 'w cworld" where
  "set_into_future_sender T s = (\<lambda>(c, w).
     (c\<lparr>into_future_sender := Some s\<rparr>,
      case into_future_sender c of None \<Rightarrow> w | Some old \<Rightarrow> oneshot_drop_tx T (into_inner old) w))"

definition subscribe_and_stop :: "('a, 'm, 'w) tokio \<Rightarrow> handle \<Rightarrow> 'w cworld \<Rightarrow> 'w cworld" where
  "subscribe_and_stop T tx cw =
     (case set_into_future_sender T (Now tx) cw of
        (c, w) \<Rightarrow> (if state c = Running then (stop c, w) else (c, w)))"

definition subscribe_and_wait :: "('a, 'm, 'w) tokio \<Rightarrow> handle \<Rightarrow> 'w cworld \<Rightarrow> 'w cworld" where
  "subscribe_and_wait T tx = set_into_future_sender T (UponCompletion tx)"

section \<open>Spawning\<close>

definition run_top :: "('a, 'm, 'w) tokio \<Rightarrow> ctx \<Rightarrow> 'a \<Rightarrow> (actor_ref, 'w) io" where
  "run_top T c a = io_bind (call (spawn T (RunActor a c))) (\<lambda>_. ret (actor_ref_clone (address c)))"

definition start :: "('a, 'm, 'w) tokio \<Rightarrow> ('a, 'w, 'x) actor_impl_scheme \<Rightarrow> 'a \<Rightarrow> (actor_ref, 'w) io" where
  "start T P a = io_bind (ctx_new T P) (\<lambda>c. run_top T c a)"

definition spawn_with :: "('a, 'm, 'w) tokio \<Rightarrow> ctx \<Rightarrow> 'a \<Rightarrow> (actor_ref, 'w cworld) io" where
  "spawn_with T child_ctx a =
     io_bind (gets fst) (\<lambda>self.
     io_seq (io_assert (state self = Running))
     (io_bind (in_world (call (watch_subscribe T (notifier self)))) (\<lambda>rx.
      io_bind (in_world (call (spawn T
        (SuperviseChild a child_ctx rx (actor_ref_clone (address self))))))
        (\<lambda>_. ret (actor_ref_clone (address child_ctx))))))"

definition spawn_child ::
  "('a, 'm, 'w) tokio \<Rightarrow> ('a, 'w, 'x) actor_impl_scheme \<Rightarrow> 'a \<Rightarrow> (actor_ref, 'w cworld) io" where
  "spawn_child T P a = io_bind (in_world (ctx_new T P)) (\<lambda>child_ctx. spawn_with T child_ctx a)"

text \<open>
  The three bridges from a typed channel \<open>rx\<close> to the mailbox of this actor: each spawns a
  \<open>Noop\<close> actor as a child. \<open>Noop\<close> has the default implementation of \<open>Actor\<close>.
\<close>

definition noop :: "('a, 'w) actor_impl" where
  "noop = default_actor ''Noop''"

definition spawn_bridge ::
  "('a, 'm, 'w) tokio \<Rightarrow> (ctx \<Rightarrow> handle \<Rightarrow> actor_ref \<Rightarrow> ('a, 'm, 'w) task) \<Rightarrow> (unit, 'w cworld) io" where
  "spawn_bridge T block =
     io_bind (gets fst) (\<lambda>self.
     io_seq (io_assert (state self = Running))
     (io_bind (in_world (ctx_new T (noop :: ('a, 'w) actor_impl))) (\<lambda>c.
      io_bind (in_world (call (watch_subscribe T (notifier self)))) (\<lambda>rx.
      io_bind (in_world (call (spawn T (block c rx (ctx_address self))))) (\<lambda>_. ret ())))))"

definition spawn_anonymous_rx_handle :: "('a, 'm, 'w) tokio \<Rightarrow> handle \<Rightarrow> (unit, 'w cworld) io" where
  "spawn_anonymous_rx_handle T bridge = spawn_bridge T (\<lambda>c rx self. BridgeHandle c rx self bridge)"

definition spawn_anonymous_rx_ask :: "('a, 'm, 'w) tokio \<Rightarrow> handle \<Rightarrow> (unit, 'w cworld) io" where
  "spawn_anonymous_rx_ask T bridge = spawn_bridge T (\<lambda>c rx self. BridgeAsk c rx self bridge)"

definition spawn_anonymous_rx_async :: "('a, 'm, 'w) tokio \<Rightarrow> handle \<Rightarrow> (unit, 'w cworld) io" where
  "spawn_anonymous_rx_async T bridge = spawn_bridge T (\<lambda>c rx self. BridgeAsync c rx self bridge)"

section \<open>Anonymous tasks\<close>

text \<open>A failed \<open>try_acquire_owned\<close> counts the task as overflow and lets it run without a permit.\<close>

definition acquire_anonymous_permit :: "('a, 'm, 'w) tokio \<Rightarrow> (handle option, 'w cworld) io" where
  "acquire_anonymous_permit T =
     io_bind (gets fst) (\<lambda>self.
     io_bind (in_world (call (sem_try_acquire T (max_anonymous_actors self)))) (\<lambda>res.
       case res of
         Inr permit \<Rightarrow> ret (Some permit)
       | Inl NoPermits \<Rightarrow>
           io_bind (usize_add (overflow_anonymous_actors self) 1) (\<lambda>n.
           io_seq (modify (\<lambda>(c, w). (c\<lparr>overflow_anonymous_actors := n\<rparr>, w))) (ret None))
       | Inl SemaphoreClosed \<Rightarrow> panic))"

definition anonymous :: "('a, 'm, 'w) tokio \<Rightarrow> ('m, 'w) io \<Rightarrow> (anonymous_ref, 'w cworld) io" where
  "anonymous T future =
     io_bind (gets fst) (\<lambda>self.
     io_bind (in_world (call (watch_subscribe T (notifier self)))) (\<lambda>rx.
     io_bind (acquire_anonymous_permit T) (\<lambda>permit.
     io_bind (in_world (call (spawn T
       (AnonymousMessage (actor_ref_clone (address self)) rx permit future)))) (\<lambda>h.
     ret (anonymous_ref_new h)))))"

definition anonymous_task :: "('a, 'm, 'w) tokio \<Rightarrow> (unit, 'w) io \<Rightarrow> (anonymous_ref, 'w cworld) io" where
  "anonymous_task T future =
     io_bind (gets fst) (\<lambda>self.
     io_bind (in_world (call (watch_subscribe T (notifier self)))) (\<lambda>rx.
     io_bind (acquire_anonymous_permit T) (\<lambda>permit.
     io_bind (in_world (call (spawn T
       (AnonymousUnit (actor_ref_clone (address self)) rx permit future)))) (\<lambda>h.
     ret (anonymous_ref_new h)))))"

definition anonymous_handle :: "('a, 'm, 'w) tokio \<Rightarrow> ('m, 'w) io \<Rightarrow> (async_handle, 'w cworld) io" where
  "anonymous_handle T future =
     io_bind (gets fst) (\<lambda>self.
     io_bind (in_world (call (watch_subscribe T (notifier self)))) (\<lambda>rx.
     io_bind (acquire_anonymous_permit T) (\<lambda>permit.
     io_bind (in_world (call (spawn T (AnonymousAnswer rx permit future)))) (\<lambda>h.
     ret (AsyncHandle h)))))"

text \<open>
  \<open>AnonymousActor::handle\<close>: a supervisor message that is already there cancels the future before
  it starts, one that comes while it runs cancels it then. The struct is its result, \<open>None\<close> for a
  cancelled future, and its watch receiver \<open>rx\<close>; \<open>sel\<close> is the \<open>select!\<close> for the output type.
\<close>

definition anonymous_actor_new :: "handle \<Rightarrow> 'x anonymous_actor" where
  "anonymous_actor_new rx = \<lparr> anon_result = None, anon_receiver = rx \<rparr>"

definition anonymous_actor_handle ::
  "('a, 'm, 'w) tokio \<Rightarrow> (handle \<Rightarrow> ('x, 'w) io \<Rightarrow> ('x option, 'w) io) \<Rightarrow>
   'x anonymous_actor \<Rightarrow> ('x, 'w) io \<Rightarrow> ('x anonymous_actor, 'w) io" where
  "anonymous_actor_handle T sel self f =
     io_bind (call (watch_borrow_and_update T (anon_receiver self))) (\<lambda>msg.
       if msg \<noteq> None then ret self
       else io_bind (sel (anon_receiver self) f) (\<lambda>res.
         ret (case res of None \<Rightarrow> self | Some result \<Rightarrow> self\<lparr>anon_result := Some result\<rparr>)))"

definition drop_permit :: "('a, 'm, 'w) tokio \<Rightarrow> handle option \<Rightarrow> (unit, 'w) io" where
  "drop_permit T permit = (case permit of None \<Rightarrow> ret () | Some p \<Rightarrow> modify (permit_drop T p))"

text \<open>
  The block that \<open>anonymous\<close> spawns: run the future in a task of its own and tell the supervisor
  how it went. The receiver lives until the supervisor has been told, or until the panic.
\<close>

definition anonymous_block ::
  "('a, 'm, 'w) tokio \<Rightarrow> actor_ref \<Rightarrow> handle \<Rightarrow> handle option \<Rightarrow> ('m, 'w) io \<Rightarrow> (unit, 'w) io" where
  "anonymous_block T supervisor rx permit future =
     io_bind (spawn_join_message T
       (anonymous_actor_handle T (select_message T) (anonymous_actor_new rx) future)) (\<lambda>res.
     io_seq (case res of
         Inr inner \<Rightarrow>
           io_seq (case anon_result inner of
               Some message \<Rightarrow> io_bind (send_async T supervisor message) (\<lambda>_. ret ())
             | None \<Rightarrow> io_bind (internal_send_async T supervisor (InternalAnonymous CancelCancel))
                 (\<lambda>_. ret ()))
           (modify (watch_drop_rx T (anon_receiver inner)))
       | Inl _ \<Rightarrow>
           io_seq (modify (watch_drop_rx T rx))
             (io_bind (internal_send_async T supervisor (InternalAnonymous CancelPanic)) (\<lambda>_. ret ())))
     (drop_permit T permit))"

text \<open>
  The block that \<open>anonymous_task\<close> spawns: \<open>let _ =\<close> drops the finished task, and its receiver,
  before the supervisor is told.
\<close>

definition anonymous_task_block ::
  "('a, 'm, 'w) tokio \<Rightarrow> actor_ref \<Rightarrow> handle \<Rightarrow> handle option \<Rightarrow> (unit, 'w) io \<Rightarrow> (unit, 'w) io" where
  "anonymous_task_block T supervisor rx permit future =
     io_bind (spawn_join_unit T
       (anonymous_actor_handle T (select_unit T) (anonymous_actor_new rx) future)) (\<lambda>_.
     io_seq (modify (watch_drop_rx T rx))
     (io_bind (internal_send_async T supervisor (InternalAnonymous CancelSuccess)) (\<lambda>_.
     drop_permit T permit)))"

definition anonymous_handle_block ::
  "('a, 'm, 'w) tokio \<Rightarrow> handle \<Rightarrow> handle option \<Rightarrow> ('m, 'w) io \<Rightarrow> ('m anonymous_actor, 'w) io" where
  "anonymous_handle_block T rx permit future =
     io_bind (anonymous_actor_handle T (select_message T) (anonymous_actor_new rx) future)
       (\<lambda>inner. io_seq (drop_permit T permit) (ret inner))"

section \<open>What user code can do to a context\<close>

text \<open>
  The fields of \<open>Ctx\<close> are private to the library: a user's hooks and handlers change a context only
  through its public methods. One call of such a method, or anything else user code does to the
  world, is a step of \<open>ctx_api\<close>; a hook is well behaved if it is a sequence of such steps.
\<close>

inductive ctx_api :: "('a, 'm, 'w) tokio \<Rightarrow> 'w cworld \<Rightarrow> 'w cworld \<Rightarrow> bool" for T where
  api_world: "ctx_api T (c, w) (c, w')"
| api_stop: "ctx_api T (c, w) (stop c, w)"
| api_abort: "ctx_api T cw (abort T cw)"
| api_spawn_with: "spawn_with T child_ctx a cw = Some (x, cw') \<Longrightarrow> ctx_api T cw cw'"
| api_spawn: "spawn_child T (P :: ('a, 'm, 'w) actor_ops) a cw = Some (y, cw') \<Longrightarrow> ctx_api T cw cw'"
| api_anonymous: "anonymous T f cw = Some (z, cw') \<Longrightarrow> ctx_api T cw cw'"
| api_anonymous_task: "anonymous_task T u cw = Some (z, cw') \<Longrightarrow> ctx_api T cw cw'"
| api_anonymous_handle: "anonymous_handle T f cw = Some (h, cw') \<Longrightarrow> ctx_api T cw cw'"

definition well_behaved :: "('a, 'm, 'w) tokio \<Rightarrow> ('r, ('a, 'w) env) io \<Rightarrow> bool" where
  "well_behaved T h \<longleftrightarrow>
     (\<forall>a c w x a' c' w'. h (a, c, w) = Some (x, (a', c', w')) \<longrightarrow> (ctx_api T)\<^sup>*\<^sup>* (c, w) (c', w'))"

text \<open>
  How a context can change under user code: it keeps its channels, its semaphore and its
  subscriber, the state moves forward only and the overflow count does not shrink.
\<close>

definition ctx_evolves :: "ctx \<Rightarrow> ctx \<Rightarrow> bool" where
  "ctx_evolves c c' \<longleftrightarrow>
     address c' = address c \<and> mailbox c' = mailbox c \<and> notifier c' = notifier c \<and>
     max_anonymous_actors c' = max_anonymous_actors c \<and>
     into_future_sender c' = into_future_sender c \<and>
     state c \<le> state c' \<and>
     unat (overflow_anonymous_actors c) \<le> unat (overflow_anonymous_actors c')"

definition cworld_evolves :: "'w cworld \<Rightarrow> 'w cworld \<Rightarrow> bool" where
  "cworld_evolves cw cw' \<longleftrightarrow> ctx_evolves (fst cw) (fst cw')"

lemma ctx_evolves_refl [simp]: "ctx_evolves c c"
  by (simp add: ctx_evolves_def)

lemma cworld_evolves_frame: "frame_rel cworld_evolves"
  by unfold_locales (auto simp: cworld_evolves_def ctx_evolves_def)

interpretation evolves: frame_rel cworld_evolves
  by (rule cworld_evolves_frame)

lemma stop_evolves: "ctx_evolves c (stop c)"
  by (simp add: ctx_evolves_def stop_def)

lemma abort_evolves: "cworld_evolves cw (abort T cw)"
  by (auto simp: cworld_evolves_def ctx_evolves_def abort_def split: prod.splits)

lemma in_world_evolves: "frames cworld_evolves (in_world m)"
  by (auto simp: frames_def io_simps cworld_evolves_def ctx_evolves_def split: option.splits)

lemma acquire_anonymous_permit_evolves: "frames cworld_evolves (acquire_anonymous_permit T)"
proof -
  have count: "ctx_evolves c (c\<lparr>overflow_anonymous_actors := overflow_anonymous_actors c + 1\<rparr>)"
    if "unat (overflow_anonymous_actors c) + unat (1 :: usize) < 2 ^ 64" for c :: ctx
    using that by (simp add: ctx_evolves_def unat_word_ariths)
  show ?thesis
    by (auto simp: frames_def acquire_anonymous_permit_def io_simps cworld_evolves_def
        intro: count
        split: option.splits sum.splits prod.splits res.splits if_splits try_acquire_error.splits)
qed

lemmas evolves_rules =
  evolves.frames_rules in_world_evolves acquire_anonymous_permit_evolves

lemma spawn_with_evolves: "frames cworld_evolves (spawn_with T c a)"
  unfolding spawn_with_def by (intro evolves_rules)

lemma spawn_child_evolves: "frames cworld_evolves (spawn_child T P a)"
  unfolding spawn_child_def by (intro evolves_rules spawn_with_evolves)

lemma anonymous_evolves: "frames cworld_evolves (anonymous T f)"
  unfolding anonymous_def by (intro evolves_rules)

lemma anonymous_task_evolves: "frames cworld_evolves (anonymous_task T f)"
  unfolding anonymous_task_def by (intro evolves_rules)

lemma anonymous_handle_evolves: "frames cworld_evolves (anonymous_handle T f)"
  unfolding anonymous_handle_def by (intro evolves_rules)

lemma ctx_api_evolves: "ctx_api T cw cw' \<Longrightarrow> cworld_evolves cw cw'"
proof (induction rule: ctx_api.induct)
  case (api_world c w w')
  then show ?case by (simp add: cworld_evolves_def ctx_evolves_def)
next
  case (api_stop c w)
  then show ?case by (simp add: cworld_evolves_def stop_evolves)
qed (blast intro: abort_evolves framesD [OF spawn_with_evolves] framesD [OF spawn_child_evolves]
      framesD [OF anonymous_evolves] framesD [OF anonymous_task_evolves]
      framesD [OF anonymous_handle_evolves])+

lemma ctx_api_star_evolves: "(ctx_api T)\<^sup>*\<^sup>* cw cw' \<Longrightarrow> cworld_evolves cw cw'"
  by (induction rule: rtranclp_induct) (blast intro: evolves.refl evolves.trans ctx_api_evolves)+

lemma well_behaved_evolves:
  "well_behaved T h \<Longrightarrow> h (a, c, w) = Some (x, (a', c', w')) \<Longrightarrow> ctx_evolves c c'"
  unfolding well_behaved_def using ctx_api_star_evolves by (fastforce simp: cworld_evolves_def)

lemma well_behaved_ret: "well_behaved T (ret r)"
  by (auto simp: well_behaved_def io_simps)

lemma well_behaved_gets: "well_behaved T (gets f)"
  by (auto simp: well_behaved_def io_simps)

lemma well_behaved_panic: "well_behaved T panic"
  by (auto simp: well_behaved_def io_simps)

lemma well_behaved_bind:
  assumes "well_behaved T m" "\<And>r. well_behaved T (k r)"
  shows "well_behaved T (io_bind m k)"
  unfolding well_behaved_def
proof (intro allI impI)
  fix a c w x a' c' w'
  assume run: "io_bind m k (a, c, w) = Some (x, (a', c', w'))"
  then obtain y a1 c1 w1 where y: "m (a, c, w) = Some (y, (a1, c1, w1))"
    by (auto simp: io_simps split: option.splits)
  then have "(ctx_api T)\<^sup>*\<^sup>* (c, w) (c1, w1)" using assms(1) by (auto simp: well_behaved_def)
  moreover have "(ctx_api T)\<^sup>*\<^sup>* (c1, w1) (c', w')"
  proof (cases y)
    case Panic
    with run y show ?thesis by (simp add: io_simps)
  next
    case (Done r)
    with run y have "k r (a1, c1, w1) = Some (x, (a', c', w'))" by (simp add: io_simps)
    then show ?thesis using assms(2) by (auto simp: well_behaved_def)
  qed
  ultimately show "(ctx_api T)\<^sup>*\<^sup>* (c, w) (c', w')" by simp
qed

section \<open>Properties\<close>

text \<open>Spawning a child: a stopping or stopped actor panics and spawns nothing; a running one gives the
  child a receiver of its notifier, spawns it under its own address and returns the child's.\<close>

theorem spawn_with_result:
  "spawn_with T child_ctx a (c, w) =
    (if state c = Running then
       (case watch_subscribe T (notifier c) w of (rx, w1) \<Rightarrow>
        (case spawn T (SuperviseChild a child_ctx rx (address c)) w1 of (h, w2) \<Rightarrow>
           Some (Done (address child_ctx), (c, w2))))
     else Some (Panic, (c, w)))"
  by (simp add: spawn_with_def io_simps actor_ref_clone_def split: prod.split)

text \<open>C22: whatever user code does through a context, the actor keeps its channels, its semaphore and its
  subscriber, its state only moves forward and its overflow count does not shrink.\<close>

theorem user_code_evolves:
  assumes "well_behaved T h" "h (a, c, w) = Some (x, (a', c', w'))"
  shows "ctx_evolves c c'"
  using assms by (rule well_behaved_evolves)

text \<open>A second subscription to the end of an actor drops the sender of the first, whose awaiting caller
  is thereby answered with an error.\<close>

theorem subscribe_drops_previous:
  "subscribe_and_stop T tx2 (subscribe_and_wait T tx1 (c, w)) =
    ((stop c)\<lparr>into_future_sender := Some (Now tx2)\<rparr>,
     oneshot_drop_tx T tx1
       (case into_future_sender c of None \<Rightarrow> w | Some old \<Rightarrow> oneshot_drop_tx T (into_inner old) w))"
  by (simp add: subscribe_and_stop_def subscribe_and_wait_def set_into_future_sender_def stop_def)

text \<open>The message that tells how a future ended.\<close>

definition anonymous_report :: "join_error + 'm anonymous_actor \<Rightarrow> 'm boxed" where
  "anonymous_report res = (case res of
       Inr inner \<Rightarrow> (case anon_result inner of
           Some m \<Rightarrow> BoxEnvelope (envelope_new m)
         | None \<Rightarrow> BoxConfidential (confidential_new (InternalAnonymous CancelCancel)))
     | Inl err \<Rightarrow> BoxConfidential (confidential_new (InternalAnonymous CancelPanic)))"

lemma send_async_ignored:
  assumes "mpsc_returns T"
  shows "io_bind (send_async T r m) (\<lambda>_. k) w =
    (case mpsc_send T (ref_address r) (BoxEnvelope (envelope_new m)) w of
       None \<Rightarrow> None | Some (_, w') \<Rightarrow> k w')"
  by (simp add: io_bind_run send_async_run [OF assms] split: option.split prod.split sum.split)

lemma internal_send_async_ignored:
  "io_bind (internal_send_async T r m) (\<lambda>_. k) w =
    (case mpsc_send T (ref_address r) (BoxConfidential (confidential_new m)) w of
       None \<Rightarrow> None | Some (_, w') \<Rightarrow> k w')"
  by (simp add: internal_send_async_eq io_simps split: option.split prod.split sum.split)

lemma drop_permit_run: "drop_permit T p w = Some (Done (), case p of None \<Rightarrow> w | Some h \<Rightarrow> permit_drop T h w)"
  by (simp add: drop_permit_def io_simps split: option.split)

text \<open>The block of an anonymous task sends its supervisor exactly one message, which says how the future
  ended: its value, that it was cancelled, or that it panicked. A finished task keeps its receiver until
  the message is accepted; a panicked one has lost it before.\<close>

theorem anonymous_block_reports:
  assumes "mpsc_returns T"
    and "spawn_join_message T
      (anonymous_actor_handle T (select_message T) (anonymous_actor_new rx) f) w = Some (Done res, w1)"
  shows "anonymous_block T supervisor rx permit f w =
    (case mpsc_send T (ref_address supervisor) (anonymous_report res)
        (case res of Inr inner \<Rightarrow> w1 | Inl err \<Rightarrow> watch_drop_rx T rx w1) of
       None \<Rightarrow> None
     | Some (_, w2) \<Rightarrow> drop_permit T permit
         (case res of Inr inner \<Rightarrow> watch_drop_rx T (anon_receiver inner) w2 | Inl err \<Rightarrow> w2))"
  using assms
  by (cases res)
    (auto simp: anonymous_block_def anonymous_report_def io_seq_run io_bind_run modify_run ret_run
      send_async_ignored [OF assms(1), unfolded io_bind_run]
      internal_send_async_ignored [unfolded io_bind_run]
      split: option.splits prod.splits res.splits)

end
