(* ===== verification/Envelope.thy ===== *)
theory Envelope
  imports Context
begin

text \<open>
  How a message is delivered: the framework's own handlers of \<open>generic.rs\<close>, and \<open>SendMessage\<close> of
  \<open>envelope.rs\<close> for the four kinds of boxes, with the future (\<open>Resolve\<close>) it returns. Delivery runs
  on the actor struct, its context and the world.
\<close>

text \<open>The parts of the environment a computation needs.\<close>

definition in_ctx :: "('r, 'w cworld) io \<Rightarrow> ('r, ('a, 'w) env) io" where
  "in_ctx = zoom snd (\<lambda>cw (a, _). (a, cw))"

definition in_actor :: "('r, 'a \<times> 'w) io \<Rightarrow> ('r, ('a, 'w) env) io" where
  "in_actor = zoom (\<lambda>(a, _, w). (a, w)) (\<lambda>(a, w) (_, c, _). (a, c, w))"

lemma in_ctx_run [io_simps]:
  "in_ctx m (a, cw) = (case m cw of None \<Rightarrow> None | Some (x, cw') \<Rightarrow> Some (x, (a, cw')))"
  by (simp add: in_ctx_def zoom_run split: option.splits)

lemma in_actor_run [io_simps]:
  "in_actor m (a, c, w) = (case m (a, w) of None \<Rightarrow> None | Some (x, (a', w')) \<Rightarrow> Some (x, (a', c, w')))"
  by (auto simp add: in_actor_def zoom_run split: option.splits prod.splits)

section \<open>The framework's own messages (generic.rs)\<close>

definition shutdown_handler :: "('a, 'm, 'w) tokio \<Rightarrow> into_future_shutdown \<Rightarrow> (unit, ('a, 'w) env) io" where
  "shutdown_handler T m =
     in_ctx (if stop_now m then modify (subscribe_and_stop T (shutdown_tx m))
             else modify (subscribe_and_wait T (shutdown_tx m)))"

fun anonymous_cancelled_handler :: "anonymous_task_cancelled \<Rightarrow> (unit, ('a, 'w) env) io" where
  "anonymous_cancelled_handler CancelSuccess = ret ()"
| "anonymous_cancelled_handler CancelCancel = ret ()"
| "anonymous_cancelled_handler CancelPanic = ret ()"

fun private_handler :: "('a, 'm, 'w) tokio \<Rightarrow> internal \<Rightarrow> (unit, ('a, 'w) env) io" where
  "private_handler T (InternalShutdown m) = shutdown_handler T m"
| "private_handler T (InternalAnonymous m) = anonymous_cancelled_handler m"

section \<open>Resolve\<close>

text \<open>
  The future of a delivery: nothing left to do, or the block of an \<open>AsyncAsk\<close>, which waits for the
  answer of the actor or a message of the notifier. What the block captures is a record. A future
  that is dropped instead of awaited drops what it captured.
\<close>

record ('a, 'm, 'w) answer_future =
  af_rx :: handle
  af_supervisor :: actor_ref
  af_tx :: handle
  af_future :: "('m, 'a \<times> 'w) io"

datatype ('a, 'm, 'w) resolve = Resolve (resolve_fut: "('a, 'm, 'w) answer_future option")

definition resolve_future :: "('a, 'm, 'w) answer_future \<Rightarrow> ('a, 'm, 'w) resolve" where
  "resolve_future fut = Resolve (Some fut)"

definition resolve_ready :: "('a, 'm, 'w) resolve" where
  "resolve_ready = Resolve None"

definition on_world :: "('r, 'w) io \<Rightarrow> ('r, 'a \<times> 'w) io" where
  "on_world = zoom snd (\<lambda>w (a, _). (a, w))"

lemma on_world_run [io_simps]:
  "on_world m (a, w) = (case m w of None \<Rightarrow> None | Some (x, w') \<Rightarrow> Some (x, (a, w')))"
  by (simp add: on_world_def zoom_run split: option.splits)

definition answer_block :: "('a, 'm, 'w) tokio \<Rightarrow> ('a, 'm, 'w) answer_future \<Rightarrow> (unit, 'a \<times> 'w) io" where
  "answer_block T af =
     io_bind (select_answer T (af_rx af) (af_future af)) (\<lambda>res.
     on_world (case res of
         None \<Rightarrow>
           io_bind (internal_send_async T (af_supervisor af) (InternalAnonymous CancelCancel))
             (\<lambda>_. modify (oneshot_drop_tx T (af_tx af) \<circ> watch_drop_rx T (af_rx af)))
       | Some response \<Rightarrow>
           io_bind (call (oneshot_send T (af_tx af) response))
             (\<lambda>_. modify (watch_drop_rx T (af_rx af)))))"

definition resolve_await :: "('a, 'm, 'w) tokio \<Rightarrow> ('a, 'm, 'w) resolve \<Rightarrow> (unit, 'a \<times> 'w) io" where
  "resolve_await T r = (case resolve_fut r of Some fut \<Rightarrow> answer_block T fut | None \<Rightarrow> ret ())"

definition resolve_drop :: "('a, 'm, 'w) tokio \<Rightarrow> ('a, 'm, 'w) resolve \<Rightarrow> (unit, 'a \<times> 'w) io" where
  "resolve_drop T r = (case resolve_fut r of
       Some fut \<Rightarrow> on_world (modify (oneshot_drop_tx T (af_tx fut) \<circ> watch_drop_rx T (af_rx fut)))
     | None \<Rightarrow> ret ())"

section \<open>Delivery (SendMessage::send)\<close>

definition deliver_confidential ::
  "('a, 'm, 'w) tokio \<Rightarrow> confidential_envelope \<Rightarrow> (('a, 'm, 'w) resolve, ('a, 'w) env) io" where
  "deliver_confidential T e =
     io_bind (confidential_unwrap e) (\<lambda>(msg, _).
     io_seq (private_handler T msg) (ret resolve_ready))"

definition deliver_envelope ::
  "('a, 'm, 'w) actor_ops \<Rightarrow> 'm envelope \<Rightarrow> (('a, 'm, 'w) resolve, ('a, 'w) env) io" where
  "deliver_envelope P e =
     io_bind (envelope_unwrap e) (\<lambda>(msg, _).
     io_seq (handle_send P msg) (ret resolve_ready))"

text \<open>The block of a \<open>Response\<close> whose answer is computed by a task of its own.\<close>

definition reply_block :: "('a, 'm, 'w) tokio \<Rightarrow> handle \<Rightarrow> handle \<Rightarrow> actor_ref \<Rightarrow> (unit, 'w) io" where
  "reply_block T future tx supervisor =
     io_bind (await (join_answer T future)) (\<lambda>res. case res of
         Inr a \<Rightarrow>
           (case anon_result a of
               Some complete \<Rightarrow>
                 io_bind (call (oneshot_send T tx complete))
                   (\<lambda>_. modify (watch_drop_rx T (anon_receiver a)))
             | None \<Rightarrow>
                 io_bind (internal_send_async T supervisor (InternalAnonymous CancelCancel))
                   (\<lambda>_. modify (oneshot_drop_tx T tx \<circ> watch_drop_rx T (anon_receiver a))))
       | Inl _ \<Rightarrow>
           io_bind (internal_send_async T supervisor (InternalAnonymous CancelCancel))
             (\<lambda>_. modify (oneshot_drop_tx T tx)))"

definition deliver_response ::
  "('a, 'm, 'w) tokio \<Rightarrow> ('a, 'm, 'w) actor_ops \<Rightarrow> 'm response \<Rightarrow>
   (('a, 'm, 'w) resolve, ('a, 'w) env) io" where
  "deliver_response T P r =
     io_bind (envelope_unwrap (resp_msg r)) (\<lambda>(message, _).
     io_bind (gets (\<lambda>(_, c, _). ctx_address c)) (\<lambda>supervisor.
     io_bind (unwrap (resp_tx r)) (\<lambda>tx.
     io_bind (handle_ask P message) (\<lambda>result.
     io_seq (case result of
         Reply response \<Rightarrow>
           in_ctx (in_world (io_bind (call (oneshot_send T tx response)) (\<lambda>_. ret ())))
       | Task (AsyncHandle future) \<Rightarrow>
           io_bind (in_ctx (anonymous_task T (reply_block T future tx supervisor))) (\<lambda>_. ret ()))
     (ret resolve_ready)))))"

definition deliver_async_response ::
  "('a, 'm, 'w) tokio \<Rightarrow> ('a, 'm, 'w) actor_ops \<Rightarrow> 'm async_response \<Rightarrow>
   (('a, 'm, 'w) resolve, ('a, 'w) env) io" where
  "deliver_async_response T P r =
     io_bind (envelope_unwrap (async_msg r)) (\<lambda>(message, _).
     io_bind (gets (\<lambda>(_, c, _). c)) (\<lambda>self.
     io_bind (in_ctx (in_world (call (watch_subscribe T (notifier self))))) (\<lambda>rx.
     io_bind (in_ctx (in_world (call (watch_borrow_and_update T rx)))) (\<lambda>_.
     io_bind (unwrap (async_tx r)) (\<lambda>tx.
     io_bind (handle_async_ask P message) (\<lambda>future.
     ret (resolve_future \<lparr> af_rx = rx, af_supervisor = ctx_address self, af_tx = tx,
       af_future = future \<rparr>)))))))"

fun send_message ::
  "('a, 'm, 'w) tokio \<Rightarrow> ('a, 'm, 'w) actor_ops \<Rightarrow> 'm boxed \<Rightarrow>
   (('a, 'm, 'w) resolve, ('a, 'w) env) io" where
  "send_message T P (BoxConfidential e) = deliver_confidential T e"
| "send_message T P (BoxEnvelope e) = deliver_envelope P e"
| "send_message T P (BoxResponse r) = deliver_response T P r"
| "send_message T P (BoxAsyncResponse r) = deliver_async_response T P r"

text \<open>
  The scheduler of a box is the one its handler's trait implementation asks for; the type of the
  message decides which that is, so it is read off the message. The framework's own never block.
\<close>

definition confidential_scheduler :: "confidential_envelope \<Rightarrow> scheduler" where
  [simp]: "confidential_scheduler e = NonBlocking"

definition envelope_scheduler :: "('a, 'm, 'w) actor_ops \<Rightarrow> 'm envelope \<Rightarrow> scheduler" where
  [simp]: "envelope_scheduler P e = (case env_msg e of None \<Rightarrow> NonBlocking | Some m \<Rightarrow> scheduler_send P m)"

definition response_scheduler :: "('a, 'm, 'w) actor_ops \<Rightarrow> 'm response \<Rightarrow> scheduler" where
  [simp]: "response_scheduler P r =
     (case env_msg (resp_msg r) of None \<Rightarrow> NonBlocking | Some m \<Rightarrow> scheduler_ask P m)"

definition async_response_scheduler :: "('a, 'm, 'w) actor_ops \<Rightarrow> 'm async_response \<Rightarrow> scheduler" where
  [simp]: "async_response_scheduler P r =
     (case env_msg (async_msg r) of None \<Rightarrow> NonBlocking | Some m \<Rightarrow> scheduler_async_ask P m)"

fun box_scheduler :: "('a, 'm, 'w) actor_ops \<Rightarrow> 'm boxed \<Rightarrow> scheduler" where
  "box_scheduler P (BoxConfidential e) = confidential_scheduler e"
| "box_scheduler P (BoxEnvelope e) = envelope_scheduler P e"
| "box_scheduler P (BoxResponse r) = response_scheduler P r"
| "box_scheduler P (BoxAsyncResponse r) = async_response_scheduler P r"

end
