(* ===== verification/Executor.thy ===== *)
theory Executor
  imports Envelope
begin

text \<open>
  The executor of \<open>executor.rs\<close>: the loop of an actor with and without a supervisor, the
  processing of one message, the limit on anonymous actors, and the shutdown in its three phases.

  The state of an executor is the struct of the code (\<open>actor\<close>, its context, its receiver) and the
  world. It also has a ghost log: \<open>calls\<close> lists the callbacks of the actor in the order they were
  made, each with the life cycle state at that time, as the \<open>tracing\<close> lines beside the calls do.
\<close>

section \<open>State\<close>

datatype executor_loop = Continue | Break

datatype 'm callback = OnStart | PreRun | Recv "'m boxed" | PostRun | OnStopping | OnStopped | OnEnd

record ('a, 'm, 'w) executor =
  actor :: 'a
  ectx :: ctx
  receiver :: "handle option"
  calls :: "('m callback \<times> actor_state) list"
  world :: 'w

definition executor_new :: "'a \<Rightarrow> ctx \<Rightarrow> 'w \<Rightarrow> ('a, 'm, 'w) executor" where
  "executor_new a c w = \<lparr> actor = a, ectx = c, receiver = None, calls = [], world = w \<rparr>"

definition executor_child :: "'a \<Rightarrow> ctx \<Rightarrow> handle \<Rightarrow> 'w \<Rightarrow> ('a, 'm, 'w) executor" where
  "executor_child a c rx w = \<lparr> actor = a, ectx = c, receiver = Some rx, calls = [], world = w \<rparr>"

definition into_dead_actor :: "('a, 'm, 'w) executor \<Rightarrow> handle option \<times> 'a dead_actor" where
  "into_dead_actor E = (receiver E, \<lparr> dead_actor = actor E, dead_ctx = ectx E \<rparr>)"

text \<open>Computations on the parts of an executor.\<close>

definition on_env :: "('r, ('a, 'w) env) io \<Rightarrow> ('r, ('a, 'm, 'w) executor) io" where
  "on_env = zoom (\<lambda>E. (actor E, ectx E, world E)) (\<lambda>(a, c, w) E. E\<lparr>actor := a, ectx := c, world := w\<rparr>)"

definition on_ctx :: "('r, 'w cworld) io \<Rightarrow> ('r, ('a, 'm, 'w) executor) io" where
  "on_ctx m = on_env (in_ctx m)"

definition in_w :: "('r, 'w) io \<Rightarrow> ('r, ('a, 'm, 'w) executor) io" where
  "in_w m = on_env (in_ctx (in_world m))"

definition set_state :: "actor_state \<Rightarrow> (unit, ('a, 'm, 'w) executor) io" where
  "set_state st = modify (\<lambda>E. E\<lparr>ectx := (ectx E)\<lparr>state := st\<rparr>\<rparr>)"

definition log_call :: "'m callback \<Rightarrow> (unit, ('a, 'm, 'w) executor) io" where
  "log_call cb = modify (\<lambda>E. E\<lparr>calls := calls E @ [(cb, state (ectx E))]\<rparr>)"

definition callback :: "'m callback \<Rightarrow> ('a, 'w) hook \<Rightarrow> (unit, ('a, 'm, 'w) executor) io" where
  "callback cb hook = io_seq (log_call cb) (on_env hook)"

lemma on_env_run [io_simps]:
  "on_env m E = (case m (actor E, ectx E, world E) of
       None \<Rightarrow> None
     | Some (x, (a, c, w)) \<Rightarrow> Some (x, E\<lparr>actor := a, ectx := c, world := w\<rparr>))"
  by (auto simp add: on_env_def zoom_run split: option.splits prod.splits)

lemma in_w_run [io_simps]:
  "in_w m E = (case m (world E) of None \<Rightarrow> None | Some (x, w) \<Rightarrow> Some (x, E\<lparr>world := w\<rparr>))"
  by (simp add: in_w_def io_simps split: option.splits)

lemma on_ctx_run [io_simps]:
  "on_ctx m E = (case m (ectx E, world E) of
       None \<Rightarrow> None
     | Some (x, (c, w)) \<Rightarrow> Some (x, E\<lparr>ectx := c, world := w\<rparr>))"
  by (simp add: on_ctx_def io_simps split: option.splits prod.splits)

section \<open>Messages\<close>

text \<open>
  One message. A handler that asks for the blocking scheduler is run in \<open>spawn_blocking\<close>: there the
  delivery is called, and the future it returns is dropped; a panic in it is unwrapped.
\<close>

definition deliver_blocking ::
  "('a, 'm, 'w) tokio \<Rightarrow> ('a, 'm, 'w) actor_ops \<Rightarrow> 'm boxed \<Rightarrow> (unit, ('a, 'm, 'w) executor) io" where
  "deliver_blocking T P msg =
     io_bind (on_env (spawn_blocking T
       (io_bind (send_message T P msg) (\<lambda>res. in_actor (resolve_drop T res)))))
       (\<lambda>joined. case joined of Inl _ \<Rightarrow> panic | Inr _ \<Rightarrow> ret ())"

definition deliver_nonblocking ::
  "('a, 'm, 'w) tokio \<Rightarrow> ('a, 'm, 'w) actor_ops \<Rightarrow> 'm boxed \<Rightarrow> (unit, ('a, 'm, 'w) executor) io" where
  "deliver_nonblocking T P msg =
     on_env (io_bind (send_message T P msg) (\<lambda>res. in_actor (resolve_await T res)))"

definition process_message ::
  "('a, 'm, 'w) tokio \<Rightarrow> ('a, 'm, 'w) actor_ops \<Rightarrow> 'm boxed \<Rightarrow> (executor_loop, ('a, 'm, 'w) executor) io" where
  "process_message T P msg =
     io_seq (callback PreRun (pre_run P))
     (io_seq (log_call (Recv msg))
     (io_seq (case box_scheduler P msg of
         Blocking \<Rightarrow> deliver_blocking T P msg
       | NonBlocking \<Rightarrow> deliver_nonblocking T P msg)
     (io_seq (callback PostRun (post_run P))
     (gets (\<lambda>E. if state (ectx E) = Running then Continue else Break)))))"

section \<open>The limit on anonymous actors\<close>

text \<open>\<open>let _ = semaphore.acquire_many(n as u32).await\<close>: the permits are dropped at once.\<close>

definition acquire_and_drop ::
  "('a, 'm, 'w) tokio \<Rightarrow> handle \<Rightarrow> usize \<Rightarrow> (unit, ('a, 'm, 'w) executor) io" where
  "acquire_and_drop T sem n = in_w (io_bind (await (sem_acquire_many T sem (as_u32 n)))
     (\<lambda>res. case res of Inl _ \<Rightarrow> ret () | Inr permit \<Rightarrow> modify (permit_drop T permit)))"

definition set_overflow :: "usize \<Rightarrow> (unit, ('a, 'm, 'w) executor) io" where
  "set_overflow n = modify (\<lambda>E. E\<lparr>ectx := (ectx E)\<lparr>overflow_anonymous_actors := n\<rparr>\<rparr>)"

definition check_anonymous_actors ::
  "('a, 'm, 'w) tokio \<Rightarrow> ('a, 'm, 'w) actor_ops \<Rightarrow> (unit, ('a, 'm, 'w) executor) io" where
  "check_anonymous_actors T P =
     io_bind (gets (\<lambda>E. max_anonymous_actors (ectx E))) (\<lambda>sem.
     io_bind (gets (\<lambda>E. sem_available T sem (world E))) (\<lambda>avaliable_permits.
     io_bind (gets (\<lambda>E. overflow_anonymous_actors (ectx E))) (\<lambda>overflow.
       if avaliable_permits = 0 \<and> overflow > 0 then
         (if overflow < impl_max_anonymous_actors P then
            io_seq (acquire_and_drop T sem overflow) (set_overflow 0)
          else
            io_seq (acquire_and_drop T sem (impl_max_anonymous_actors P))
              (io_bind (usize_sub overflow (impl_max_anonymous_actors P)) set_overflow))
       else if overflow > 0 then
         io_bind (usize_sub (impl_max_anonymous_actors P) avaliable_permits) (\<lambda>running_tasks.
           if overflow < running_tasks then
             io_seq (acquire_and_drop T sem overflow) (set_overflow 0)
           else
             io_seq (acquire_and_drop T sem running_tasks)
               (io_bind (usize_sub overflow running_tasks) set_overflow))
       else ret ())))"

section \<open>Shutdown\<close>

text \<open>
  \<open>stopping\<close>: without children the mailbox is closed at once. With children they are told to shut
  down, and the actor goes on with its messages until no child has a receiver any more; after
  eleven idle seconds it panics. \<open>stopping_round\<close> is one round of its loop, on the executor and
  the counter.
\<close>

definition stopping_round ::
  "('a, 'm, 'w) tokio \<Rightarrow> ('a, 'm, 'w) actor_ops \<Rightarrow> (unit flow, ('a, 'm, 'w) executor \<times> nat) io" where
  "stopping_round T P =
     io_bind (gets snd) (\<lambda>timeout_counter.
     io_bind (zoom fst (\<lambda>E (_, n). (E, n))
       (io_bind (gets (mailbox \<circ> ectx)) (\<lambda>mb. in_w (await (select_stopping T mb 1))))) (\<lambda>event.
     io_seq (case event of
         StopRecv (Some msg) \<Rightarrow>
           zoom fst (\<lambda>E (_, n). (E, n)) (io_bind (process_message T P msg) (\<lambda>_. ret ()))
       | StopRecv None \<Rightarrow> ret ()
       | StopSlept \<Rightarrow>
           (if timeout_counter = 10 then panic else modify (\<lambda>(E, n). (E, n + 1))))
     (io_bind (gets (\<lambda>(E, _). watch_is_closed T (notifier (ectx E)) (world E))) (\<lambda>closed.
        if closed then
          io_seq (modify (\<lambda>(E, n). (E\<lparr>world := mpsc_close T (mailbox (ectx E)) (world E)\<rparr>, n)))
            (ret (Leave ()))
        else ret Again))))"

definition stopping ::
  "('a, 'm, 'w) tokio \<Rightarrow> ('a, 'm, 'w) actor_ops \<Rightarrow> (unit, ('a, 'm, 'w) executor) io" where
  "stopping T P =
     io_bind (gets (\<lambda>E. watch_is_closed T (notifier (ectx E)) (world E))) (\<lambda>closed.
       if closed then modify (\<lambda>E. E\<lparr>world := mpsc_close T (mailbox (ectx E)) (world E)\<rparr>)
       else
         io_seq (modify (\<lambda>E. E\<lparr>world := watch_send T (notifier (ectx E)) (Some Shutdown) (world E)\<rparr>))
           (\<lambda>E. case io_loop (stopping_round T P) (E, 0) of
                None \<Rightarrow> None | Some (x, (E', _)) \<Rightarrow> Some (x, E')))"

text \<open>\<open>stop\<close> of the executor: process what is left in the mailbox.\<close>

definition drain_round ::
  "('a, 'm, 'w) tokio \<Rightarrow> ('a, 'm, 'w) actor_ops \<Rightarrow> (unit flow, ('a, 'm, 'w) executor) io" where
  "drain_round T P =
     io_bind (gets (mailbox \<circ> ectx)) (\<lambda>mb.
     io_bind (in_w (call (mpsc_try_recv T mb))) (\<lambda>next. case next of
         Some msg \<Rightarrow> io_bind (process_message T P msg) (\<lambda>_. ret Again)
       | None \<Rightarrow> ret (Leave ())))"

definition executor_stop ::
  "('a, 'm, 'w) tokio \<Rightarrow> ('a, 'm, 'w) actor_ops \<Rightarrow> (unit, ('a, 'm, 'w) executor) io" where
  "executor_stop T P =
     io_bind (gets (\<lambda>E. watch_is_closed T (notifier (ectx E)) (world E))) (\<lambda>closed.
     io_seq (io_assert closed) (io_loop (drain_round T P)))"

definition shutdown ::
  "('a, 'm, 'w) tokio \<Rightarrow> ('a, 'm, 'w) actor_ops \<Rightarrow> (unit, ('a, 'm, 'w) executor) io" where
  "shutdown T P =
     io_seq (set_state Stopping)
     (io_seq (callback OnStopping (on_stopping P))
     (io_seq (stopping T P)
     (io_seq (set_state Stopped)
     (io_seq (callback OnStopped (on_stopped P))
     (io_seq (executor_stop T P)
     (callback OnEnd (on_end P)))))))"

section \<open>The loops of an actor\<close>

fun loop_flow :: "executor_loop \<Rightarrow> unit flow" where
  "loop_flow Continue = Again"
| "loop_flow Break = Leave ()"

text \<open>Handing the struct to whoever awaits the actor: \<open>into_future_sender.take()\<close> and its send.\<close>

definition answer_awaiter :: "('a, 'm, 'w) tokio \<Rightarrow> (unit, ('a, 'm, 'w) executor) io" where
  "answer_awaiter T =
     io_bind (gets (into_future_sender \<circ> ectx)) (\<lambda>tx.
     io_seq (modify (\<lambda>E. E\<lparr>ectx := (ectx E)\<lparr>into_future_sender := None\<rparr>\<rparr>))
     (case tx of
        None \<Rightarrow> ret ()
      | Some s \<Rightarrow> io_bind (gets actor) (\<lambda>a.
          io_bind (in_w (call (oneshot_send_actor T (into_inner s) a))) (\<lambda>_. ret ()))))"

definition run_round ::
  "('a, 'm, 'w) tokio \<Rightarrow> ('a, 'm, 'w) actor_ops \<Rightarrow> (unit flow, ('a, 'm, 'w) executor) io" where
  "run_round T P =
     io_bind (gets (mailbox \<circ> ectx)) (\<lambda>mb.
     io_bind (in_w (await (mpsc_recv T mb))) (\<lambda>next. case next of
         Some msg \<Rightarrow>
           io_seq (check_anonymous_actors T P)
           (io_bind (process_message T P msg) (\<lambda>event. ret (loop_flow event)))
       | None \<Rightarrow> ret (Leave ())))"

definition run_actor ::
  "('a, 'm, 'w) tokio \<Rightarrow> ('a, 'm, 'w) actor_ops \<Rightarrow> (unit, ('a, 'm, 'w) executor) io" where
  "run_actor T P =
     io_seq (callback OnStart (on_start P))
     (io_seq (io_loop (run_round T P))
     (io_seq (shutdown T P)
     (answer_awaiter T)))"

definition handle_supervised_message ::
  "('a, 'm, 'w) tokio \<Rightarrow> ('a, 'm, 'w) actor_ops \<Rightarrow> (executor_loop, ('a, 'm, 'w) executor) io" where
  "handle_supervised_message T P =
     io_bind (gets receiver) (\<lambda>rcv.
     io_bind (unwrap rcv) (\<lambda>rx.
     io_bind (gets (mailbox \<circ> ectx)) (\<lambda>mb.
     io_bind (in_w (await (select_supervised T rx mb))) (\<lambda>event. case event of
         WatchChanged \<Rightarrow>
           io_bind (gets (\<lambda>E. watch_borrow T rx (world E))) (\<lambda>msg. case msg of
               Some Shutdown \<Rightarrow> ret Break
             | None \<Rightarrow> ret Continue)
       | WatchClosed \<Rightarrow> panic
       | MailboxRecv (Some message) \<Rightarrow> process_message T P message
       | MailboxRecv None \<Rightarrow> ret Break))))"

definition supervised_round ::
  "('a, 'm, 'w) tokio \<Rightarrow> ('a, 'm, 'w) actor_ops \<Rightarrow> (unit flow, ('a, 'm, 'w) executor) io" where
  "supervised_round T P =
     io_seq (check_anonymous_actors T P)
     (io_bind (handle_supervised_message T P) (\<lambda>event. ret (loop_flow event)))"

definition run_supervised_actor ::
  "('a, 'm, 'w) tokio \<Rightarrow> ('a, 'm, 'w) actor_ops \<Rightarrow> (unit, ('a, 'm, 'w) executor) io" where
  "run_supervised_actor T P =
     io_seq (callback OnStart (on_start P))
     (io_seq (io_loop (supervised_round T P))
     (shutdown T P))"

end
