(* ===== verification/Spawned.thy ===== *)
theory Spawned
  imports Executor
begin

text \<open>
  What runs an executor: the block that \<open>Ctx::spawn_with\<close> spawns around a child and that reports its
  death to the parent, the three bridge actors of \<open>executor.rs\<close> that carry messages from a typed
  channel to the mailbox of their parent, and \<open>RawExecutor\<close>, which a listener drives by hand.
\<close>

section \<open>A supervised child (Ctx::spawn_with)\<close>

text \<open>
  The inner task runs the child to its end and returns its executor, of which the actor, the context
  and the watch receiver are used.
\<close>

definition child_task ::
  "('a, 'm, 'w) tokio \<Rightarrow> ('a, 'm, 'w) actor_ops \<Rightarrow> 'a \<Rightarrow> ctx \<Rightarrow> handle \<Rightarrow> ('a \<times> ctx \<times> handle option, 'w) io" where
  "child_task T P a c rx = (\<lambda>w. case run_supervised_actor T P (executor_child a c rx w) of
       None \<Rightarrow> None
     | Some (Panic, E) \<Rightarrow> Some (Panic, world E)
     | Some (Done _, E) \<Rightarrow> Some (Done (actor E, ectx E, receiver E), world E))"

text \<open>
  \<open>dead_msg\<close> is the parent's message for the result of a child, \<open>DeadActorResult<C>\<close>. The receiver
  of a child that ended lives until the parent has the message; the send of it must not fail.
\<close>

definition drop_receiver :: "('a, 'm, 'w) tokio \<Rightarrow> handle option \<Rightarrow> (unit, 'w) io" where
  "drop_receiver T rcv = (case rcv of None \<Rightarrow> ret () | Some rx \<Rightarrow> modify (watch_drop_rx T rx))"

definition report_dead_actor ::
  "('a, 'm, 'w) tokio \<Rightarrow> ('a dead_actor_result \<Rightarrow> 'm) \<Rightarrow> actor_ref \<Rightarrow> 'a \<Rightarrow> ctx \<Rightarrow> handle option \<Rightarrow> (unit, 'w) io" where
  "report_dead_actor T dead_msg supervisor a c rcv =
     io_bind (send_async T supervisor (dead_msg (Inr \<lparr> dead_actor = a, dead_ctx = c \<rparr>))) (\<lambda>res.
       case res of Inl _ \<Rightarrow> panic | Inr _ \<Rightarrow> drop_receiver T rcv)"

definition child_block ::
  "('a, 'm, 'w) tokio \<Rightarrow> ('a, 'm, 'w) actor_ops \<Rightarrow> ('a dead_actor_result \<Rightarrow> 'm) \<Rightarrow>
   'a \<Rightarrow> ctx \<Rightarrow> handle \<Rightarrow> actor_ref \<Rightarrow> (unit, 'w) io" where
  "child_block T P dead_msg a c rx supervisor =
     io_bind (spawn_join_child T (child_task T P a c rx)) (\<lambda>res. case res of
         Inr (a', c', rcv) \<Rightarrow>
           (case into_future_sender c' of
              Some sender \<Rightarrow>
                io_bind (call (oneshot_send_actor T (into_inner sender) a')) (\<lambda>sent. case sent of
                    Inl back \<Rightarrow>
                      report_dead_actor T dead_msg supervisor back (c'\<lparr>into_future_sender := None\<rparr>) rcv
                  | Inr _ \<Rightarrow> drop_receiver T rcv)
            | None \<Rightarrow> report_dead_actor T dead_msg supervisor a' c' rcv)
       | Inl err \<Rightarrow>
           io_seq (modify (watch_drop_rx T rx))
           (if err_is_cancelled T err then
              io_bind (send_async T supervisor (dead_msg (dead_actor_cancelled err))) (\<lambda>_. ret ())
            else if err_is_panic T err then
              io_bind (send_async T supervisor (dead_msg (dead_actor_panic err))) (\<lambda>_. ret ())
            else panic))"

section \<open>Bridges (child_with_custom_rx)\<close>

text \<open>
  A bridge is a child whose actor is \<open>Noop\<close>. Each of its rounds waits for its supervisor or for the
  next item of the typed channel \<open>rx\<close>, whose type is that of one address of a \<open>CtxBuilder\<close>:
  \<open>select_rx\<close> is that \<open>select!\<close>, a parameter like the rest of Tokio, and \<open>forward_item\<close> is the body
  of its second branch. \<open>Noop\<close> implements no handler, so no message can be addressed to it.
\<close>

datatype 'x bridge_event = SupervisorChanged | SupervisorClosed | BridgeRecv "'x option"

definition noop_ops :: "('a, 'm, 'w) actor_ops" where
  "noop_ops = with_handlers noop (\<lambda>_. panic) (\<lambda>_. panic) (\<lambda>_. panic)"

definition bridge_round ::
  "('a, 'm, 'w) tokio \<Rightarrow> (handle \<Rightarrow> ('x bridge_event, 'w) fut) \<Rightarrow> ('x \<Rightarrow> (executor_loop, 'w) io) \<Rightarrow>
   (unit flow, ('a, 'm, 'w) executor) io" where
  "bridge_round T select_rx forward_item =
     io_bind (gets receiver) (\<lambda>rcv.
     io_bind (unwrap rcv) (\<lambda>reciever.
     io_bind (in_w (await (select_rx reciever))) (\<lambda>branch.
     io_bind (case branch of
         SupervisorChanged \<Rightarrow>
           io_bind (gets (\<lambda>E. watch_borrow T reciever (world E))) (\<lambda>msg. case msg of
               Some Shutdown \<Rightarrow> ret Break
             | None \<Rightarrow> ret Continue)
       | SupervisorClosed \<Rightarrow> panic
       | BridgeRecv (Some item) \<Rightarrow> in_w (forward_item item)
       | BridgeRecv None \<Rightarrow> ret Break) (\<lambda>event. ret (loop_flow event)))))"

text \<open>The executor is dropped at the end, with the receiver in it.\<close>

definition bridge_actor ::
  "('a, 'm, 'w) tokio \<Rightarrow> (handle \<Rightarrow> ('x bridge_event, 'w) fut) \<Rightarrow> ('x \<Rightarrow> (executor_loop, 'w) io) \<Rightarrow>
   (unit, ('a, 'm, 'w) executor) io" where
  "bridge_actor T select_rx forward_item =
     io_seq (callback OnStart (on_start (noop_ops :: ('a, 'm, 'w) actor_ops)))
     (io_seq (io_loop (bridge_round T select_rx forward_item))
     (io_seq (shutdown T noop_ops)
     (io_bind (gets receiver) (\<lambda>rcv. in_w (drop_receiver T rcv)))))"

definition forward_send :: "('a, 'm, 'w) tokio \<Rightarrow> actor_ref \<Rightarrow> 'm \<Rightarrow> (executor_loop, 'w) io" where
  "forward_send T parent message =
     io_bind (send_async T parent message) (\<lambda>res. ret (case res of
         Inl (Closed _) \<Rightarrow> Break
       | Inl (Full _) \<Rightarrow> Continue
       | Inl Lost \<Rightarrow> Continue
       | Inr _ \<Rightarrow> Continue))"

text \<open>
  The asking bridges get the message with the sender of the answer; \<open>answer\<close> is that sender's
  \<open>send\<close>, whose result is ignored.
\<close>

definition forward_ask ::
  "('a, 'm, 'w) tokio \<Rightarrow> (handle \<Rightarrow> 'm ask_error + 'm \<Rightarrow> 'w \<Rightarrow> 'w) \<Rightarrow> actor_ref \<Rightarrow> 'm \<times> handle \<Rightarrow>
   (executor_loop, 'w) io" where
  "forward_ask T answer parent item =
     io_bind (ask T parent (fst item)) (\<lambda>res.
     io_seq (modify (answer (snd item) res)) (ret Continue))"

definition forward_async_ask ::
  "('a, 'm, 'w) tokio \<Rightarrow> (handle \<Rightarrow> 'm ask_error + 'm \<Rightarrow> 'w \<Rightarrow> 'w) \<Rightarrow> actor_ref \<Rightarrow> 'm \<times> handle \<Rightarrow>
   (executor_loop, 'w) io" where
  "forward_async_ask T answer parent item =
     io_bind (async_ask T parent (fst item)) (\<lambda>res.
     io_seq (modify (answer (snd item) res)) (ret Continue))"

definition child_with_custom_handle_rx ::
  "('a, 'm, 'w) tokio \<Rightarrow> (handle \<Rightarrow> ('m bridge_event, 'w) fut) \<Rightarrow> actor_ref \<Rightarrow> (unit, ('a, 'm, 'w) executor) io" where
  "child_with_custom_handle_rx T select_rx parent = bridge_actor T select_rx (forward_send T parent)"

definition child_with_custom_ask_rx ::
  "('a, 'm, 'w) tokio \<Rightarrow> (handle \<Rightarrow> (('m \<times> handle) bridge_event, 'w) fut) \<Rightarrow>
   (handle \<Rightarrow> 'm ask_error + 'm \<Rightarrow> 'w \<Rightarrow> 'w) \<Rightarrow> actor_ref \<Rightarrow> (unit, ('a, 'm, 'w) executor) io" where
  "child_with_custom_ask_rx T select_rx answer parent =
     bridge_actor T select_rx (forward_ask T answer parent)"

definition child_with_custom_async_ask_rx ::
  "('a, 'm, 'w) tokio \<Rightarrow> (handle \<Rightarrow> (('m \<times> handle) bridge_event, 'w) fut) \<Rightarrow>
   (handle \<Rightarrow> 'm ask_error + 'm \<Rightarrow> 'w \<Rightarrow> 'w) \<Rightarrow> actor_ref \<Rightarrow> (unit, ('a, 'm, 'w) executor) io" where
  "child_with_custom_async_ask_rx T select_rx answer parent =
     bridge_actor T select_rx (forward_async_ask T answer parent)"

section \<open>RawExecutor\<close>

text \<open>
  An optional executor, apart from the world it runs in. \<open>in_executor\<close> runs a computation on it;
  without one it is the \<open>unreachable!()\<close> of the code.
\<close>

type_synonym ('a, 'm) raw_executor = "('a, 'm, unit) executor option"

definition at_world :: "'v \<Rightarrow> ('a, 'm, 'w) executor \<Rightarrow> ('a, 'm, 'v) executor" where
  "at_world v E = \<lparr> actor = actor E, ectx = ectx E, receiver = receiver E, calls = calls E, world = v \<rparr>"

definition into_raw :: "('a, 'm, unit) executor \<Rightarrow> ('a, 'm) raw_executor" where
  "into_raw E = Some E"

definition in_executor ::
  "('r, ('a, 'm, 'w) executor) io \<Rightarrow> ('r, ('a, 'm) raw_executor \<times> 'w) io" where
  "in_executor m = (\<lambda>(raw, w). case raw of
       None \<Rightarrow> Some (Panic, (None, w))
     | Some E \<Rightarrow> (case m (at_world w E) of
           None \<Rightarrow> None
         | Some (x, E') \<Rightarrow> Some (x, (Some (at_world () E'), world E'))))"

definition raw_start :: "('a, 'm, 'w) actor_ops \<Rightarrow> (unit, ('a, 'm) raw_executor \<times> 'w) io" where
  "raw_start P = in_executor (callback OnStart (on_start P))"

definition raw_shutdown ::
  "('a, 'm, 'w) tokio \<Rightarrow> ('a, 'm, 'w) actor_ops \<Rightarrow> (unit, ('a, 'm) raw_executor \<times> 'w) io" where
  "raw_shutdown T P =
     io_seq (in_executor (io_seq (shutdown T P) (answer_awaiter T))) (modify (\<lambda>(_, w). (None, w)))"

definition raw_ask :: "('a, 'm, 'w) actor_ops \<Rightarrow> 'm \<Rightarrow> ('m, ('a, 'm) raw_executor \<times> 'w) io" where
  "raw_ask P message = in_executor (io_bind (on_env (handle_ask P message)) (\<lambda>res. case res of
       Reply reply \<Rightarrow> ret reply
     | Task _ \<Rightarrow> panic))"

definition with_ctx :: "(ctx \<Rightarrow> ('r, 'w) io) \<Rightarrow> ('r, ('a, 'm) raw_executor \<times> 'w) io" where
  "with_ctx f = in_executor (io_bind (gets ectx) (\<lambda>c. in_w (f c)))"

lemma in_executor_Some:
  "in_executor m (Some E, w) = (case m (at_world w E) of None \<Rightarrow> None
     | Some (x, E') \<Rightarrow> Some (x, (Some (at_world () E'), world E')))"
  by (simp add: in_executor_def)

end
