(* ===== verification/Tuples.thy ===== *)
theory Tuples
  imports Prelude
begin

text \<open>
  The nested tuples of \<open>single/tuple.rs\<close>. A builder pushes each address in front of the tuple of the
  earlier ones, \<open>(T3, (T2, (T1, ())))\<close>, here a list; \<open>flatten\<close> is the trait \<open>Tuple\<close>, one equation
  for each of its implementations. There is none for more than ten addresses: such a builder does
  not compile, \<open>None\<close> here.
\<close>

fun flatten :: "'x list \<Rightarrow> 'x list option" where
  "flatten [] = Some []"
| "flatten [a] = Some [a]"
| "flatten [a, b] = Some [b, a]"
| "flatten [a, b, c] = Some [c, b, a]"
| "flatten [a, b, c, d] = Some [d, c, b, a]"
| "flatten [a, b, c, d, e] = Some [e, d, c, b, a]"
| "flatten [a, b, c, d, e, f] = Some [f, e, d, c, b, a]"
| "flatten [a, b, c, d, e, f, g] = Some [g, f, e, d, c, b, a]"
| "flatten [a, b, c, d, e, f, g, h] = Some [h, g, f, e, d, c, b, a]"
| "flatten [a, b, c, d, e, f, g, h, i] = Some [i, h, g, f, e, d, c, b, a]"
| "flatten [a, b, c, d, e, f, g, h, i, j] = Some [j, i, h, g, f, e, d, c, b, a]"
| "flatten (a # b # c # d # e # f # g # h # i # j # k # rest) = None"

lemma flatten_eq_rev: "flatten xs = (if length xs \<le> 10 then Some (rev xs) else None)"
  by (cases xs rule: flatten.cases) simp_all

text \<open>
  The trait \<open>IntoNestedTuple\<close> is implemented for \<open>()\<close> and for pairs of implementing types; a value
  of such a type is a tree of units.
\<close>

datatype unit_tree = UnitLeaf | UnitPair unit_tree unit_tree

fun into_tuple_list :: "unit_tree \<Rightarrow> 'x list \<Rightarrow> 'x list" where
  "into_tuple_list UnitLeaf list = list"
| "into_tuple_list (UnitPair h t) list = into_tuple_list h (into_tuple_list t list)"

lemma into_tuple_list_id: "into_tuple_list t list = list"
  by (induction t arbitrary: list) simp_all

end
