(* ===== verification/Single.thy ===== *)
theory Single
  imports Spawned Tuples
begin

text \<open>
  Typed addresses (\<open>single/address.rs\<close>) and their builder (\<open>single/context.rs\<close>). A typed address is
  the sender of a channel of plain messages, or of messages with the sender of their answer. These
  channels are Tokio's, parameters in the record \<open>typed\<close> over the items \<open>'x\<close> they carry.
\<close>

datatype 'x send_timeout_error = SendTimeout 'x | SendTimeoutClosed 'x

record ('x, 'w) typed =
  typed_channel :: "usize \<Rightarrow> 'w \<Rightarrow> handle \<times> 'w"
  typed_try_send :: "handle \<Rightarrow> 'x \<Rightarrow> 'w \<Rightarrow> ('x try_send_error + unit) \<times> 'w"
  typed_send :: "handle \<Rightarrow> 'x \<Rightarrow> ('x + unit, 'w) fut"
  typed_send_timeout :: "handle \<Rightarrow> 'x \<Rightarrow> nat \<Rightarrow> ('x send_timeout_error + unit, 'w) fut"

definition typed_returns :: "('x, 'w) typed \<Rightarrow> bool" where
  "typed_returns C \<longleftrightarrow>
     (\<forall>h x w y w'. typed_try_send C h x w = (Inl (TrySendFull y), w') \<longrightarrow> y = x) \<and>
     (\<forall>h x w y w'. typed_try_send C h x w = (Inl (TrySendClosed y), w') \<longrightarrow> y = x) \<and>
     (\<forall>h x w y w'. typed_send C h x w = Some (Inl y, w') \<longrightarrow> y = x) \<and>
     (\<forall>h x d w y w'. typed_send_timeout C h x d w = Some (Inl (SendTimeout y), w') \<longrightarrow> y = x) \<and>
     (\<forall>h x d w y w'. typed_send_timeout C h x d w = Some (Inl (SendTimeoutClosed y), w') \<longrightarrow> y = x)"

lemma typed_returnsD:
  assumes "typed_returns C"
  shows "typed_try_send C h x w = (Inl (TrySendFull y), w') \<Longrightarrow> y = x"
    and "typed_try_send C h x w = (Inl (TrySendClosed y), w') \<Longrightarrow> y = x"
    and "typed_send C h x w = Some (Inl y, w') \<Longrightarrow> y = x"
    and "typed_send_timeout C h x d w = Some (Inl (SendTimeout y), w') \<Longrightarrow> y = x"
    and "typed_send_timeout C h x d w = Some (Inl (SendTimeoutClosed y), w') \<Longrightarrow> y = x"
  using assms unfolding typed_returns_def by metis+

section \<open>Addresses (single/address.rs)\<close>

datatype actor_send_ref = ActorSendRef (send_inner: handle)

datatype actor_ask_ref = ActorAskRef (ask_inner: handle)

datatype actor_async_ask_ref = ActorAsyncAskRef (async_ask_inner: handle)

definition actor_send_ref_new :: "handle \<Rightarrow> actor_send_ref" where
  [simp]: "actor_send_ref_new h = ActorSendRef h"

definition actor_ask_ref_new :: "handle \<Rightarrow> actor_ask_ref" where
  [simp]: "actor_ask_ref_new h = ActorAskRef h"

definition actor_async_ask_ref_new :: "handle \<Rightarrow> actor_async_ask_ref" where
  [simp]: "actor_async_ask_ref_new h = ActorAsyncAskRef h"

definition typed_ref_try_send ::
  "('m, 'w) typed \<Rightarrow> actor_send_ref \<Rightarrow> 'm \<Rightarrow> ('m send_error + unit, 'w) io" where
  "typed_ref_try_send C r message =
     io_bind (call (typed_try_send C (send_inner r) message)) (\<lambda>res. case res of
         Inl (TrySendFull err) \<Rightarrow> ret (Inl (Full err))
       | Inl (TrySendClosed err) \<Rightarrow> ret (Inl (Closed err))
       | Inr _ \<Rightarrow> ret (Inr ()))"

definition typed_ref_send ::
  "('m, 'w) typed \<Rightarrow> actor_send_ref \<Rightarrow> 'm \<Rightarrow> ('m send_error + unit, 'w) io" where
  "typed_ref_send C r message =
     io_bind (await (typed_send C (send_inner r) message)) (\<lambda>res. case res of
         Inl err \<Rightarrow> ret (Inl (Closed err))
       | Inr _ \<Rightarrow> ret (Inr ()))"

definition typed_ref_send_timeout ::
  "('m, 'w) typed \<Rightarrow> nat \<Rightarrow> actor_send_ref \<Rightarrow> 'm \<Rightarrow> ('m send_error + unit, 'w) io" where
  "typed_ref_send_timeout C timeout r message =
     io_bind (await (typed_send_timeout C (send_inner r) message timeout)) (\<lambda>res. case res of
         Inl (SendTimeout err) \<Rightarrow> ret (Inl (Full err))
       | Inl (SendTimeoutClosed err) \<Rightarrow> ret (Inl (Closed err))
       | Inr _ \<Rightarrow> ret (Inr ()))"

text \<open>
  The asking addresses send the message with a fresh answer channel and wait; the answer is itself a
  result of the bridge, and \<open>response?\<close> hands its error on. \<open>answers\<close> are the two operations of that
  channel.
\<close>

record ('m, 'w) answers =
  answer_channel :: "'w \<Rightarrow> handle \<times> 'w"
  answer_recv :: "handle \<Rightarrow> (unit + ('m ask_error + 'm), 'w) fut"

definition typed_ref_ask ::
  "('m \<times> handle, 'w) typed \<Rightarrow> ('m, 'w) answers \<Rightarrow> actor_ask_ref \<Rightarrow> 'm \<Rightarrow> ('m ask_error + 'm, 'w) io" where
  "typed_ref_ask C A r message =
     io_bind (call (answer_channel A)) (\<lambda>tx.
     io_bind (await (typed_send C (ask_inner r) (message, tx))) (\<lambda>res. case res of
         Inl err \<Rightarrow> ret (Inl (AskClosed (fst err)))
       | Inr _ \<Rightarrow> io_bind (await (answer_recv A tx)) (\<lambda>answer. case answer of
             Inr (Inr response) \<Rightarrow> ret (Inr response)
           | Inr (Inl err) \<Rightarrow> ret (Inl err)
           | Inl _ \<Rightarrow> ret (Inl AskDropped))))"

definition typed_ref_ask_async ::
  "('m \<times> handle, 'w) typed \<Rightarrow> ('m, 'w) answers \<Rightarrow> actor_async_ask_ref \<Rightarrow> 'm \<Rightarrow> ('m ask_error + 'm, 'w) io" where
  "typed_ref_ask_async C A r message =
     io_bind (call (answer_channel A)) (\<lambda>tx.
     io_bind (await (typed_send C (async_ask_inner r) (message, tx))) (\<lambda>res. case res of
         Inl err \<Rightarrow> ret (Inl (AskClosed (fst err)))
       | Inr _ \<Rightarrow> io_bind (await (answer_recv A tx)) (\<lambda>answer. case answer of
             Inr (Inr response) \<Rightarrow> ret (Inr response)
           | Inr (Inl err) \<Rightarrow> ret (Inl err)
           | Inl _ \<Rightarrow> ret (Inl AskDropped))))"

text \<open>The typed sends keep the contract of the sends of \<open>ActorRef\<close>.\<close>

interpretation typed_try_send: returning_sender typed_returns typed_ref_try_send
  by unfold_locales
    (auto simp: typed_ref_try_send_def io_simps dest: typed_returnsD
      split: option.splits prod.splits sum.splits res.splits try_send_error.splits)

interpretation typed_send: returning_sender typed_returns typed_ref_send
  by unfold_locales
    (auto simp: typed_ref_send_def io_simps dest: typed_returnsD
      split: option.splits prod.splits sum.splits res.splits)

interpretation typed_send_timeout: returning_sender typed_returns "\<lambda>C. typed_ref_send_timeout C d" for d
  by unfold_locales
    (auto simp: typed_ref_send_timeout_def io_simps dest: typed_returnsD
      split: option.splits prod.splits sum.splits res.splits send_timeout_error.splits)

section \<open>The builder (single/context.rs)\<close>

text \<open>The three kinds of addresses a builder can be asked for, and the addresses themselves.\<close>

datatype address_kind = Sender | Asker | AskAsyncer

datatype typed_ref =
    SendRef actor_send_ref
  | AskRef actor_ask_ref
  | AsyncAskRef actor_async_ask_ref

record 'a ctx_builder =
  b_actor :: 'a
  b_context :: ctx
  b_senders :: "typed_ref list"

definition ctx_builder_new ::
  "('a, 'm, 'w) tokio \<Rightarrow> ('a, 'w, 'x) actor_impl_scheme \<Rightarrow> 'a \<Rightarrow> ('a ctx_builder, 'w) io" where
  "ctx_builder_new T P a =
     io_bind (ctx_new T P) (\<lambda>c. ret \<lparr> b_actor = a, b_context = c, b_senders = [] \<rparr>)"

text \<open>A call through \<open>self.context\<close>, which \<open>spawn_anonymous_rx\<close> borrows and cannot change.\<close>

definition on_context :: "ctx \<Rightarrow> ('r, 'w cworld) io \<Rightarrow> ('r, 'w) io" where
  "on_context c m = (\<lambda>w. case m (c, w) of None \<Rightarrow> None | Some (x, (_, w')) \<Rightarrow> Some (x, w'))"

definition builder_sender ::
  "('a, 'm, 'w) tokio \<Rightarrow> ('m, 'w) typed \<Rightarrow> ('a, 'w, 'x) actor_impl_scheme \<Rightarrow> 'a ctx_builder \<Rightarrow>
   ('a ctx_builder, 'w) io" where
  "builder_sender T C P b =
     io_bind (call (typed_channel C (impl_mailbox_size P))) (\<lambda>tx.
     io_bind (on_context (b_context b) (spawn_anonymous_rx_handle T tx)) (\<lambda>_.
     ret (b\<lparr>b_senders := SendRef (actor_send_ref_new tx) # b_senders b\<rparr>)))"

definition builder_asker ::
  "('a, 'm, 'w) tokio \<Rightarrow> ('m \<times> handle, 'w) typed \<Rightarrow> ('a, 'w, 'x) actor_impl_scheme \<Rightarrow> 'a ctx_builder \<Rightarrow>
   ('a ctx_builder, 'w) io" where
  "builder_asker T C P b =
     io_bind (call (typed_channel C (impl_mailbox_size P))) (\<lambda>tx.
     io_bind (on_context (b_context b) (spawn_anonymous_rx_ask T tx)) (\<lambda>_.
     ret (b\<lparr>b_senders := AskRef (actor_ask_ref_new tx) # b_senders b\<rparr>)))"

definition builder_ask_asyncer ::
  "('a, 'm, 'w) tokio \<Rightarrow> ('m \<times> handle, 'w) typed \<Rightarrow> ('a, 'w, 'x) actor_impl_scheme \<Rightarrow> 'a ctx_builder \<Rightarrow>
   ('a ctx_builder, 'w) io" where
  "builder_ask_asyncer T C P b =
     io_bind (call (typed_channel C (impl_mailbox_size P))) (\<lambda>tx.
     io_bind (on_context (b_context b) (spawn_anonymous_rx_async T tx)) (\<lambda>_.
     ret (b\<lparr>b_senders := AsyncAskRef (actor_async_ask_ref_new tx) # b_senders b\<rparr>)))"

definition builder_run :: "('a, 'm, 'w) tokio \<Rightarrow> 'a ctx_builder \<Rightarrow> (typed_ref list option, 'w) io" where
  "builder_run T b = io_bind (run_top T (b_context b) (b_actor b)) (\<lambda>_. ret (flatten (b_senders b)))"

definition builder_spawn ::
  "('a, 'm, 'w) tokio \<Rightarrow> 'a ctx_builder \<Rightarrow> (typed_ref list option, 'w cworld) io" where
  "builder_spawn T b = io_bind (spawn_with T (b_context b) (b_actor b)) (\<lambda>_. ret (flatten (b_senders b)))"

text \<open>A chain of calls of the builder.\<close>

fun declare_address ::
  "('a, 'm, 'w) tokio \<Rightarrow> ('m, 'w) typed \<Rightarrow> ('m \<times> handle, 'w) typed \<Rightarrow> ('a, 'w, 'x) actor_impl_scheme \<Rightarrow>
   address_kind \<Rightarrow> 'a ctx_builder \<Rightarrow> ('a ctx_builder, 'w) io" where
  "declare_address T C D P Sender b = builder_sender T C P b"
| "declare_address T C D P Asker b = builder_asker T D P b"
| "declare_address T C D P AskAsyncer b = builder_ask_asyncer T D P b"

fun declare_addresses ::
  "('a, 'm, 'w) tokio \<Rightarrow> ('m, 'w) typed \<Rightarrow> ('m \<times> handle, 'w) typed \<Rightarrow> ('a, 'w, 'x) actor_impl_scheme \<Rightarrow>
   address_kind list \<Rightarrow> 'a ctx_builder \<Rightarrow> ('a ctx_builder, 'w) io" where
  "declare_addresses T C D P [] b = ret b"
| "declare_addresses T C D P (k # ks) b =
     io_bind (declare_address T C D P k b) (\<lambda>b'. declare_addresses T C D P ks b')"

fun kind_of :: "typed_ref \<Rightarrow> address_kind" where
  "kind_of (SendRef r) = Sender"
| "kind_of (AskRef r) = Asker"
| "kind_of (AsyncAskRef r) = AskAsyncer"

lemma declare_address_senders:
  assumes "declare_address T C D P k b w = Some (Done b', w')"
  shows "\<exists>r. b_senders b' = r # b_senders b \<and> kind_of r = k \<and> b_context b' = b_context b \<and> b_actor b' = b_actor b"
  using assms
  by (cases k)
    (auto simp: builder_sender_def builder_asker_def builder_ask_asyncer_def io_simps
      split: option.splits res.splits prod.splits)

lemma declare_addresses_senders:
  assumes "declare_addresses T C D P ks b w = Some (Done b', w')"
  shows "map kind_of (rev (b_senders b')) = map kind_of (rev (b_senders b)) @ ks \<and>
    b_context b' = b_context b \<and> b_actor b' = b_actor b"
  using assms
proof (induction ks arbitrary: b w)
  case Nil
  then show ?case by (simp add: io_simps)
next
  case (Cons k ks)
  then obtain b1 w1 where b1: "declare_address T C D P k b w = Some (Done b1, w1)"
    and rest: "declare_addresses T C D P ks b1 w1 = Some (Done b', w')"
    unfolding declare_addresses.simps by (elim io_bind_DoneE)
  show ?case using declare_address_senders [OF b1] Cons.IH [OF rest] by auto
qed

section \<open>Properties\<close>

text \<open>A builder that runs gives the addresses in the order they were asked for, each of the kind that
  was asked for.\<close>

theorem builder_order:
  assumes "ctx_builder_new T P a w = Some (Done b, w1)"
    and "declare_addresses T C D P ks b w1 = Some (Done b', w2)"
    and "builder_run T b' w2 = Some (Done out, w3)" and "length ks \<le> 10"
  shows "\<exists>refs. out = Some refs \<and> map kind_of refs = ks"
proof -
  have "b_senders b = []"
    using assms(1) by (auto simp: ctx_builder_new_def io_simps split: option.splits res.splits)
  then have k: "map kind_of (rev (b_senders b')) = ks"
    using declare_addresses_senders [OF assms(2)] by simp
  then have "length (b_senders b') \<le> 10" using assms(4) by (metis length_map length_rev)
  moreover have "out = flatten (b_senders b')"
    using assms(3) by (auto simp: builder_run_def io_simps split: option.splits res.splits)
  ultimately show ?thesis using k by (auto simp: flatten_eq_rev)
qed

text \<open>A typed asking address, on every branch: a closed channel gives the message back, a lost answer is
  \<open>AskDropped\<close>, and the answer of the bridge is handed on; nothing panics.\<close>

theorem typed_ref_ask_result:
  assumes "typed_returns C"
  shows "typed_ref_ask C A r m w =
    (case answer_channel A w of (tx, w1) \<Rightarrow>
     (case typed_send C (ask_inner r) (m, tx) w1 of
        None \<Rightarrow> None
      | Some (Inl _, w2) \<Rightarrow> Some (Done (Inl (AskClosed m)), w2)
      | Some (Inr _, w2) \<Rightarrow>
          (case answer_recv A tx w2 of
             None \<Rightarrow> None
           | Some (Inl _, w3) \<Rightarrow> Some (Done (Inl AskDropped), w3)
           | Some (Inr response, w3) \<Rightarrow> Some (Done response, w3))))"
  by (auto simp: typed_ref_ask_def io_simps dest: typed_returnsD [OF assms]
      split: prod.split sum.split option.split)

text \<open>A typed sending address never panics, with or without a timeout, and never loses its message.\<close>

theorem typed_send_timeout_into_inner:
  assumes "typed_returns C"
  shows "triple (\<lambda>_. True)
    (io_bind (typed_ref_send_timeout C d r m) (\<lambda>res. case res of Inl e \<Rightarrow> send_error_into_inner e | Inr _ \<Rightarrow> ret m))
    (\<lambda>x _. x = m)"
  by (rule typed_send_timeout.into_inner_message [OF assms])

end
