(* ===== verification/Io.thy ===== *)
theory Io
  imports Single
begin

text \<open>
  Reading from and writing to a pipe (\<open>io/mod.rs\<close>): the handles \<open>Reader\<close> and \<open>Writer\<close>, the \<open>select!\<close>
  that listens to the supervisor meanwhile, and the two tasks that own the halves of a stream. What
  they await is in the records \<open>reader_env\<close> and \<open>writer_env\<close>; \<open>Read<LEN>\<close> of \<open>io/read/exact.rs\<close> is
  the frame that reads a stream of bytes.
\<close>

type_synonym byte = "8 word"

datatype io_error = BrokenPipe | OtherError | OsError nat

section \<open>Handles\<close>

text \<open>
  The answer of a pipe comes through a oneshot channel of its own: \<open>result_channel\<close> makes one,
  \<open>result_recv\<close> waits for it.
\<close>

record ('o, 'w) results =
  result_channel :: "'w \<Rightarrow> handle \<times> 'w"
  result_recv :: "handle \<Rightarrow> (unit + (io_error + 'o), 'w) fut"

datatype reader = Reader (reader_inner: handle)

datatype writer = Writer (writer_inner: handle)

definition reader_new :: "handle \<Rightarrow> reader" where
  "reader_new h = Reader h"

definition reader_clone :: "reader \<Rightarrow> reader" where
  "reader_clone r = Reader (reader_inner r)"

definition writer_new :: "handle \<Rightarrow> writer" where
  "writer_new h = Writer h"

text \<open>\<open>Reader::read\<close>, with \<open>R::default()\<close> in \<open>default_frame\<close>.\<close>

definition reader_read ::
  "('f \<times> handle, 'w) typed \<Rightarrow> ('o, 'w) results \<Rightarrow> 'f \<Rightarrow> reader \<Rightarrow> (io_error + 'o option, 'w) io" where
  "reader_read C A default_frame r =
     io_bind (call (result_channel A)) (\<lambda>tx.
     io_bind (await (typed_send C (reader_inner r) (default_frame, tx))) (\<lambda>sent. case sent of
         Inl _ \<Rightarrow> ret (Inr None)
       | Inr _ \<Rightarrow> io_bind (await (result_recv A tx)) (\<lambda>res. case res of
             Inr (Inr response) \<Rightarrow> ret (Inr (Some response))
           | Inr (Inl err) \<Rightarrow> ret (Inl err)
           | Inl _ \<Rightarrow> ret (Inr None))))"

text \<open>\<open>ComponentReader::read\<close> reads from a clone.\<close>

definition component_read ::
  "('f \<times> handle, 'w) typed \<Rightarrow> ('o, 'w) results \<Rightarrow> 'f \<Rightarrow> reader \<Rightarrow> (io_error + 'o option, 'w) io" where
  "component_read C A default_frame r = reader_read C A default_frame (reader_clone r)"

definition writer_write ::
  "(byte list \<times> handle, 'w) typed \<Rightarrow> (unit, 'w) results \<Rightarrow> writer \<Rightarrow> byte list \<Rightarrow> (io_error + unit, 'w) io" where
  "writer_write C A wr data =
     io_bind (call (result_channel A)) (\<lambda>tx.
     io_bind (await (typed_send C (writer_inner wr) (data, tx))) (\<lambda>sent. case sent of
         Inl err \<Rightarrow> ret (Inl BrokenPipe)
       | Inr _ \<Rightarrow> io_bind (await (result_recv A tx)) (\<lambda>res. case res of
             Inr result \<Rightarrow> ret result
           | Inl err \<Rightarrow> ret (Inl OtherError))))"

section \<open>Listening to the supervisor\<close>

text \<open>
  \<open>select\<close> is the \<open>select!\<close> of the function \<open>supervisor\<close>: which branch won, with \<open>result.is_ok()\<close> for
  the first and the output of the future for the third.
\<close>

datatype 'x sup_branch = ParentChanged bool | ShutdownFired | FutureDone 'x

datatype 'x supervise = Success 'x | SuperviseContinue | SuperviseShutdown | Dead

definition supervisor ::
  "('s \<Rightarrow> supervisor_message option) \<Rightarrow> ('x sup_branch, 's) fut \<Rightarrow> ('x supervise, 's) io" where
  "supervisor parent_msg select =
     io_bind (await select) (\<lambda>branch. case branch of
         ParentChanged ok \<Rightarrow>
           (if \<not> ok then ret Dead
            else io_bind (gets parent_msg) (\<lambda>msg. ret (case msg of
                Some Shutdown \<Rightarrow> SuperviseShutdown
              | None \<Rightarrow> SuperviseContinue)))
       | ShutdownFired \<Rightarrow> ret SuperviseShutdown
       | FutureDone out \<Rightarrow> ret (Success out))"

section \<open>The reader task\<close>

record ('f, 'p, 'o, 'w) reader_env =
  select_request :: "(('f \<times> handle) option sup_branch, 'w) fut"
  select_frame :: "((io_error + unit option) sup_branch, 'f \<times> 'w) fut"
  reader_parent :: "'w \<Rightarrow> supervisor_message option"
  payload_default :: 'p
  payload_recv :: "'f \<Rightarrow> ('o option, 'p) io"
  send_object :: "handle \<Rightarrow> io_error + 'o \<Rightarrow> 'w \<Rightarrow> 'w"
  drop_sender :: "handle \<Rightarrow> 'w \<Rightarrow> 'w"
  send_shutdown :: "'w \<Rightarrow> 'w"

text \<open>
  One round of the inner loop, on the payload, the frame and the world. It is left with the sender
  if that was not used; the sender is then dropped at the end of the outer round.
\<close>

definition frame_round ::
  "('f, 'p, 'o, 'w) reader_env \<Rightarrow> handle \<Rightarrow> (handle option flow, 'p \<times> 'f \<times> 'w) io" where
  "frame_round R sender =
     io_bind (zoom snd (\<lambda>fw (p, _). (p, fw)) (supervisor (reader_parent R \<circ> snd) (select_frame R)))
       (\<lambda>res. case res of
           Success (Inr (Some _)) \<Rightarrow>
             io_bind (gets (fst \<circ> snd)) (\<lambda>frame.
             io_bind (zoom fst (\<lambda>p (_, fw). (p, fw)) (payload_recv R frame))
               (\<lambda>obj. case obj of
                   Some object \<Rightarrow>
                     io_seq (modify (\<lambda>(p, f, w). (p, f, send_object R sender (Inr object) w)))
                       (ret (Leave None))
                 | None \<Rightarrow> ret Again))
         | SuperviseContinue \<Rightarrow> ret Again
         | Success (Inl _) \<Rightarrow> ret (Leave (Some sender))
         | Success (Inr None) \<Rightarrow> ret (Leave (Some sender))
         | Dead \<Rightarrow> ret (Leave (Some sender))
         | SuperviseShutdown \<Rightarrow> ret (Leave (Some sender)))"

definition read_object ::
  "('f, 'p, 'o, 'w) reader_env \<Rightarrow> 'f \<Rightarrow> handle \<Rightarrow> (handle option, 'w) io" where
  "read_object R frame sender = (\<lambda>w.
     case io_loop (frame_round R sender) (payload_default R, frame, w) of
       None \<Rightarrow> None | Some (x, (_, _, w')) \<Rightarrow> Some (x, w'))"

definition reader_round :: "('f, 'p, 'o, 'w) reader_env \<Rightarrow> (unit flow, 'w) io" where
  "reader_round R =
     io_bind (supervisor (reader_parent R) (select_request R)) (\<lambda>res. case res of
         Success (Some (frame, sender)) \<Rightarrow>
           io_bind (read_object R frame sender) (\<lambda>owned.
           io_seq (case owned of None \<Rightarrow> ret () | Some s \<Rightarrow> modify (drop_sender R s)) (ret Again))
       | SuperviseContinue \<Rightarrow> ret Again
       | Success None \<Rightarrow> ret (Leave ())
       | Dead \<Rightarrow> ret (Leave ())
       | SuperviseShutdown \<Rightarrow> ret (Leave ()))"

definition create_reader_actor :: "('f, 'p, 'o, 'w) reader_env \<Rightarrow> (unit, 'w) io" where
  "create_reader_actor R = io_seq (io_loop (reader_round R)) (modify (send_shutdown R))"

section \<open>The writer task\<close>

record 'w writer_env =
  select_data :: "((byte list \<times> handle) option sup_branch, 'w) fut"
  select_write :: "byte list \<Rightarrow> ((io_error + unit) sup_branch, 'w) fut"
  writer_parent :: "'w \<Rightarrow> supervisor_message option"
  send_written :: "handle \<Rightarrow> io_error + unit \<Rightarrow> 'w \<Rightarrow> 'w"
  drop_written :: "handle \<Rightarrow> 'w \<Rightarrow> 'w"

definition writer_round :: "'w writer_env \<Rightarrow> (unit flow, 'w) io" where
  "writer_round R =
     io_bind (supervisor (writer_parent R) (select_data R)) (\<lambda>res. case res of
         Success (Some (data, sender)) \<Rightarrow>
           io_bind (supervisor (writer_parent R) (select_write R data)) (\<lambda>written. case written of
               Success result \<Rightarrow> io_seq (modify (send_written R sender result)) (ret Again)
             | SuperviseContinue \<Rightarrow> io_seq (modify (drop_written R sender)) (ret Again)
             | Dead \<Rightarrow> io_seq (modify (drop_written R sender)) (ret (Leave ()))
             | SuperviseShutdown \<Rightarrow> io_seq (modify (drop_written R sender)) (ret (Leave ())))
       | SuperviseContinue \<Rightarrow> ret Again
       | Success None \<Rightarrow> ret (Leave ())
       | Dead \<Rightarrow> ret (Leave ())
       | SuperviseShutdown \<Rightarrow> ret (Leave ()))"

definition create_writer_actor :: "'w writer_env \<Rightarrow> (unit, 'w) io" where
  "create_writer_actor R = io_loop (writer_round R)"

section \<open>Frames of bytes (io/read/exact.rs)\<close>

record read_frame =
  buffer :: "byte list"
  read :: usize

definition read_default :: "nat \<Rightarrow> read_frame" where
  "read_default len = \<lparr> buffer = replicate len 0, read = 0 \<rparr>"

text \<open>\<open>&self.buffer[..self.read]\<close>: a slice past the end panics.\<close>

definition as_slice :: "read_frame \<Rightarrow> (byte list, 's) io" where
  "as_slice f = (if unat (read f) \<le> length (buffer f) then ret (take (unat (read f)) (buffer f)) else panic)"

definition to_vec :: "read_frame \<Rightarrow> (byte list, 's) io" where
  "to_vec f = (if unat (read f) \<le> length (buffer f) then ret (take (unat (read f)) (buffer f)) else panic)"

definition frame :: "read_frame \<Rightarrow> (byte list, 's) io" where
  "frame f = (if unat (read f) \<le> length (buffer f) then ret (take (unat (read f)) (buffer f)) else panic)"

text \<open>
  The read half of a TCP stream: a peek fills a buffer of the given capacity with bytes it does not
  remove, a \<open>try_read\<close> takes at most so many bytes out.
\<close>

datatype 'x poll = Ready 'x | Pending

record 's tcp_read =
  poll_peek :: "nat \<Rightarrow> 's \<Rightarrow> (io_error + byte list) poll \<times> 's"
  try_read :: "nat \<Rightarrow> 's \<Rightarrow> (io_error + byte list) \<times> 's"

definition overwrite :: "byte list \<Rightarrow> read_frame \<Rightarrow> read_frame" where
  "overwrite bs f = f\<lparr>buffer := bs @ drop (length bs) (buffer f)\<rparr>"

definition read_poll ::
  "'s tcp_read \<Rightarrow> ((io_error + unit option) poll, read_frame \<times> 's) io" where
  "read_poll S = (\<lambda>(f, s). case poll_peek S (length (buffer f)) s of
       (Pending, s') \<Rightarrow> Some (Done Pending, (f, s'))
     | (Ready (Inl err), s') \<Rightarrow> Some (Done (Ready (Inl err)), (f, s'))
     | (Ready (Inr peeked), s') \<Rightarrow>
         (let f1 = overwrite peeked f; n = length peeked in
          if n = 0 then Some (Done (Ready (Inr None)), (f1, s'))
          else if n > length (buffer f) then Some (Panic, (f1, s'))
          else (case try_read S n s' of
              (Inl err, s2) \<Rightarrow> Some (Panic, (f1, s2))
            | (Inr got, s2) \<Rightarrow>
                Some (Done (Ready (Inr (Some ()))), ((overwrite got f1)\<lparr>read := of_nat n\<rparr>, s2)))))"

end
