(* ===== verification/Sample.thy ===== *)
theory Sample
  imports Spawned Io
begin

text \<open>
  A concrete runtime to run the model on: one mailbox (handle 0) with its queue in the world, a counter
  of the watch receivers, one of which is dropped in every idle second of a stopping actor, permits as a counter, and
  the values that were sent to answer channels.
  The structs and messages of the adding actor are numbers: it adds up its messages, stops on a zero, and
  replies with its sum. The witnesses of the properties are runs of it.
\<close>

record ('a, 'm) sample_world =
  queue :: "'m boxed list"
  accepted :: "'m boxed list"
  shut :: bool
  watchers :: nat
  told :: "supervisor_message option"
  free_permits :: usize
  answered :: "(handle \<times> 'm) list"
  handed :: "(handle \<times> 'a) list"
  dropped :: "handle list"

definition empty_world :: "('a, 'm) sample_world" where
  "empty_world = \<lparr> queue = [], accepted = [], shut = False, watchers = 0, told = None,
     free_permits = 2, answered = [], handed = [], dropped = [] \<rparr>"

definition put :: "'m boxed \<Rightarrow> ('a, 'm) sample_world \<Rightarrow> ('a, 'm) sample_world" where
  "put b w = w\<lparr>queue := queue w @ [b], accepted := accepted w @ [b]\<rparr>"

definition take_first :: "('a, 'm) sample_world \<Rightarrow> 'm boxed option \<times> ('a, 'm) sample_world" where
  "take_first w = (case queue w of [] \<Rightarrow> (None, w) | b # bs \<Rightarrow> (Some b, w\<lparr>queue := bs\<rparr>))"

definition sample :: "('a, 'm, ('a, 'm) sample_world) tokio" where
  "sample = \<lparr>
     mpsc_channel = (\<lambda>n w. (0, w)),
     mpsc_try_send = (\<lambda>h b w. if shut w then (Inl (TrySendClosed b), w)
       else if length (queue w) < 6 then (Inr (), put b w) else (Inl (TrySendFull b), w)),
     mpsc_send = (\<lambda>h b w. if shut w then Some (Inl b, w) else Some (Inr (), put b w)),
     mpsc_is_closed = (\<lambda>h w. shut w),
     mpsc_recv = (\<lambda>h w. case take_first w of
         (Some b, w') \<Rightarrow> Some (Some b, w')
       | (None, w') \<Rightarrow> if shut w then Some (None, w') else None),
     mpsc_try_recv = (\<lambda>h w. take_first w),
     mpsc_close = (\<lambda>h w. w\<lparr>shut := True\<rparr>),
     watch_channel = (\<lambda>w. (0, w)),
     watch_send = (\<lambda>h v w. w\<lparr>told := v\<rparr>),
     watch_subscribe = (\<lambda>h w. (0, w\<lparr>watchers := Suc (watchers w)\<rparr>)),
     watch_is_closed = (\<lambda>h w. watchers w = 0),
     watch_borrow = (\<lambda>h w. told w),
     watch_borrow_and_update = (\<lambda>h w. (told w, w)),
     watch_drop_rx = (\<lambda>h w. w\<lparr>watchers := watchers w - 1\<rparr>),
     oneshot_channel = (\<lambda>w. (7, w)),
     oneshot_send = (\<lambda>h m w. (Inr (), w\<lparr>answered := answered w @ [(h, m)]\<rparr>)),
     oneshot_recv = (\<lambda>h w. Some (Inl (), w)),
     oneshot_send_actor = (\<lambda>h a w. (Inr (), w\<lparr>handed := handed w @ [(h, a)]\<rparr>)),
     oneshot_recv_actor = (\<lambda>h w. Some (Inl (), w)),
     oneshot_drop_tx = (\<lambda>h w. w\<lparr>dropped := dropped w @ [h]\<rparr>),
     sem_new = (\<lambda>n w. (0, w\<lparr>free_permits := n\<rparr>)),
     sem_available = (\<lambda>h w. min (free_permits w) 2),
     sem_try_acquire = (\<lambda>h w. if free_permits w = 0 then (Inl NoPermits, w)
       else (Inr 0, w\<lparr>free_permits := free_permits w - 1\<rparr>)),
     sem_acquire_many = (\<lambda>h n w. Some (Inr 0, w)),
     permit_drop = (\<lambda>h w. w),
     spawn = (\<lambda>t w. (0, w)),
     task_abort = (\<lambda>h w. w),
     join_answer = (\<lambda>h w. Some (Inl 0, w)),
     spawn_join_message = (\<lambda>m w. case m w of None \<Rightarrow> None
       | Some (Panic, w') \<Rightarrow> Some (Done (Inl 0), w') | Some (Done r, w') \<Rightarrow> Some (Done (Inr r), w')),
     spawn_join_unit = (\<lambda>m w. case m w of None \<Rightarrow> None
       | Some (Panic, w') \<Rightarrow> Some (Done (Inl 0), w') | Some (Done r, w') \<Rightarrow> Some (Done (Inr r), w')),
     spawn_join_child = (\<lambda>m w. case m w of None \<Rightarrow> None
       | Some (Panic, w') \<Rightarrow> Some (Done (Inl 0), w') | Some (Done r, w') \<Rightarrow> Some (Done (Inr r), w')),
     spawn_blocking = (\<lambda>m s. case m s of None \<Rightarrow> None
       | Some (Panic, s') \<Rightarrow> Some (Done (Inl 0), s') | Some (Done r, s') \<Rightarrow> Some (Done (Inr r), s')),
     err_is_cancelled = (\<lambda>e. False),
     err_is_panic = (\<lambda>e. True),
     sleep = (\<lambda>n w. Some ((), w)),
     select_supervised = (\<lambda>rx mb w. case take_first w of
         (Some b, w') \<Rightarrow> Some (MailboxRecv (Some b), w')
       | (None, w') \<Rightarrow> if told w = None then None else Some (WatchChanged, w')),
     select_stopping = (\<lambda>mb n w. case take_first w of
         (Some b, w') \<Rightarrow> Some (StopRecv (Some b), w')
       | (None, w') \<Rightarrow> Some (StopSlept, w'\<lparr>watchers := watchers w' - 1\<rparr>)),
     select_message = (\<lambda>rx m w. case m w of None \<Rightarrow> None
       | Some (Panic, w') \<Rightarrow> Some (Panic, w') | Some (Done r, w') \<Rightarrow> Some (Done (Some r), w')),
     select_unit = (\<lambda>rx m w. case m w of None \<Rightarrow> None
       | Some (Panic, w') \<Rightarrow> Some (Panic, w') | Some (Done r, w') \<Rightarrow> Some (Done (Some r), w')),
     select_answer = (\<lambda>rx m s. case m s of None \<Rightarrow> None
       | Some (Panic, s') \<Rightarrow> Some (Panic, s') | Some (Done r, s') \<Rightarrow> Some (Done (Some r), s')) \<rparr>"

definition sample_view :: "('m, ('a, 'm) sample_world) mail_view" where
  "sample_view = \<lparr> mail_sent = accepted, mail_pending = queue, mail_closed = shut \<rparr>"

text \<open>The adding actor, and a context and a mailbox for it.\<close>

type_synonym adder_world = "(nat, nat) sample_world"

definition adder :: "(nat, nat, adder_world) actor_ops" where
  "adder = with_handlers ((default_actor ''Adder'')\<lparr>impl_max_anonymous_actors := 2\<rparr>)
     (\<lambda>m (a, c, w). Some (Done (), (if m = 0 then (a, stop c, w) else (a + m, c, w))))
     (\<lambda>m (a, c, w). Some (Done (Reply a), (a, c, w)))
     (\<lambda>m (a, c, w). Some (Done (\<lambda>(a, w). Some (Done (a + m), (a, w))), (a, c, w)))"

definition sample_ctx :: ctx where
  "sample_ctx = \<lparr> address = ActorRef 0, mailbox = 0, notifier = 0, state = Running,
     max_anonymous_actors = 0, overflow_anonymous_actors = 0, into_future_sender = None \<rparr>"

definition letters :: "'m list \<Rightarrow> ('a, 'm) sample_world" where
  "letters ms = fold (\<lambda>m. put (BoxEnvelope (envelope_new m))) ms empty_world"

end
