(* ===== verification/Lifecycle.thy ===== *)
theory Lifecycle
  imports Executor
begin

text \<open>
  The life cycle of an actor: in which order its callbacks are made, and which life cycle state each
  of them sees. Both are facts about whole runs of \<open>run_actor\<close> and \<open>run_supervised_actor\<close>, read off
  the ghost log of the executor. They follow from relations that every round of the loops keeps;
  \<open>executor_rounds\<close> and \<open>executor_parts\<close> state that contract once.
\<close>

section \<open>The grammar of the callbacks\<close>

fun message_cycles :: "'m callback list \<Rightarrow> bool" where
  "message_cycles [] = True"
| "message_cycles (PreRun # Recv b # PostRun # cs) = message_cycles cs"
| "message_cycles _ = False"

lemma message_cycles_append:
  "message_cycles cs \<Longrightarrow> message_cycles ds \<Longrightarrow> message_cycles (cs @ ds)"
  by (induction cs rule: message_cycles.induct) simp_all

text \<open>The part of the log that a computation adds.\<close>

definition adds :: "('m callback list \<Rightarrow> bool) \<Rightarrow> ('a, 'm, 'w) executor \<Rightarrow> ('a, 'm, 'w) executor \<Rightarrow> bool" where
  "adds A E E' \<longleftrightarrow> (\<exists>cs. map fst (calls E') = map fst (calls E) @ cs \<and> A cs)"

definition same_calls :: "('a, 'm, 'w) executor \<Rightarrow> ('a, 'm, 'w) executor \<Rightarrow> bool" where
  "same_calls E E' \<longleftrightarrow> calls E' = calls E"

interpretation same_calls: frame_rel same_calls
  by unfold_locales (simp_all add: same_calls_def)

interpretation cycles: frame_rel "adds message_cycles"
  by unfold_locales (simp add: adds_def, unfold adds_def, metis append.assoc message_cycles_append)

lemma same_calls_on_env: "keeps same_calls (on_env m)"
  by (auto simp: keeps_def io_simps same_calls_def split: option.splits prod.splits)

lemma same_calls_in_w: "keeps same_calls (in_w m)"
  by (simp add: in_w_def same_calls_on_env)

lemma same_calls_deliver_blocking: "keeps same_calls (deliver_blocking T P msg)"
  unfolding deliver_blocking_def
  by (intro same_calls.keeps_rules same_calls_on_env) (auto split: sum.splits intro: same_calls.keeps_rules)

lemma same_calls_deliver_nonblocking: "keeps same_calls (deliver_nonblocking T P msg)"
  unfolding deliver_nonblocking_def by (rule same_calls_on_env)

lemma same_calls_modify: "(\<And>E. calls (f E) = calls E) \<Longrightarrow> keeps same_calls (modify f)"
  by (rule same_calls.keeps_modify) (simp add: same_calls_def)

lemma same_calls_check: "keeps same_calls (check_anonymous_actors T P)"
  unfolding check_anonymous_actors_def acquire_and_drop_def set_overflow_def usize_sub_def
  by (intro same_calls.keeps_rules same_calls_in_w same_calls_modify allI conjI impI
      same_calls.keeps_bind | simp split: if_splits)+


lemma keeps_same_calls_adds:
  assumes "keeps same_calls m" and "A []"
  shows "keeps (adds A) m"
  using assms by (auto simp: keeps_def same_calls_def adds_def)

lemma log_call_triple:
  "triple (\<lambda>E. calls E = L) (log_call cb) (\<lambda>_ E. \<exists>s. calls E = L @ [(cb, s)])"
  by (auto simp: log_call_def intro!: triple_modify)

lemma same_calls_triple:
  "keeps same_calls m \<Longrightarrow> triple (\<lambda>E. calls E = L) m (\<lambda>_ E. calls E = L)"
  by (auto simp: keeps_def same_calls_def triple_def)

lemma callback_triple:
  "triple (\<lambda>E. calls E = L) (callback cb h) (\<lambda>_ E. \<exists>s. calls E = L @ [(cb, s)])"
  unfolding callback_def
  by (rule triple_seq [OF log_call_triple triple_exI], rule triple_post [OF same_calls_triple])
    (auto intro: same_calls_on_env)

lemma deliver_triple:
  "triple (\<lambda>E. calls E = L)
     (case box_scheduler P msg of Blocking \<Rightarrow> deliver_blocking T P msg
        | NonBlocking \<Rightarrow> deliver_nonblocking T P msg) (\<lambda>_ E. calls E = L)"
  by (auto split: scheduler.split
      intro: same_calls_triple same_calls_deliver_blocking same_calls_deliver_nonblocking)

text \<open>Processing a message makes exactly one cycle of callbacks, around that message.\<close>

lemma process_message_calls:
  "triple (\<lambda>E. calls E = L) (process_message T P msg)
     (\<lambda>ev E. \<exists>s1 s2 s3. calls E = L @ [(PreRun, s1), (Recv msg, s2), (PostRun, s3)] \<and>
        ev = (if state (ectx E) = Running then Continue else Break))"
  unfolding process_message_def
  apply (rule triple_seq [OF callback_triple triple_exI])
  apply (rule triple_seq [OF log_call_triple triple_exI])
  apply (rule triple_seq [OF deliver_triple])
  apply (rule triple_seq [OF callback_triple triple_exI])
  apply (rule triple_gets)
  apply auto
  done

lemma process_message_cycle: "keeps (adds message_cycles) (process_message T P msg)"
  using process_message_calls [of _ T P msg]
  by (fastforce simp: keeps_def triple_def adds_def)

lemma cycles_of_same: "keeps same_calls m \<Longrightarrow> keeps (adds message_cycles) m"
  by (rule keeps_same_calls_adds) simp_all

lemmas cycles_rules =
  cycles.keeps_rules process_message_cycle
  cycles_of_same [OF same_calls_in_w] cycles_of_same [OF same_calls_check]


section \<open>Relations kept by the rounds of an executor\<close>

text \<open>
  Each fact about whole runs of an actor is a relation between executor states that every round of
  its loops keeps. \<open>executor_rounds\<close> is that contract; \<open>executor_parts\<close> is the stronger one of the
  relations that do not look at the world, for which one message and the limit are enough.
\<close>

definition on_fst :: "('s \<Rightarrow> 's \<Rightarrow> bool) \<Rightarrow> 's \<times> nat \<Rightarrow> 's \<times> nat \<Rightarrow> bool" where
  "on_fst R p q \<longleftrightarrow> R (fst p) (fst q)"

lemma on_fst_frame: "frame_rel R \<Longrightarrow> frame_rel (on_fst R)"
  unfolding frame_rel_def on_fst_def by blast

lemma keeps_zoom_fst: "keeps R m \<Longrightarrow> keeps (on_fst R) (zoom fst (\<lambda>E (_, n). (E, n)) m)"
  by (auto simp: keeps_def on_fst_def io_simps split: option.splits prod.splits)

definition set_world :: "('w \<Rightarrow> 'w) \<Rightarrow> ('a, 'm, 'w) executor \<Rightarrow> ('a, 'm, 'w) executor" where
  "set_world f E = E\<lparr>world := f (world E)\<rparr>"

locale executor_rounds = frame_rel R
  for R :: "('a, 'm, 'w) executor \<Rightarrow> ('a, 'm, 'w) executor \<Rightarrow> bool" +
  fixes T :: "('a, 'm, 'w) tokio" and P :: "('a, 'm, 'w) actor_ops"
  assumes run_round: "keeps R (run_round T P)"
    and supervised_round: "keeps R (supervised_round T P)"
    and stopping_round: "keeps (on_fst R) (stopping_round T P)"
    and drain_round: "keeps R (drain_round T P)"
    and close: "R E (set_world (mpsc_close T (mailbox (ectx E))) E)"
    and notify: "R E (set_world (watch_send T (notifier (ectx E)) (Some Shutdown)) E)"

sublocale executor_rounds \<subseteq> pair: frame_rel "on_fst R"
  by (rule on_fst_frame) (rule frame_rel_axioms)

context executor_rounds
begin

lemma stopping_keeps: "keeps R (stopping T P)"
proof -
  have loop: "keeps (on_fst R) (io_loop (stopping_round T P))"
    by (rule pair.keeps_loop) (rule stopping_round)
  show ?thesis
    unfolding stopping_def
  proof (intro keeps_bind keeps_gets, goal_cases)
    case (1 closed)
    show ?case
    proof (cases closed)
      case True
      then show ?thesis using close by (auto intro!: keeps_modify simp: set_world_def)
    next
      case False
      have "keeps R (\<lambda>E. case io_loop (stopping_round T P) (E, 0) of
          None \<Rightarrow> None | Some (x, (E', _)) \<Rightarrow> Some (x, E'))"
        using loop by (fastforce simp: keeps_def on_fst_def split: option.splits prod.splits)
      with False show ?thesis
        using notify by (auto intro!: keeps_seq keeps_modify simp: set_world_def)
    qed
  qed
qed

lemma stop_keeps: "keeps R (executor_stop T P)"
  unfolding executor_stop_def by (intro keeps_rules drain_round)

lemma run_loop_keeps: "keeps R (io_loop (run_round T P))"
  by (rule keeps_loop) (rule run_round)

lemma supervised_loop_keeps: "keeps R (io_loop (supervised_round T P))"
  by (rule keeps_loop) (rule supervised_round)

end

locale executor_parts = frame_rel R
  for R :: "('a, 'm, 'w) executor \<Rightarrow> ('a, 'm, 'w) executor \<Rightarrow> bool" +
  fixes T :: "('a, 'm, 'w) tokio" and P :: "('a, 'm, 'w) actor_ops"
  assumes process: "keeps R (process_message T P msg)"
    and check: "keeps R (check_anonymous_actors T P)"
    and set_world: "R E (E\<lparr>world := w\<rparr>)"
begin

lemma in_w_keeps: "keeps R (in_w m)"
  using set_world by (auto simp: keeps_def io_simps split: option.splits)

lemmas parts_rules = keeps_rules in_w_keeps process check

lemma run_round_parts: "keeps R (run_round T P)"
  unfolding run_round_def
  by (intro parts_rules) (auto split: option.split intro!: parts_rules)

lemma drain_round_parts: "keeps R (drain_round T P)"
  unfolding drain_round_def
  by (intro parts_rules) (auto split: option.split intro!: parts_rules)

lemma supervised_round_parts: "keeps R (supervised_round T P)"
  unfolding supervised_round_def handle_supervised_message_def unwrap_def
  by (intro parts_rules)
    (auto split: option.split supervised_event.split supervisor_message.split intro!: parts_rules)

lemma stopping_round_parts: "keeps (on_fst R) (stopping_round T P)"
proof -
  have w: "R E (E\<lparr>world := w\<rparr>)" for E w by (rule set_world)
  have p: "process_message T P msg E = Some (Done r, F) \<Longrightarrow> R E F" for msg E r F
    using process by (auto simp: keeps_def)
  show ?thesis
    unfolding stopping_round_def
    by (auto simp: keeps_def on_fst_def io_simps
        intro: trans [OF w] trans [OF w p] trans [OF trans [OF w p] w] w
        split: option.splits prod.splits res.splits stopping_event.splits if_splits)
qed

end

sublocale executor_parts \<subseteq> executor_rounds
  by unfold_locales
    (simp_all add: run_round_parts drain_round_parts supervised_round_parts stopping_round_parts
      set_world set_world_def)


interpretation cycles: executor_parts "adds message_cycles" T P for T P
  by unfold_locales
    (auto intro: process_message_cycle cycles_of_same [OF same_calls_check] simp: adds_def)

lemma callback_calls:
  "callback cb h E = Some (Done r, E') \<Longrightarrow> map fst (calls E') = map fst (calls E) @ [cb]"
  using callback_triple [of "calls E" cb h] by (fastforce simp: triple_def)

lemma set_state_calls: "set_state st E = Some (Done r, E') \<Longrightarrow> calls E' = calls E"
  by (auto simp: set_state_def io_simps)

lemma answer_awaiter_calls: "answer_awaiter T E = Some (Done r, E') \<Longrightarrow> calls E' = calls E"
  by (auto simp: answer_awaiter_def io_simps split: option.splits res.splits prod.splits)

lemma cycles_calls:
  assumes "keeps (adds message_cycles) m" "m E = Some (Done r, E')"
  obtains cs where "map fst (calls E') = map fst (calls E) @ cs" "message_cycles cs"
  using keepsD [OF assms] by (auto simp: adds_def)

text \<open>A run that completes went through all its phases.\<close>

lemma shutdown_DoneE:
  assumes "shutdown T P E = Some (Done r, E')"
  obtains E1 E2 E3 E4 E5 E6 r1 r2 r3 r4 r5 r6 where
    "set_state Stopping E = Some (Done r1, E1)"
    "callback OnStopping (on_stopping P) E1 = Some (Done r2, E2)"
    "stopping T P E2 = Some (Done r3, E3)"
    "set_state Stopped E3 = Some (Done r4, E4)"
    "callback OnStopped (on_stopped P) E4 = Some (Done r5, E5)"
    "executor_stop T P E5 = Some (Done r6, E6)"
    "callback OnEnd (on_end P) E6 = Some (Done r, E')"
  using assms unfolding shutdown_def by (elim io_seq_DoneE) blast

lemma run_actor_DoneE:
  assumes "run_actor T P E = Some (Done r, E')"
  obtains E1 E2 E3 r1 r2 r3 where
    "callback OnStart (on_start P) E = Some (Done r1, E1)"
    "io_loop (run_round T P) E1 = Some (Done r2, E2)"
    "shutdown T P E2 = Some (Done r3, E3)"
    "answer_awaiter T E3 = Some (Done r, E')"
  using assms unfolding run_actor_def by (elim io_seq_DoneE) blast

lemma run_supervised_DoneE:
  assumes "run_supervised_actor T P E = Some (Done r, E')"
  obtains E1 E2 r1 r2 where
    "callback OnStart (on_start P) E = Some (Done r1, E1)"
    "io_loop (supervised_round T P) E1 = Some (Done r2, E2)"
    "shutdown T P E2 = Some (Done r, E')"
  using assms unfolding run_supervised_actor_def by (elim io_seq_DoneE) blast

text \<open>The callbacks of a shutdown: \<open>on_stopping\<close>, \<open>on_stopped\<close> and \<open>on_end\<close>, once each, with whole
  messages before and after \<open>on_stopped\<close>.\<close>

lemma shutdown_calls:
  assumes "shutdown T P E = Some (Done r, E')"
  obtains stopping draining where
    "map fst (calls E') = map fst (calls E) @ OnStopping # stopping @ OnStopped # draining @ [OnEnd]"
    "message_cycles stopping" "message_cycles draining"
proof -
  from assms obtain E1 E2 E3 E4 E5 E6 r1 r2 r3 r4 r5 r6 where
    1: "set_state Stopping E = Some (Done r1, E1)" and
    2: "callback OnStopping (on_stopping P) E1 = Some (Done r2, E2)" and
    3: "stopping T P E2 = Some (Done r3, E3)" and
    4: "set_state Stopped E3 = Some (Done r4, E4)" and
    5: "callback OnStopped (on_stopped P) E4 = Some (Done r5, E5)" and
    6: "executor_stop T P E5 = Some (Done r6, E6)" and
    7: "callback OnEnd (on_end P) E6 = Some (Done r, E')"
    by (rule shutdown_DoneE)
  obtain stopping where s: "map fst (calls E3) = map fst (calls E2) @ stopping" "message_cycles stopping"
    using cycles.stopping_keeps 3 by (rule cycles_calls)
  obtain draining where d: "map fst (calls E6) = map fst (calls E5) @ draining" "message_cycles draining"
    using cycles.stop_keeps 6 by (rule cycles_calls)
  show thesis
    using that [of stopping draining] s d callback_calls [OF 2] callback_calls [OF 5] callback_calls [OF 7]
      set_state_calls [OF 1] set_state_calls [OF 4] by auto
qed

text \<open>C7: a run of a top level actor that ends has made its callbacks in this order: \<open>on_start\<close> once, whole
  messages (\<open>pre_run\<close>, the handler, \<open>post_run\<close>), \<open>on_stopping\<close> once, whole messages, \<open>on_stopped\<close> once, whole
  messages, \<open>on_end\<close> once.\<close>

theorem run_actor_lifecycle:
  assumes "run_actor T P (executor_new a c w) = Some (Done (), E)"
  shows "\<exists>running stopping draining.
    map fst (calls E) = OnStart # running @ OnStopping # stopping @ OnStopped # draining @ [OnEnd] \<and>
    message_cycles running \<and> message_cycles stopping \<and> message_cycles draining"
proof -
  from assms obtain E1 E2 E3 r1 r2 r3 where
    1: "callback OnStart (on_start P) (executor_new a c w) = Some (Done r1, E1)" and
    2: "io_loop (run_round T P) E1 = Some (Done r2, E2)" and
    3: "shutdown T P E2 = Some (Done r3, E3)" and
    4: "answer_awaiter T E3 = Some (Done (), E)"
    by (rule run_actor_DoneE)
  obtain running where "map fst (calls E2) = map fst (calls E1) @ running" "message_cycles running"
    using cycles.run_loop_keeps 2 by (rule cycles_calls)
  moreover obtain stopping draining where
    "map fst (calls E3) = map fst (calls E2) @ OnStopping # stopping @ OnStopped # draining @ [OnEnd]"
    "message_cycles stopping" "message_cycles draining"
    using 3 by (rule shutdown_calls)
  ultimately show ?thesis
    using callback_calls [OF 1] answer_awaiter_calls [OF 4]
    by (intro exI [of _ running] exI [of _ stopping] exI [of _ draining]) (simp add: executor_new_def)
qed

text \<open>The same of a supervised child.\<close>

theorem run_supervised_actor_lifecycle:
  assumes "run_supervised_actor T P (executor_child a c rx w) = Some (Done (), E)"
  shows "\<exists>running stopping draining.
    map fst (calls E) = OnStart # running @ OnStopping # stopping @ OnStopped # draining @ [OnEnd] \<and>
    message_cycles running \<and> message_cycles stopping \<and> message_cycles draining"
proof -
  from assms obtain E1 E2 r1 r2 where
    1: "callback OnStart (on_start P) (executor_child a c rx w) = Some (Done r1, E1)" and
    2: "io_loop (supervised_round T P) E1 = Some (Done r2, E2)" and
    3: "shutdown T P E2 = Some (Done (), E)"
    by (rule run_supervised_DoneE)
  obtain running where "map fst (calls E2) = map fst (calls E1) @ running" "message_cycles running"
    using cycles.supervised_loop_keeps 2 by (rule cycles_calls)
  moreover obtain stopping draining where
    "map fst (calls E) = map fst (calls E2) @ OnStopping # stopping @ OnStopped # draining @ [OnEnd]"
    "message_cycles stopping" "message_cycles draining"
    using 3 by (rule shutdown_calls)
  ultimately show ?thesis
    using callback_calls [OF 1]
    by (intro exI [of _ running] exI [of _ stopping] exI [of _ draining]) (simp add: executor_child_def)
qed


section \<open>The life cycle state\<close>

text \<open>
  What well-behaved user code and the framework's own handlers leave of a context: its channels and
  its semaphore, and a state that only moved forward.
\<close>

definition ctx_moves :: "ctx \<Rightarrow> ctx \<Rightarrow> bool" where
  "ctx_moves c c' \<longleftrightarrow>
     address c' = address c \<and> mailbox c' = mailbox c \<and> notifier c' = notifier c \<and>
     max_anonymous_actors c' = max_anonymous_actors c \<and> state c \<le> state c'"

definition env_moves :: "('a, 'w) env \<Rightarrow> ('a, 'w) env \<Rightarrow> bool" where
  "env_moves e e' \<longleftrightarrow> ctx_moves (fst (snd e)) (fst (snd e'))"

lemma ctx_moves_refl [simp]: "ctx_moves c c"
  by (simp add: ctx_moves_def)

lemma ctx_moves_trans: "ctx_moves c d \<Longrightarrow> ctx_moves d e \<Longrightarrow> ctx_moves c e"
  by (auto simp: ctx_moves_def)

lemma ctx_evolves_moves: "ctx_evolves c c' \<Longrightarrow> ctx_moves c c'"
  by (simp add: ctx_evolves_def ctx_moves_def)

interpretation moves: frame_rel env_moves
  by unfold_locales (auto simp: env_moves_def intro: ctx_moves_trans)

definition well_behaved_actor :: "('a, 'm, 'w) tokio \<Rightarrow> ('a, 'm, 'w) actor_ops \<Rightarrow> bool" where
  "well_behaved_actor T P \<longleftrightarrow>
     well_behaved T (on_start P) \<and> well_behaved T (pre_run P) \<and> well_behaved T (post_run P) \<and>
     well_behaved T (on_stopping P) \<and> well_behaved T (on_stopped P) \<and> well_behaved T (on_end P) \<and>
     (\<forall>m. well_behaved T (handle_send P m)) \<and> (\<forall>m. well_behaved T (handle_ask P m)) \<and>
     (\<forall>m. well_behaved T (handle_async_ask P m))"

text \<open>\<open>spawn_blocking\<close>: a joined task has run its closure.\<close>

definition blocking_runs :: "('a, 'm, 'w) tokio \<Rightarrow> bool" where
  "blocking_runs T \<longleftrightarrow> (\<forall>m s t. spawn_blocking T m s = Some (Done (Inr ()), t) \<longrightarrow> m s = Some (Done (), t))"

lemma well_behaved_moves: "well_behaved T h \<Longrightarrow> keeps env_moves h"
  by (auto simp: keeps_def env_moves_def intro: ctx_evolves_moves well_behaved_evolves)

lemma in_ctx_moves:
  assumes "keeps cworld_evolves m"
  shows "keeps env_moves (in_ctx m)"
  using assms
  by (fastforce simp: keeps_def io_simps env_moves_def cworld_evolves_def
      intro: ctx_evolves_moves split: option.splits)

lemma in_actor_moves: "keeps env_moves (in_actor m)"
  by (auto simp: keeps_def io_simps env_moves_def split: option.splits)

lemma private_handler_moves: "keeps env_moves (private_handler T m)"
proof (cases m)
  case (InternalShutdown s)
  then show ?thesis
    by (auto simp: keeps_def shutdown_handler_def io_simps env_moves_def ctx_moves_def stop_def
        subscribe_and_stop_def subscribe_and_wait_def set_into_future_sender_def
        split: option.splits if_splits)
next
  case (InternalAnonymous c)
  then show ?thesis by (cases c) (simp_all add: moves.keeps_ret)
qed

lemma unwrap_moves: "keeps env_moves (unwrap v)"
  by (auto simp: unwrap_def split: option.split intro: moves.keeps_rules)

lemma envelope_unwrap_moves: "keeps env_moves (envelope_unwrap e)"
  unfolding envelope_unwrap_def by (intro moves.keeps_rules unwrap_moves)

lemma confidential_unwrap_moves: "keeps env_moves (confidential_unwrap e)"
  unfolding confidential_unwrap_def by (intro moves.keeps_rules unwrap_moves)

lemma in_world_moves: "keeps env_moves (in_ctx (in_world m))"
  by (rule in_ctx_moves) (rule frames_keeps [OF in_world_evolves])

lemmas moves_rules =
  moves.keeps_rules unwrap_moves envelope_unwrap_moves confidential_unwrap_moves in_world_moves
  in_actor_moves private_handler_moves
  in_ctx_moves [OF frames_keeps [OF anonymous_task_evolves]]

lemma send_message_moves:
  assumes "well_behaved_actor T P"
  shows "keeps env_moves (send_message T P b)"
proof -
  have h: "keeps env_moves (handle_send P m)" "keeps env_moves (handle_ask P m)"
    "keeps env_moves (handle_async_ask P m)" for m
    using assms by (auto simp: well_behaved_actor_def intro: well_behaved_moves)
  show ?thesis
    by (cases b)
      (auto simp: deliver_confidential_def deliver_envelope_def deliver_response_def
        deliver_async_response_def split: prod.split ask_result.split async_handle.split
        intro!: moves_rules h)
qed

lemma on_env_SomeE:
  assumes "on_env m E = Some (x, E')"
  obtains a c w where "m (actor E, ectx E, world E) = Some (x, (a, c, w))"
    "E' = E\<lparr>actor := a, ectx := c, world := w\<rparr>"
  using assms by (auto simp: on_env_run split: option.splits prod.splits)

lemma on_env_moves:
  assumes "keeps env_moves m" "on_env m E = Some (Done r, E')"
  shows "ctx_moves (ectx E) (ectx E') \<and> calls E' = calls E"
  using assms(2) keepsD [OF assms(1)] by (elim on_env_SomeE) (fastforce simp: env_moves_def)

lemma deliver_blocking_runs:
  assumes T: "blocking_runs T" and run: "deliver_blocking T P msg E = Some (Done r, E')"
  shows "on_env (io_bind (send_message T P msg) (\<lambda>res. in_actor (resolve_drop T res))) E = Some (Done (), E')"
proof -
  let ?m = "io_bind (send_message T P msg) (\<lambda>res. in_actor (resolve_drop T res))"
  from run have "on_env (spawn_blocking T ?m) E = Some (Done (Inr ()), E')"
    by (auto simp: deliver_blocking_def io_bind_run ret_run panic_run
        split: option.splits res.splits sum.splits)
  then obtain a c w where j: "spawn_blocking T ?m (actor E, ectx E, world E) = Some (Done (Inr ()), (a, c, w))"
    and E': "E' = E\<lparr>actor := a, ectx := c, world := w\<rparr>"
    by (rule on_env_SomeE)
  from j T have "?m (actor E, ectx E, world E) = Some (Done (), (a, c, w))"
    unfolding blocking_runs_def by blast
  with E' show ?thesis by (simp add: on_env_run)
qed

lemma deliver_moves:
  assumes T: "blocking_runs T" and P: "well_behaved_actor T P"
    and run: "(case box_scheduler P msg of Blocking \<Rightarrow> deliver_blocking T P msg
      | NonBlocking \<Rightarrow> deliver_nonblocking T P msg) E = Some (Done r, E')"
  shows "ctx_moves (ectx E) (ectx E') \<and> calls E' = calls E"
proof (cases "box_scheduler P msg")
  case Blocking
  have "keeps env_moves (io_bind (send_message T P msg) (\<lambda>res. in_actor (resolve_drop T res)))"
    by (intro moves_rules send_message_moves [OF P])
  moreover have "on_env (io_bind (send_message T P msg) (\<lambda>res. in_actor (resolve_drop T res))) E = Some (Done (), E')"
    using T run Blocking by (auto intro: deliver_blocking_runs)
  ultimately show ?thesis by (intro on_env_moves)
next
  case NonBlocking
  have "keeps env_moves (io_bind (send_message T P msg) (\<lambda>res. in_actor (resolve_await T res)))"
    by (intro moves_rules send_message_moves [OF P])
  with run NonBlocking show ?thesis
    by (auto simp: deliver_nonblocking_def dest: on_env_moves)
qed

text \<open>
  Between two executor states of one phase: the context moved, and the states the callbacks of that
  phase were made in lie in order between the first and the last.
\<close>

definition forward :: "('a, 'm, 'w) executor \<Rightarrow> ('a, 'm, 'w) executor \<Rightarrow> bool" where
  "forward E E' \<longleftrightarrow> ctx_moves (ectx E) (ectx E') \<and>
     (\<exists>log. calls E' = calls E @ log \<and> sorted (map snd log) \<and>
        (\<forall>s \<in> snd ` set log. state (ectx E) \<le> s \<and> s \<le> state (ectx E')))"

lemma forward_trans:
  assumes "forward E F" "forward F G"
  shows "forward E G"
proof -
  obtain l1 l2 where l: "calls F = calls E @ l1" "sorted (map snd l1)"
    "\<forall>s \<in> snd ` set l1. state (ectx E) \<le> s \<and> s \<le> state (ectx F)"
    "calls G = calls F @ l2" "sorted (map snd l2)"
    "\<forall>s \<in> snd ` set l2. state (ectx F) \<le> s \<and> s \<le> state (ectx G)"
    using assms by (auto simp: forward_def)
  have m: "ctx_moves (ectx E) (ectx F)" "ctx_moves (ectx F) (ectx G)"
    using assms by (simp_all add: forward_def)
  have "sorted (map snd (l1 @ l2))"
    using l order_trans by (fastforce simp: sorted_append)
  moreover have "state (ectx E) \<le> s \<and> s \<le> state (ectx G)" if "s \<in> snd ` set (l1 @ l2)" for s
  proof -
    have "s \<in> snd ` set l1 \<or> s \<in> snd ` set l2" using that by auto
    then show ?thesis using l m by (meson ctx_moves_def order_trans)
  qed
  ultimately show ?thesis
    using l m ctx_moves_trans by (auto simp: forward_def intro!: exI [of _ "l1 @ l2"])
qed

interpretation forward: frame_rel forward
proof unfold_locales
  show "forward E E" for E :: "('a, 'm, 'w) executor"
    by (simp add: forward_def)
qed (rule forward_trans)

lemma forward_moves: "ctx_moves (ectx E) (ectx E') \<Longrightarrow> calls E' = calls E \<Longrightarrow> forward E E'"
  by (simp add: forward_def)

lemma log_call_forward: "keeps forward (log_call cb)"
  unfolding log_call_def by (rule forward.keeps_modify) (simp add: forward_def)

lemma callback_forward: "well_behaved T h \<Longrightarrow> keeps forward (callback cb h)"
  unfolding callback_def
  by (intro forward.keeps_seq log_call_forward keepsI forward_moves)
    (blast dest: well_behaved_moves on_env_moves)+

lemma process_message_forward:
  assumes "blocking_runs T" "well_behaved_actor T P"
  shows "keeps forward (process_message T P msg)"
  unfolding process_message_def
  using assms
  by (intro forward.keeps_rules log_call_forward callback_forward)
    (auto simp: well_behaved_actor_def intro!: keepsI forward_moves dest: deliver_moves [rotated 2])

lemma set_overflow_forward: "keeps forward (set_overflow n)"
  unfolding set_overflow_def
  by (rule forward.keeps_modify) (simp add: forward_def ctx_moves_def)

lemma world_forward: "forward E (E\<lparr>world := w\<rparr>)"
  by (simp add: forward_def)

lemma in_w_forward: "keeps forward (in_w m)"
  by (auto simp: keeps_def in_w_run world_forward split: option.splits)

lemma check_anonymous_actors_forward: "keeps forward (check_anonymous_actors T P)"
  unfolding check_anonymous_actors_def acquire_and_drop_def usize_sub_def
  by (intro forward.keeps_rules in_w_forward set_overflow_forward allI conjI impI
      forward.keeps_bind | simp split: if_splits)+


text \<open>Whole phases, under the two assumptions on the code the executor calls.\<close>

definition forward_if ::
  "('a, 'm, 'w) tokio \<Rightarrow> ('a, 'm, 'w) actor_ops \<Rightarrow> ('a, 'm, 'w) executor \<Rightarrow> ('a, 'm, 'w) executor \<Rightarrow> bool" where
  "forward_if T P E E' \<longleftrightarrow> blocking_runs T \<and> well_behaved_actor T P \<longrightarrow> forward E E'"

lemma keeps_forward_if:
  "(blocking_runs T \<Longrightarrow> well_behaved_actor T P \<Longrightarrow> keeps forward m) \<Longrightarrow> keeps (forward_if T P) m"
  by (auto simp: keeps_def forward_if_def)

interpretation forward_if: executor_parts "forward_if T P" T P for T P
proof unfold_locales
  show "forward_if T P E E" for E
    by (simp add: forward_if_def forward.refl)
  show "forward_if T P E F \<Longrightarrow> forward_if T P F G \<Longrightarrow> forward_if T P E G" for E F G
    by (auto simp: forward_if_def intro: forward.trans)
  show "forward_if T P E (E\<lparr>world := w\<rparr>)" for E w
    by (simp add: forward_if_def world_forward)
qed (blast intro: keeps_forward_if process_message_forward check_anonymous_actors_forward)+

lemma forward_ifD:
  "keeps (forward_if T P) m \<Longrightarrow> blocking_runs T \<Longrightarrow> well_behaved_actor T P \<Longrightarrow>
     m E = Some (Done r, E') \<Longrightarrow> forward E E'"
  by (auto simp: keeps_def forward_if_def)

lemma forwardE:
  assumes "forward E E'"
  obtains log where "calls E' = calls E @ log" "sorted (map snd log)"
    "\<forall>(cb, s) \<in> set log. state (ectx E) \<le> s \<and> s \<le> state (ectx E')"
    "state (ectx E) \<le> state (ectx E')"
  using assms by (fastforce simp: forward_def ctx_moves_def)

lemma callback_log:
  assumes "well_behaved T h" "callback cb h E = Some (Done r, E')"
  shows "calls E' = calls E @ [(cb, state (ectx E))] \<and> state (ectx E) \<le> state (ectx E')"
  using assms(2)
  by (auto simp: callback_def log_call_def io_seq_run modify_run
      dest!: on_env_moves [OF well_behaved_moves [OF assms(1)]] simp: ctx_moves_def)

lemma set_state_run: "set_state st E = Some (Done (), E\<lparr>ectx := (ectx E)\<lparr>state := st\<rparr>\<rparr>)"
  by (simp add: set_state_def io_simps)

lemma answer_awaiter_state:
  "answer_awaiter T E = Some (Done r, E') \<Longrightarrow> state (ectx E') = state (ectx E)"
  by (auto simp: answer_awaiter_def io_simps split: option.splits res.splits prod.splits)

lemma shutdown_states:
  assumes hyps: "blocking_runs T" "well_behaved_actor T P"
    and run: "shutdown T P E = Some (Done r, E')"
  obtains stopping draining where
    "calls E' = calls E @ (OnStopping, Stopping) # stopping @ (OnStopped, Stopped) # draining"
    "\<forall>(cb, s) \<in> set stopping. s \<noteq> Running" "sorted (map snd stopping)"
    "\<forall>(cb, s) \<in> set draining. s = Stopped"
    "state (ectx E') = Stopped"
proof -
  from run obtain E1 E2 E3 E4 E5 E6 r1 r2 r3 r4 r5 r6 where
    1: "set_state Stopping E = Some (Done r1, E1)" and
    2: "callback OnStopping (on_stopping P) E1 = Some (Done r2, E2)" and
    3: "stopping T P E2 = Some (Done r3, E3)" and
    4: "set_state Stopped E3 = Some (Done r4, E4)" and
    5: "callback OnStopped (on_stopped P) E4 = Some (Done r5, E5)" and
    6: "executor_stop T P E5 = Some (Done r6, E6)" and
    7: "callback OnEnd (on_end P) E6 = Some (Done r, E')"
    by (rule shutdown_DoneE)
  have h: "well_behaved T (on_stopping P)" "well_behaved T (on_stopped P)" "well_behaved T (on_end P)"
    using hyps(2) by (simp_all add: well_behaved_actor_def)
  obtain stopping where s: "calls E3 = calls E2 @ stopping" "sorted (map snd stopping)"
    "\<forall>(cb, s) \<in> set stopping. state (ectx E2) \<le> s \<and> s \<le> state (ectx E3)"
    using forward_ifD [OF forward_if.stopping_keeps hyps 3] by (rule forwardE)
  obtain draining where d: "calls E6 = calls E5 @ draining"
    "\<forall>(cb, s) \<in> set draining. state (ectx E5) \<le> s \<and> s \<le> state (ectx E6)"
    "state (ectx E5) \<le> state (ectx E6)"
    using forward_ifD [OF forward_if.stop_keeps hyps 6] by (rule forwardE)
  have E1: "calls E1 = calls E" "state (ectx E1) = Stopping"
    using 1 by (auto simp: set_state_run)
  have E4: "calls E4 = calls E3" "state (ectx E4) = Stopped"
    using 4 by (auto simp: set_state_run)
  have l: "calls E2 = calls E1 @ [(OnStopping, Stopping)]" "state (ectx E2) \<noteq> Running"
    "calls E5 = calls E4 @ [(OnStopped, Stopped)]" "state (ectx E5) = Stopped"
    using callback_log [OF h(1) 2] callback_log [OF h(2) 5] E1 E4 by auto
  have e: "calls E' = calls E6 @ [(OnEnd, Stopped)]" "state (ectx E') = Stopped"
    using callback_log [OF h(3) 7] d l by auto
  show thesis
  proof (rule that [of stopping "draining @ [(OnEnd, Stopped)]"])
    show "calls E' = calls E @ (OnStopping, Stopping) # stopping @ (OnStopped, Stopped) #
        draining @ [(OnEnd, Stopped)]"
      using s d E1 E4 l e by simp
    show "\<forall>(cb, s) \<in> set stopping. s \<noteq> Running"
      using s(3) l(2) by auto
    show "\<forall>(cb, s) \<in> set (draining @ [(OnEnd, Stopped)]). s = Stopped"
      using d(2) l(4) by auto
  qed (use s e in simp_all)
qed

text \<open>C8: the life cycle states the callbacks see: in order while the actor runs; from \<open>on_stopping\<close>, which
  sees \<open>Stopping\<close>, never \<open>Running\<close> again and still in order; and \<open>Stopped\<close> from \<open>on_stopped\<close> to the end.\<close>

theorem run_actor_states:
  assumes "blocking_runs T" "well_behaved_actor T P"
    and "run_actor T P (executor_new a c w) = Some (Done (), E)"
  shows "state (ectx E) = Stopped \<and>
    (\<exists>running stopping draining.
      calls E = running @ (OnStopping, Stopping) # stopping @ (OnStopped, Stopped) # draining \<and>
      sorted (map snd running) \<and> sorted (map snd stopping) \<and>
      (\<forall>(cb, s) \<in> set stopping. s \<noteq> Running) \<and> (\<forall>(cb, s) \<in> set draining. s = Stopped))"
proof -
  from assms(3) obtain E1 E2 E3 r1 r2 r3 where
    1: "callback OnStart (on_start P) (executor_new a c w) = Some (Done r1, E1)" and
    2: "io_loop (run_round T P) E1 = Some (Done r2, E2)" and
    3: "shutdown T P E2 = Some (Done r3, E3)" and
    4: "answer_awaiter T E3 = Some (Done (), E)"
    by (rule run_actor_DoneE)
  have "well_behaved T (on_start P)" using assms(2) by (simp add: well_behaved_actor_def)
  then have "forward (executor_new a c w) E1" by (rule keepsD [OF callback_forward 1])
  moreover have "forward E1 E2" using forward_ifD [OF forward_if.run_loop_keeps assms(1,2) 2] .
  ultimately have "forward (executor_new a c w) E2" by (rule forward.trans)
  then obtain running where r: "calls E2 = running" "sorted (map snd running)"
    by (rule forwardE) (simp add: executor_new_def)
  show ?thesis
    using shutdown_states [OF assms(1,2) 3] answer_awaiter_calls [OF 4] answer_awaiter_state [OF 4] r
    by metis
qed

end
