(* ===== verification/Worlds.thy ===== *)
theory Worlds
  imports Lifecycle
begin

text \<open>
  What whole runs do to the world, for any relation between worlds: a relation that the functions of the
  runtime and the user's code keep is kept by the library (\<open>envelope.rs\<close>, \<open>executor.rs\<close>), one operation after
  the other. Mail instantiates it with the growth of a mailbox, Family with what parents and children promise
  each other.
\<close>

section \<open>Relations of worlds\<close>

definition pair_rel :: "('w \<Rightarrow> 'w \<Rightarrow> bool) \<Rightarrow> 'c \<times> 'w \<Rightarrow> 'c \<times> 'w \<Rightarrow> bool" where
  "pair_rel R p q \<longleftrightarrow> R (snd p) (snd q)"

definition env_rel :: "('w \<Rightarrow> 'w \<Rightarrow> bool) \<Rightarrow> ('a, 'w) env \<Rightarrow> ('a, 'w) env \<Rightarrow> bool" where
  "env_rel R p q \<longleftrightarrow> R (snd (snd p)) (snd (snd q))"

definition exec_rel :: "('w \<Rightarrow> 'w \<Rightarrow> bool) \<Rightarrow> ('a, 'm, 'w) executor \<Rightarrow> ('a, 'm, 'w) executor \<Rightarrow> bool" where
  "exec_rel R E E' \<longleftrightarrow> R (world E) (world E')"

text \<open>
  The hypotheses. The library drops no receiver of a watch channel but those it has subscribed itself:
  \<open>mine\<close> says which they are.
\<close>

definition runtime_keeps ::
  "('a, 'm, 'w) tokio \<Rightarrow> ('w \<Rightarrow> 'w \<Rightarrow> bool) \<Rightarrow> (handle \<Rightarrow> 'w \<Rightarrow> bool) \<Rightarrow> bool" where
  "runtime_keeps T R mine \<longleftrightarrow>
     (\<forall>h m. keeps R (call (oneshot_send T h m))) \<and>
     (\<forall>h a. keeps R (call (oneshot_send_actor T h a))) \<and>
     (\<forall>h. keeps R (modify (oneshot_drop_tx T h))) \<and>
     (\<forall>h. keeps R (call (watch_subscribe T h))) \<and>
     (\<forall>h. triple (\<lambda>_. True) (call (watch_subscribe T h)) mine) \<and>
     (\<forall>h. keeps R (call (watch_borrow_and_update T h))) \<and>
     (\<forall>h w. mine h w \<longrightarrow> R w (watch_drop_rx T h w)) \<and>
     (\<forall>h v. keeps R (modify (watch_send T h v))) \<and>
     (\<forall>r h p f. keeps R (call (spawn T (AnonymousUnit r h p f)))) \<and>
     (\<forall>h. keeps R (call (sem_try_acquire T h))) \<and>
     (\<forall>h n. keeps R (await (sem_acquire_many T h n))) \<and>
     (\<forall>h. keeps R (modify (permit_drop T h))) \<and>
     (\<forall>h b. keeps R (await (mpsc_send T h b))) \<and>
     (\<forall>h m. keeps (pair_rel R) m \<longrightarrow> keeps (pair_rel R) (select_answer T h m))"

definition user_keeps :: "('a, 'm, 'w) actor_ops \<Rightarrow> ('w \<Rightarrow> 'w \<Rightarrow> bool) \<Rightarrow> bool" where
  "user_keeps P R \<longleftrightarrow>
     keeps (env_rel R) (on_start P) \<and> keeps (env_rel R) (pre_run P) \<and> keeps (env_rel R) (post_run P) \<and>
     keeps (env_rel R) (on_stopping P) \<and> keeps (env_rel R) (on_stopped P) \<and> keeps (env_rel R) (on_end P) \<and>
     (\<forall>m. keeps (env_rel R) (handle_send P m)) \<and> (\<forall>m. keeps (env_rel R) (handle_ask P m)) \<and>
     (\<forall>m. triple (\<lambda>_. True) (handle_async_ask P m) (\<lambda>fut _. keeps (pair_rel R) fut) \<and>
        keeps (env_rel R) (handle_async_ask P m))"

definition takings_keep :: "('a, 'm, 'w) tokio \<Rightarrow> ('w \<Rightarrow> 'w \<Rightarrow> bool) \<Rightarrow> bool" where
  "takings_keep T R \<longleftrightarrow>
     (\<forall>h. keeps R (await (mpsc_recv T h))) \<and> (\<forall>h. keeps R (call (mpsc_try_recv T h))) \<and>
     (\<forall>h. keeps R (modify (mpsc_close T h))) \<and> (\<forall>h k. keeps R (await (select_supervised T h k))) \<and>
     (\<forall>h n. keeps R (await (select_stopping T h n)))"

text \<open>The operations with which an actor makes another, and a send that does not wait.\<close>

definition makings_keep :: "('a, 'm, 'w) tokio \<Rightarrow> ('w \<Rightarrow> 'w \<Rightarrow> bool) \<Rightarrow> bool" where
  "makings_keep T R \<longleftrightarrow>
     (\<forall>n. keeps R (call (mpsc_channel T n))) \<and> keeps R (call (watch_channel T)) \<and>
     (\<forall>n. keeps R (call (sem_new T n))) \<and> (\<forall>h b. keeps R (call (mpsc_try_send T h b)))"

lemma makings_keepD:
  assumes "makings_keep T R"
  shows "keeps R (call (mpsc_channel T n))" "keeps R (call (watch_channel T))"
    and "keeps R (call (sem_new T k))" "keeps R (call (mpsc_try_send T h b))"
  using assms unfolding makings_keep_def by blast+

lemma runtime_keepsD:
  assumes "runtime_keeps T R mine"
  shows "keeps R (call (oneshot_send T h m))"
    and "keeps R (call (oneshot_send_actor T h a))"
    and "keeps R (modify (oneshot_drop_tx T h))"
    and "keeps R (call (watch_subscribe T h))"
    and "triple (\<lambda>_. True) (call (watch_subscribe T h)) mine"
    and "keeps R (call (watch_borrow_and_update T h))"
    and "mine h w \<Longrightarrow> R w (watch_drop_rx T h w)"
    and "keeps R (modify (watch_send T h v))"
    and "keeps R (call (spawn T (AnonymousUnit r h p f)))"
    and "keeps R (call (sem_try_acquire T h))"
    and "keeps R (await (sem_acquire_many T h n))"
    and "keeps R (modify (permit_drop T h))"
    and "keeps R (await (mpsc_send T h b))"
    and "keeps (pair_rel R) g \<Longrightarrow> keeps (pair_rel R) (select_answer T h g)"
  using assms unfolding runtime_keeps_def by (simp_all del: split_paired_All)

lemma user_keepsD:
  assumes "user_keeps P R"
  shows "keeps (env_rel R) (on_start P)" "keeps (env_rel R) (pre_run P)"
    "keeps (env_rel R) (post_run P)" "keeps (env_rel R) (on_stopping P)"
    "keeps (env_rel R) (on_stopped P)" "keeps (env_rel R) (on_end P)"
    "keeps (env_rel R) (handle_send P m)" "keeps (env_rel R) (handle_ask P m)"
    "keeps (env_rel R) (handle_async_ask P m)"
    "triple (\<lambda>_. True) (handle_async_ask P m) (\<lambda>fut _. keeps (pair_rel R) fut)"
  using assms by (simp_all add: user_keeps_def)

lemma takings_keepD:
  assumes "takings_keep T R"
  shows "keeps R (await (mpsc_recv T h))" "keeps R (call (mpsc_try_recv T h))" "keeps R (modify (mpsc_close T h))"
    "keeps R (await (select_supervised T h k))" "keeps R (await (select_stopping T h n))"
  using assms by (simp_all add: takings_keep_def)

lemma keeps_modifyD: "keeps R (modify f) \<Longrightarrow> R s (f s)"
  by (simp add: keeps_def modify_run)

lemma keeps_callD: "keeps R (call f) \<Longrightarrow> f s = (r, t) \<Longrightarrow> R s t"
  by (auto simp: keeps_def call_run)

lemma keeps_awaitD: "keeps R (await f) \<Longrightarrow> f s = Some (r, t) \<Longrightarrow> R s t"
  by (auto simp: keeps_def await_run split: option.splits)

lemma triple_True_bind:
  "(\<And>r. triple (\<lambda>_. True) (k r) Q) \<Longrightarrow> triple (\<lambda>_. True) (io_bind m k) Q"
  by (fastforce simp: triple_def io_simps split: option.splits res.splits)

lemma triple_True_seq: "triple (\<lambda>_. True) n Q \<Longrightarrow> triple (\<lambda>_. True) (io_seq m n) Q"
  unfolding io_seq_def by (rule triple_True_bind)

lemma triple_any: "triple (\<lambda>_. True) m (\<lambda>_ _. True)"
  by (simp add: triple_def)

lemma keeps_bind_triple:
  assumes "frame_rel R" "keeps R m" "triple (\<lambda>_. True) m Q" "\<And>r s x t. Q r s \<Longrightarrow> k r s = Some (Done x, t) \<Longrightarrow> R s t"
  shows "keeps R (io_bind m k)"
proof (rule keepsI)
  fix s x t
  assume "io_bind m k s = Some (Done x, t)"
  then obtain r u where m: "m s = Some (Done r, u)" and k: "k r u = Some (Done x, t)" by (rule io_bind_DoneE)
  have "R s u" using keepsD [OF assms(2) m] .
  moreover have "R u t" using assms(4) [OF tripleD [OF assms(3) _ m] k] by simp
  ultimately show "R s t" using assms(1) by (auto simp: frame_rel_def)
qed

text \<open>The hypotheses about an actor on its runtime.\<close>

definition world_hyps ::
  "('w \<Rightarrow> 'w \<Rightarrow> bool) \<Rightarrow> (handle \<Rightarrow> 'w \<Rightarrow> bool) \<Rightarrow> ('a, 'm, 'w) tokio \<Rightarrow> ('a, 'm, 'w) actor_ops \<Rightarrow> bool" where
  "world_hyps R mine T P \<longleftrightarrow> blocking_runs T \<and> runtime_keeps T R mine \<and> takings_keep T R \<and> user_keeps P R"

section \<open>The contract\<close>

locale kept_world = frame_rel R for R :: "'w \<Rightarrow> 'w \<Rightarrow> bool" +
  fixes mine :: "handle \<Rightarrow> 'w \<Rightarrow> bool"
  assumes mine_stays: "R w w' \<Longrightarrow> mine h w \<Longrightarrow> mine h w'"

sublocale kept_world \<subseteq> pair: frame_rel "pair_rel R"
  by unfold_locales (auto simp: pair_rel_def intro: refl trans)

sublocale kept_world \<subseteq> env: frame_rel "env_rel R"
  by unfold_locales (auto simp: env_rel_def intro: refl trans)

sublocale kept_world \<subseteq> exec: frame_rel "exec_rel R"
  by unfold_locales (auto simp: exec_rel_def intro: refl trans)

context kept_world
begin

text \<open>Through the parts of the state.\<close>

lemma in_world_keeps: "keeps R m \<Longrightarrow> keeps (pair_rel R) (in_world m)"
  by (auto simp: keeps_def in_world_run pair_rel_def split: option.splits)

lemma on_world_keeps: "keeps R m \<Longrightarrow> keeps (pair_rel R) (on_world m)"
  by (auto simp: keeps_def on_world_run pair_rel_def split: option.splits)

lemma in_ctx_keeps: "keeps (pair_rel R) m \<Longrightarrow> keeps (env_rel R) (in_ctx m)"
  by (fastforce simp: keeps_def in_ctx_run pair_rel_def env_rel_def split: option.splits)

lemma in_actor_keeps: "keeps (pair_rel R) m \<Longrightarrow> keeps (env_rel R) (in_actor m)"
  by (fastforce simp: keeps_def in_actor_run pair_rel_def env_rel_def split: option.splits)

lemma on_env_keeps: "keeps (env_rel R) m \<Longrightarrow> keeps (exec_rel R) (on_env m)"
  by (fastforce simp: keeps_def on_env_run env_rel_def exec_rel_def split: option.splits)

lemma in_w_keeps: "keeps R m \<Longrightarrow> keeps (exec_rel R) (in_w m)"
  by (auto simp: keeps_def in_w_run exec_rel_def split: option.splits)

lemma keeps_comp: "keeps R (modify f) \<Longrightarrow> R w (g w) \<Longrightarrow> R w ((f \<circ> g) w)"
  by (auto simp: keeps_def modify_run intro: trans)

text \<open>What the library does when it delivers a message.\<close>

lemma internal_send_async_keeps: "runtime_keeps T R mine \<Longrightarrow> keeps R (internal_send_async T r m)"
  unfolding internal_send_async_eq by (intro keeps_rules runtime_keepsD(13))

lemma acquire_permit_keeps:
  assumes "runtime_keeps T R mine"
  shows "keeps (pair_rel R) (acquire_anonymous_permit T)"
  unfolding acquire_anonymous_permit_def
proof (intro pair.keeps_rules in_world_keeps runtime_keepsD(10) [OF assms], goal_cases)
  case (1 self res)
  have "keeps (pair_rel R) (modify (\<lambda>(c, w). (c\<lparr>overflow_anonymous_actors := n\<rparr>, w)))" for n
    by (rule pair.keeps_modify) (auto simp: pair_rel_def intro: refl)
  then show ?case
    by (auto simp: usize_add_def split: sum.split try_acquire_error.split intro!: pair.keeps_rules)
qed

lemma anonymous_task_keeps: "runtime_keeps T R mine \<Longrightarrow> keeps (pair_rel R) (anonymous_task T u)"
  unfolding anonymous_task_def
  by (intro pair.keeps_rules in_world_keeps acquire_permit_keeps runtime_keepsD(4,9))

lemma ctx_new_keeps: "makings_keep T R \<Longrightarrow> keeps R (ctx_new T P)"
  unfolding ctx_new_def by (intro keeps_rules makings_keepD)

lemma shutdown_handler_keeps:
  assumes "runtime_keeps T R mine"
  shows "keeps (env_rel R) (shutdown_handler T m)"
  using runtime_keepsD(3) [OF assms]
  by (auto simp: keeps_def shutdown_handler_def io_simps env_rel_def refl
      subscribe_and_stop_def subscribe_and_wait_def set_into_future_sender_def
      split: option.splits if_splits)

lemma private_handler_keeps:
  assumes "runtime_keeps T R mine"
  shows "keeps (env_rel R) (private_handler T m)"
proof (cases m)
  case (InternalShutdown s)
  then show ?thesis by (simp add: shutdown_handler_keeps [OF assms])
next
  case (InternalAnonymous c)
  then show ?thesis by (cases c) (simp_all add: env.keeps_ret)
qed

lemma unwrap_keeps: "keeps (env_rel R) (unwrap v)"
  by (auto simp: unwrap_def split: option.split intro: env.keeps_rules)

lemma envelope_unwrap_keeps: "keeps (env_rel R) (envelope_unwrap e)"
  unfolding envelope_unwrap_def by (intro env.keeps_rules unwrap_keeps)

lemma confidential_unwrap_keeps: "keeps (env_rel R) (confidential_unwrap e)"
  unfolding confidential_unwrap_def by (intro env.keeps_rules unwrap_keeps)

lemmas deliver_rules =
  env.keeps_rules unwrap_keeps envelope_unwrap_keeps confidential_unwrap_keeps
  private_handler_keeps in_ctx_keeps in_world_keeps anonymous_task_keeps keeps_rules

lemma send_message_keeps:
  assumes T: "runtime_keeps T R mine" and P: "user_keeps P R"
  shows "keeps (env_rel R) (send_message T P b)"
proof (cases b)
  case (BoxConfidential e)
  then show ?thesis
    by (auto simp: deliver_confidential_def split: prod.split intro!: deliver_rules T)
next
  case (BoxEnvelope e)
  then show ?thesis
    by (auto simp: deliver_envelope_def split: prod.split intro!: deliver_rules user_keepsD(7) [OF P])
next
  case (BoxResponse r)
  then show ?thesis
    by (auto simp: deliver_response_def split: prod.split ask_result.split async_handle.split
        intro!: deliver_rules user_keepsD(8) [OF P] runtime_keepsD(1) [OF T] T)
next
  case (BoxAsyncResponse r)
  then show ?thesis
    by (auto simp: deliver_async_response_def split: prod.split
        intro!: deliver_rules user_keepsD(9) [OF P] runtime_keepsD(4,6) [OF T])
qed

text \<open>A future that is left to await is one the user's handler made, and its receiver was subscribed here.\<close>

definition future_kept :: "('a, 'm, 'w) resolve \<Rightarrow> 'w \<Rightarrow> bool" where
  "future_kept res w \<longleftrightarrow>
     (\<forall>fut. resolve_fut res = Some fut \<longrightarrow> keeps (pair_rel R) (af_future fut) \<and> mine (af_rx fut) w)"

lemma keeps_mine:
  assumes "keeps (env_rel R) m" "triple (\<lambda>_. True) m (\<lambda>r _. Q r)"
  shows "triple (\<lambda>(_, _, w). mine h w) m (\<lambda>r (_, _, w). mine h w \<and> Q r)"
  using assms mine_stays by (fastforce simp: triple_def keeps_def env_rel_def)

lemma subscribed_mine:
  assumes "runtime_keeps T R mine"
  shows "triple (\<lambda>_. True) (in_ctx (in_world (call (watch_subscribe T n)))) (\<lambda>rx (_, _, w). mine rx w)"
  using runtime_keepsD(5) [OF assms]
  by (fastforce simp: triple_def io_simps split: option.splits)

lemma send_message_future:
  assumes T: "runtime_keeps T R mine" and P: "user_keeps P R"
  shows "triple (\<lambda>_. True) (send_message T P b) (\<lambda>res (_, _, w). future_kept res w)"
proof (cases b)
  case (BoxAsyncResponse r)
  have b: "triple (\<lambda>(_, _, w). mine h w) (in_ctx (in_world (call (watch_borrow_and_update T h)))) (\<lambda>_ (_, _, w). mine h w)" for h
    by (rule triple_post [OF keeps_mine [OF _ triple_any]])
      (intro in_ctx_keeps in_world_keeps runtime_keepsD(6) [OF T], auto)
  have v: "triple (\<lambda>(_, _, w). mine h w) (unwrap tx :: (handle, ('a, 'w) env) io) (\<lambda>_ (_, _, w). mine h w)" for h tx
    by (rule triple_post [OF keeps_mine [OF unwrap_keeps triple_any]]) auto
  have h: "triple (\<lambda>(_, _, w). mine h w) (handle_async_ask P m)
      (\<lambda>fut (_, _, w). mine h w \<and> keeps (pair_rel R) fut)" for h m
    by (rule keeps_mine [OF user_keepsD(9,10) [OF P]])
  show ?thesis
    unfolding BoxAsyncResponse send_message.simps deliver_async_response_def
    by (rule triple_True_bind, simp split: prod.split, intro allI impI triple_True_bind
        triple_bind [OF subscribed_mine [OF T]] triple_bind [OF b] triple_bind [OF v] triple_bind [OF h] triple_ret)
      (auto simp: future_kept_def resolve_future_def)
qed (auto simp: deliver_confidential_def deliver_envelope_def deliver_response_def split: prod.split
    intro!: triple_True_bind triple_True_seq triple_ret simp: future_kept_def resolve_ready_def)

lemma answer_block_keeps:
  assumes T: "runtime_keeps T R mine" and fut: "keeps (pair_rel R) (af_future fut)" "mine (af_rx fut) (snd s)"
    and run: "answer_block T fut s = Some (Done x, t)"
  shows "pair_rel R s t"
proof -
  from run [unfolded answer_block_def] obtain res u where
    s: "select_answer T (af_rx fut) (af_future fut) s = Some (Done res, u)" and
    k: "on_world (case res of
         None \<Rightarrow>
           io_bind (internal_send_async T (af_supervisor fut) (InternalAnonymous CancelCancel))
             (\<lambda>_. modify (oneshot_drop_tx T (af_tx fut) \<circ> watch_drop_rx T (af_rx fut)))
       | Some response \<Rightarrow>
           io_bind (call (oneshot_send T (af_tx fut) response))
             (\<lambda>_. modify (watch_drop_rx T (af_rx fut)))) u = Some (Done x, t)"
    by (rule io_bind_DoneE)
  have su: "pair_rel R s u" by (rule keepsD [OF runtime_keepsD(14) [OF T fut(1)] s])
  then have m: "mine (af_rx fut) (snd u)" using fut(2) by (auto simp: pair_rel_def intro: mine_stays)
  have "pair_rel R u t"
  proof (cases res)
    case None
    with k obtain r w where
      w: "internal_send_async T (af_supervisor fut) (InternalAnonymous CancelCancel) (snd u) = Some (Done r, w)"
      "snd t = oneshot_drop_tx T (af_tx fut) (watch_drop_rx T (af_rx fut) w)"
      by (cases u) (auto simp: on_world_run modify_run split: option.splits elim!: io_bind_DoneE)
    have 1: "R (snd u) w" by (rule keepsD [OF internal_send_async_keeps [OF T] w(1)])
    have 2: "R w (watch_drop_rx T (af_rx fut) w)"
      by (rule runtime_keepsD(7) [OF T mine_stays [OF 1 m]])
    have "R (watch_drop_rx T (af_rx fut) w) (snd t)"
      unfolding w(2) by (rule keeps_modifyD) (rule runtime_keepsD(3) [OF T])
    with 1 2 show ?thesis unfolding pair_rel_def by (blast intro: trans)
  next
    case (Some response)
    obtain r w where w: "oneshot_send T (af_tx fut) response (snd u) = (r, w)" by force
    then have t: "snd t = watch_drop_rx T (af_rx fut) w"
      using k Some by (cases u) (auto simp: io_simps)
    have 1: "R (snd u) w"
      by (rule keeps_callD [OF runtime_keepsD(1) [OF T] w])
    have "R w (watch_drop_rx T (af_rx fut) w)"
      by (rule runtime_keepsD(7) [OF T mine_stays [OF 1 m]])
    with 1 t show ?thesis unfolding pair_rel_def by (auto intro: trans)
  qed
  with su show ?thesis by (rule pair.trans)
qed

lemma resolve_await_keeps:
  assumes "runtime_keeps T R mine" "future_kept res (snd s)" "resolve_await T res s = Some (Done x, t)"
  shows "pair_rel R s t"
proof (cases "resolve_fut res")
  case None
  with assms(3) show ?thesis by (simp add: resolve_await_def ret_run pair.refl)
next
  case (Some fut)
  with assms(2,3) have "keeps (pair_rel R) (af_future fut)" "mine (af_rx fut) (snd s)"
    "answer_block T fut s = Some (Done x, t)"
    by (simp_all add: resolve_await_def future_kept_def)
  then show ?thesis by (rule answer_block_keeps [OF assms(1)])
qed

lemma resolve_drop_keeps:
  assumes T: "runtime_keeps T R mine" and "future_kept res (snd s)" "resolve_drop T res s = Some (Done x, t)"
  shows "pair_rel R s t"
proof (cases "resolve_fut res")
  case None
  with assms(3) show ?thesis by (simp add: resolve_drop_def ret_run pair.refl)
next
  case (Some fut)
  then have "snd t = oneshot_drop_tx T (af_tx fut) (watch_drop_rx T (af_rx fut) (snd s))"
    using assms(3) by (cases s) (auto simp: resolve_drop_def io_simps)
  moreover have "R (snd s) (watch_drop_rx T (af_rx fut) (snd s))"
    using Some assms(2) by (intro runtime_keepsD(7) [OF T]) (simp add: future_kept_def)
  moreover have "R w (oneshot_drop_tx T (af_tx fut) w)" for w
    by (rule keeps_modifyD) (rule runtime_keepsD(3) [OF T])
  ultimately show ?thesis unfolding pair_rel_def by (auto intro: trans)
qed

lemma in_actor_resolves:
  assumes "\<And>s x t. future_kept res (snd s) \<Longrightarrow> f s = Some (Done x, t) \<Longrightarrow> pair_rel R s t"
    and "case e of (_, _, w) \<Rightarrow> future_kept res w" "in_actor f e = Some (Done x, e')"
  shows "env_rel R e e'"
  using assms(2,3) assms(1) [of "(fst e, snd (snd e))"]
  by (cases e) (fastforce simp: in_actor_run env_rel_def pair_rel_def split: option.splits)

lemma deliver_keeps:
  assumes T: "runtime_keeps T R mine" and P: "user_keeps P R" and B: "blocking_runs T"
    and run: "(case box_scheduler P msg of Blocking \<Rightarrow> deliver_blocking T P msg
      | NonBlocking \<Rightarrow> deliver_nonblocking T P msg) E = Some (Done r, E')"
  shows "exec_rel R E E'"
proof (cases "box_scheduler P msg")
  case Blocking
  have "on_env (io_bind (send_message T P msg) (\<lambda>res. in_actor (resolve_drop T res))) E = Some (Done (), E')"
    using B run Blocking by (auto intro: deliver_blocking_runs)
  moreover have "keeps (env_rel R) (io_bind (send_message T P msg) (\<lambda>res. in_actor (resolve_drop T res)))"
    by (rule keeps_bind_triple [OF env.frame_rel_axioms send_message_keeps [OF T P] send_message_future [OF T P]])
      (rule in_actor_resolves [OF resolve_drop_keeps [OF T]])
  ultimately show ?thesis by (blast intro: keepsD on_env_keeps)
next
  case NonBlocking
  have "keeps (env_rel R) (io_bind (send_message T P msg) (\<lambda>res. in_actor (resolve_await T res)))"
    by (rule keeps_bind_triple [OF env.frame_rel_axioms send_message_keeps [OF T P] send_message_future [OF T P]])
      (rule in_actor_resolves [OF resolve_await_keeps [OF T]])
  with run NonBlocking show ?thesis
    by (auto simp: deliver_nonblocking_def intro: keepsD on_env_keeps)
qed

lemma callback_keeps: "keeps (env_rel R) h \<Longrightarrow> keeps (exec_rel R) (callback cb h)"
  unfolding callback_def log_call_def
  by (intro exec.keeps_seq exec.keeps_modify on_env_keeps) (simp_all add: exec_rel_def refl)

lemma check_anonymous_actors_keeps:
  assumes T: "runtime_keeps T R mine"
  shows "keeps (exec_rel R) (check_anonymous_actors T P)"
proof -
  have o: "keeps (exec_rel R) (set_overflow n)" for n
    unfolding set_overflow_def by (rule exec.keeps_modify) (simp add: exec_rel_def refl)
  have a: "keeps (exec_rel R) (acquire_and_drop T sem n)" for sem n
    unfolding acquire_and_drop_def
    by (intro in_w_keeps keeps_bind runtime_keepsD(11) [OF T])
      (auto split: sum.split intro!: keeps_rules runtime_keepsD(12) [OF T])
  show ?thesis
    unfolding check_anonymous_actors_def usize_sub_def
    by (intro exec.keeps_rules o a allI conjI impI exec.keeps_bind | simp split: if_splits)+
qed

text \<open>One message, one round, one phase.\<close>

lemma process_message_keeps:
  assumes "world_hyps R mine T P"
  shows "keeps (exec_rel R) (process_message T P b)"
proof (rule keepsI)
  fix E r E'
  assume "process_message T P b E = Some (Done r, E')"
  then obtain E1 E2 E3 r1 r2 r3 r4 where
    1: "callback PreRun (pre_run P) E = Some (Done r1, E1)" and
    2: "log_call (Recv b) E1 = Some (Done r2, E2)" and
    3: "(case box_scheduler P b of Blocking \<Rightarrow> deliver_blocking T P b
          | NonBlocking \<Rightarrow> deliver_nonblocking T P b) E2 = Some (Done r3, E3)" and
    4: "callback PostRun (post_run P) E3 = Some (Done r4, E')"
    unfolding process_message_def by (elim io_seq_DoneE) (auto simp: gets_run)
  have H: "blocking_runs T" "runtime_keeps T R mine" "user_keeps P R" using assms by (simp_all add: world_hyps_def)
  have "exec_rel R E E1" by (rule keepsD [OF callback_keeps [OF user_keepsD(2) [OF H(3)]] 1])
  moreover have "exec_rel R E1 E2" using 2 by (auto simp: log_call_def modify_run exec_rel_def refl)
  moreover have "exec_rel R E2 E3" by (rule deliver_keeps [OF H(2,3,1) 3])
  moreover have "exec_rel R E3 E'" by (rule keepsD [OF callback_keeps [OF user_keepsD(3) [OF H(3)]] 4])
  ultimately show "exec_rel R E E'" by (blast intro: exec.trans)
qed

definition world_if ::
  "('a, 'm, 'w) tokio \<Rightarrow> ('a, 'm, 'w) actor_ops \<Rightarrow> ('a, 'm, 'w) executor \<Rightarrow> ('a, 'm, 'w) executor \<Rightarrow> bool" where
  "world_if T P E E' \<longleftrightarrow> world_hyps R mine T P \<longrightarrow> exec_rel R E E'"

lemma world_ifI: "(world_hyps R mine T P \<Longrightarrow> keeps (exec_rel R) m) \<Longrightarrow> keeps (world_if T P) m"
  by (auto simp: keeps_def world_if_def)

lemma world_ifD: "keeps (world_if T P) m \<Longrightarrow> world_hyps R mine T P \<Longrightarrow> keeps (exec_rel R) m"
  by (auto simp: keeps_def world_if_def)

lemma run_round_keeps:
  assumes "world_hyps R mine T P"
  shows "keeps (exec_rel R) (run_round T P)"
proof -
  have H: "runtime_keeps T R mine" "takings_keep T R" using assms by (simp_all add: world_hyps_def)
  show ?thesis
    unfolding run_round_def
    by (intro exec.keeps_rules in_w_keeps takings_keepD(1) [OF H(2)])
      (auto split: option.split intro!: exec.keeps_rules check_anonymous_actors_keeps [OF H(1)]
        process_message_keeps [OF assms])
qed

lemma drain_round_keeps:
  assumes "world_hyps R mine T P"
  shows "keeps (exec_rel R) (drain_round T P)"
proof -
  have H: "takings_keep T R" using assms by (simp add: world_hyps_def)
  show ?thesis
    unfolding drain_round_def
    by (intro exec.keeps_rules in_w_keeps takings_keepD(2) [OF H])
      (auto split: option.split intro!: exec.keeps_rules process_message_keeps [OF assms])
qed

lemma supervised_round_keeps:
  assumes "world_hyps R mine T P"
  shows "keeps (exec_rel R) (supervised_round T P)"
proof -
  have H: "runtime_keeps T R mine" "takings_keep T R" using assms by (simp_all add: world_hyps_def)
  show ?thesis
    unfolding supervised_round_def handle_supervised_message_def unwrap_def
    by (intro exec.keeps_rules check_anonymous_actors_keeps [OF H(1)])
      (auto split: option.split supervised_event.split supervisor_message.split
        intro!: exec.keeps_rules in_w_keeps takings_keepD(4) [OF H(2)] process_message_keeps [OF assms])
qed

lemma close_keeps: "takings_keep T R \<Longrightarrow> R w (mpsc_close T h w)"
  by (rule keeps_modifyD) (rule takings_keepD(3))

lemma notify_keeps: "runtime_keeps T R mine \<Longrightarrow> R w (watch_send T h v w)"
  by (rule keeps_modifyD) (rule runtime_keepsD(8))

lemma stopping_round_step:
  assumes "world_hyps R mine T P" "stopping_round T P s = Some (Done fl, t)"
  obtains F where "exec_rel R (fst s) F" "fl = Again \<and> fst t = F \<or> fl = Leave () \<and>
    watch_is_closed T (notifier (ectx F)) (world F) \<and> fst t = set_world (mpsc_close T (mailbox (ectx F))) F"
proof -
  have H: "takings_keep T R" using assms by (simp add: world_hyps_def)
  obtain E n E' n' where st: "s = (E, n)" "t = (E', n')" by force
  from assms(2) st obtain branch w where b: "select_stopping T (mailbox (ectx E)) 1 (world E) = Some (branch, w)"
    by (auto simp: stopping_round_def io_simps split: option.splits res.splits)
  have w: "R (world E) w" by (rule keeps_awaitD [OF takings_keepD(5) [OF H] b])
  have "\<exists>F. (F = E\<lparr>world := w\<rparr> \<or> (\<exists>m x. process_message T P m (E\<lparr>world := w\<rparr>) = Some (Done x, F))) \<and>
      (fl = Again \<and> E' = F \<or> fl = Leave () \<and> watch_is_closed T (notifier (ectx F)) (world F) \<and>
        E' = set_world (mpsc_close T (mailbox (ectx F))) F)"
    using assms(2) b unfolding st
    by (cases branch)
      (auto simp: stopping_round_def io_simps set_world_def split: option.splits res.splits if_splits prod.splits)
  then obtain F where F: "F = E\<lparr>world := w\<rparr> \<or> (\<exists>m x. process_message T P m (E\<lparr>world := w\<rparr>) = Some (Done x, F))"
    and E': "fl = Again \<and> E' = F \<or> fl = Leave () \<and> watch_is_closed T (notifier (ectx F)) (world F) \<and>
        E' = set_world (mpsc_close T (mailbox (ectx F))) F" by blast
  have "R w (world F)"
    using F keepsD [OF process_message_keeps [OF assms(1)]] by (fastforce simp: exec_rel_def refl)
  with w have "exec_rel R E F" by (auto simp: exec_rel_def intro: trans)
  with E' that st show thesis by simp
qed

lemma stopping_round_keeps:
  assumes "world_hyps R mine T P"
  shows "keeps (on_fst (exec_rel R)) (stopping_round T P)"
proof (rule keepsI)
  fix s r t
  assume "stopping_round T P s = Some (Done r, t)"
  then obtain F where F: "exec_rel R (fst s) F" and t: "r = Again \<and> fst t = F \<or> r = Leave () \<and>
      watch_is_closed T (notifier (ectx F)) (world F) \<and> fst t = set_world (mpsc_close T (mailbox (ectx F))) F"
    by (rule stopping_round_step [OF assms])
  have "exec_rel R F (set_world (mpsc_close T (mailbox (ectx F))) F)"
    using assms by (simp add: exec_rel_def set_world_def world_hyps_def close_keeps)
  from exec.trans [OF F this] F t show "on_fst (exec_rel R) s t"
    unfolding on_fst_def by auto
qed

end

sublocale kept_world \<subseteq> rounds: executor_rounds "world_if T P" T P for T P
proof unfold_locales
  show "world_if T P E E" for E by (simp add: world_if_def exec.refl)
  show "world_if T P E F \<Longrightarrow> world_if T P F G \<Longrightarrow> world_if T P E G" for E F G
    by (auto simp: world_if_def intro: exec.trans)
  show "keeps (world_if T P) (run_round T P)" by (rule world_ifI) (rule run_round_keeps)
  show "keeps (world_if T P) (supervised_round T P)" by (rule world_ifI) (rule supervised_round_keeps)
  show "keeps (world_if T P) (drain_round T P)" by (rule world_ifI) (rule drain_round_keeps)
  show "keeps (on_fst (world_if T P)) (stopping_round T P)"
    using stopping_round_keeps [of T P] by (auto simp: keeps_def on_fst_def world_if_def)
  show "world_if T P E (set_world (mpsc_close T (mailbox (ectx E))) E)" for E
    by (simp add: world_if_def exec_rel_def set_world_def world_hyps_def close_keeps)
  show "world_if T P E (set_world (watch_send T (notifier (ectx E)) (Some Shutdown)) E)" for E
    by (simp add: world_if_def exec_rel_def set_world_def world_hyps_def notify_keeps)
qed

context kept_world
begin

lemma run_loop_keeps: "world_hyps R mine T P \<Longrightarrow> keeps (exec_rel R) (io_loop (run_round T P))"
  by (rule world_ifD [OF rounds.run_loop_keeps])

lemma supervised_loop_keeps: "world_hyps R mine T P \<Longrightarrow> keeps (exec_rel R) (io_loop (supervised_round T P))"
  by (rule world_ifD [OF rounds.supervised_loop_keeps])

lemma stopping_keeps: "world_hyps R mine T P \<Longrightarrow> keeps (exec_rel R) (stopping T P)"
  by (rule world_ifD [OF rounds.stopping_keeps])

text \<open>The state in which a stopping actor closes its mailbox.\<close>

lemma stopping_closing:
  assumes H: "world_hyps R mine T P" and run: "stopping T P E = Some (Done r, E')"
  obtains F where "exec_rel R E F" "watch_is_closed T (notifier (ectx F)) (world F)"
    "E' = set_world (mpsc_close T (mailbox (ectx F))) F"
proof (cases "watch_is_closed T (notifier (ectx E)) (world E)")
  case True
  with run that [of E] show thesis by (auto simp: stopping_def io_simps set_world_def exec.refl)
next
  case False
  let ?Q = "\<lambda>G. \<exists>F. exec_rel R E F \<and> watch_is_closed T (notifier (ectx F)) (world F) \<and>
    G = set_world (mpsc_close T (mailbox (ectx F))) F"
  have loop: "triple (\<lambda>s. exec_rel R E (fst s)) (io_loop (stopping_round T P)) (\<lambda>_ s. ?Q (fst s))"
  proof (rule triple_loop, rule tripleI)
    fix s fl t
    assume s: "exec_rel R E (fst s)" and "stopping_round T P s = Some (Done fl, t)"
    from this(2) show "case fl of Again \<Rightarrow> exec_rel R E (fst t) | Leave b \<Rightarrow> ?Q (fst t)"
    proof (rule stopping_round_step [OF H])
      fix F
      assume F: "exec_rel R (fst s) F" and t: "fl = Again \<and> fst t = F \<or> fl = Leave () \<and>
        watch_is_closed T (notifier (ectx F)) (world F) \<and> fst t = set_world (mpsc_close T (mailbox (ectx F))) F"
      have "exec_rel R E F" by (rule exec.trans [OF s F])
      with t show ?thesis by auto
    qed
  qed
  from False run obtain w n where w: "w = watch_send T (notifier (ectx E)) (Some Shutdown) (world E)"
    and l: "io_loop (stopping_round T P) (E\<lparr>world := w\<rparr>, 0) = Some (Done r, (E', n))"
    by (auto simp: stopping_def io_simps split: option.splits)
  have "exec_rel R E (E\<lparr>world := w\<rparr>)"
    using H by (simp add: w exec_rel_def world_hyps_def notify_keeps)
  with tripleD [OF loop _ l] that show thesis by auto
qed

lemma answer_awaiter_keeps:
  assumes "runtime_keeps T R mine"
  shows "keeps (exec_rel R) (answer_awaiter T)"
proof -
  have "keeps (exec_rel R) (modify (\<lambda>E. E\<lparr>ectx := (ectx E)\<lparr>into_future_sender := None\<rparr>\<rparr>))"
    by (rule exec.keeps_modify) (simp add: exec_rel_def refl)
  then show ?thesis
    unfolding answer_awaiter_def
    by (auto split: option.split intro!: exec.keeps_rules in_w_keeps runtime_keepsD(2) [OF assms])
qed

lemma set_state_keeps: "keeps (exec_rel R) (set_state st)"
  unfolding set_state_def by (rule exec.keeps_modify) (simp add: exec_rel_def refl)

lemma shutdown_keeps:
  assumes "world_hyps R mine T P"
  shows "keeps (exec_rel R) (shutdown T P)"
  unfolding shutdown_def
  by (intro exec.keeps_seq set_state_keeps callback_keeps stopping_keeps world_ifD [OF rounds.stop_keeps assms] assms)
    (use assms in \<open>simp_all add: world_hyps_def user_keepsD\<close>)

lemma start_keeps: "world_hyps R mine T P \<Longrightarrow> keeps (exec_rel R) (callback OnStart (on_start P))"
  by (rule callback_keeps) (simp add: world_hyps_def user_keepsD)

lemma run_supervised_actor_keeps:
  assumes "world_hyps R mine T P"
  shows "keeps (exec_rel R) (run_supervised_actor T P)"
  unfolding run_supervised_actor_def
  by (intro exec.keeps_seq start_keeps [OF assms] supervised_loop_keeps shutdown_keeps assms)

end

end
