(* ===== verification/Mail.thy ===== *)
theory Mail
  imports Worlds
begin

text \<open>
  The mailbox of an actor: in every run, the messages that are handled are those that were accepted,
  in the order they were accepted, each exactly once; a stopping actor closes its mailbox, works
  through what is left, and ends with it empty. The observer of the channel and what it promises is
  in Tokio.thy; that the library and the user code keep it is proved or assumed operation by operation.
\<close>

section \<open>Code that has no receiver of the mailbox\<close>

text \<open>
  The hypotheses: every operation of the runtime that the library calls while it processes a message,
  and the user's hooks and handlers, can at most add messages to the mailbox that \<open>M\<close> views.
\<close>

abbreviation pair_mail :: "('m, 'w) mail_view \<Rightarrow> 'c \<times> 'w \<Rightarrow> 'c \<times> 'w \<Rightarrow> bool" where
  "pair_mail M \<equiv> pair_rel (mail_grows M)"

abbreviation env_mail :: "('m, 'w) mail_view \<Rightarrow> ('a, 'w) env \<Rightarrow> ('a, 'w) env \<Rightarrow> bool" where
  "env_mail M \<equiv> env_rel (mail_grows M)"

abbreviation world_mail :: "('m, 'w) mail_view \<Rightarrow> ('a, 'm, 'w) executor \<Rightarrow> ('a, 'm, 'w) executor \<Rightarrow> bool" where
  "world_mail M \<equiv> exec_rel (mail_grows M)"

lemmas pair_mail_def = pair_rel_def
lemmas env_mail_def = env_rel_def
lemmas world_mail_def = exec_rel_def

interpretation mail_world: kept_world "mail_grows M" "\<lambda>_ _. True" for M
  by unfold_locales simp

definition mail_runtime :: "('a, 'm, 'w) tokio \<Rightarrow> ('m, 'w) mail_view \<Rightarrow> bool" where
  "mail_runtime T M \<longleftrightarrow>
     (\<forall>h m. keeps (mail_grows M) (call (oneshot_send T h m))) \<and>
     (\<forall>h a. keeps (mail_grows M) (call (oneshot_send_actor T h a))) \<and>
     (\<forall>h. keeps (mail_grows M) (modify (oneshot_drop_tx T h))) \<and>
     (\<forall>h. keeps (mail_grows M) (call (watch_subscribe T h))) \<and>
     (\<forall>h. keeps (mail_grows M) (call (watch_borrow_and_update T h))) \<and>
     (\<forall>h. keeps (mail_grows M) (modify (watch_drop_rx T h))) \<and>
     (\<forall>h v. keeps (mail_grows M) (modify (watch_send T h v))) \<and>
     (\<forall>t. keeps (mail_grows M) (call (spawn T t))) \<and>
     (\<forall>h. keeps (mail_grows M) (call (sem_try_acquire T h))) \<and>
     (\<forall>h n. keeps (mail_grows M) (await (sem_acquire_many T h n))) \<and>
     (\<forall>h. keeps (mail_grows M) (modify (permit_drop T h))) \<and>
     (\<forall>h b. keeps (mail_grows M) (await (mpsc_send T h b))) \<and>
     (\<forall>h m. keeps (pair_mail M) m \<longrightarrow> keeps (pair_mail M) (select_answer T h m))"

abbreviation mail_user :: "('a, 'm, 'w) actor_ops \<Rightarrow> ('m, 'w) mail_view \<Rightarrow> bool" where
  "mail_user P M \<equiv> user_keeps P (mail_grows M)"

lemmas mail_user_def = user_keeps_def
lemmas mail_userD = user_keepsD

lemma mail_runtimeD:
  assumes "mail_runtime T M"
  shows "keeps (mail_grows M) (call (oneshot_send T h m))"
    and "keeps (mail_grows M) (call (oneshot_send_actor T h a))"
    and "keeps (mail_grows M) (modify (oneshot_drop_tx T h))"
    and "keeps (mail_grows M) (call (watch_subscribe T h))"
    and "keeps (mail_grows M) (call (watch_borrow_and_update T h))"
    and "keeps (mail_grows M) (modify (watch_drop_rx T h))"
    and "keeps (mail_grows M) (modify (watch_send T h v))"
    and "keeps (mail_grows M) (call (spawn T t))"
    and "keeps (mail_grows M) (call (sem_try_acquire T h))"
    and "keeps (mail_grows M) (await (sem_acquire_many T h n))"
    and "keeps (mail_grows M) (modify (permit_drop T h))"
    and "keeps (mail_grows M) (await (mpsc_send T h b))"
    and "keeps (pair_mail M) f \<Longrightarrow> keeps (pair_mail M) (select_answer T h f)"
  using assms unfolding mail_runtime_def by (simp_all del: split_paired_All)

lemma mail_runtime_keeps: "mail_runtime T M \<Longrightarrow> runtime_keeps T (mail_grows M) (\<lambda>_ _. True)"
  unfolding mail_runtime_def runtime_keeps_def by (auto simp: triple_any intro: keeps_modifyD simp del: split_paired_All)

lemmas in_world_mail = mail_world.in_world_keeps
lemmas on_world_mail = mail_world.on_world_keeps
lemmas in_ctx_mail = mail_world.in_ctx_keeps
lemmas in_actor_mail = mail_world.in_actor_keeps
lemmas on_env_mail = mail_world.on_env_keeps
lemmas in_w_mail = mail_world.in_w_keeps
lemmas acquire_permit_mail = mail_world.acquire_permit_keeps [OF mail_runtime_keeps]
lemmas anonymous_task_mail = mail_world.anonymous_task_keeps [OF mail_runtime_keeps]
lemmas deliver_mail = mail_world.deliver_keeps [OF mail_runtime_keeps]
lemmas check_anonymous_actors_mail = mail_world.check_anonymous_actors_keeps [OF mail_runtime_keeps]

section \<open>First in, first out\<close>

text \<open>The messages whose handler was called, in order.\<close>

fun recvs :: "('m callback \<times> actor_state) list \<Rightarrow> 'm boxed list" where
  "recvs [] = []"
| "recvs ((Recv b, s) # log) = b # recvs log"
| "recvs ((OnStart, s) # log) = recvs log"
| "recvs ((PreRun, s) # log) = recvs log"
| "recvs ((PostRun, s) # log) = recvs log"
| "recvs ((OnStopping, s) # log) = recvs log"
| "recvs ((OnStopped, s) # log) = recvs log"
| "recvs ((OnEnd, s) # log) = recvs log"

lemma recvs_append [simp]: "recvs (xs @ ys) = recvs xs @ recvs ys"
  by (induction xs rule: recvs.induct) simp_all

text \<open>
  From one executor state to a later one: the messages handled, those in hand and those in the mailbox
  are, in this order, what they were and what has arrived meanwhile.
\<close>

definition fifo ::
  "('m, 'w) mail_view \<Rightarrow> ('a, 'm, 'w) executor \<Rightarrow> 'm boxed list \<Rightarrow> ('a, 'm, 'w) executor \<Rightarrow> 'm boxed list \<Rightarrow> bool" where
  "fifo M E hs E' hs' \<longleftrightarrow> mailbox (ectx E') = mailbox (ectx E) \<and>
     (\<exists>new. mail_sent M (world E') = mail_sent M (world E) @ new \<and>
        recvs (calls E') @ hs' @ mail_pending M (world E') = recvs (calls E) @ hs @ mail_pending M (world E) @ new \<and>
        (mail_closed M (world E) \<longrightarrow> new = [] \<and> mail_closed M (world E')))"

lemma fifo_refl: "fifo M E hs E hs"
  by (simp add: fifo_def)

lemma fifo_trans:
  assumes "fifo M E hs F hs'" "fifo M F hs' G hs''"
  shows "fifo M E hs G hs''"
proof -
  obtain n1 n2 where
    1: "mail_sent M (world F) = mail_sent M (world E) @ n1"
      "recvs (calls F) @ hs' @ mail_pending M (world F) = recvs (calls E) @ hs @ mail_pending M (world E) @ n1"
      "mail_closed M (world E) \<longrightarrow> n1 = [] \<and> mail_closed M (world F)"
    and 2: "mail_sent M (world G) = mail_sent M (world F) @ n2"
      "recvs (calls G) @ hs'' @ mail_pending M (world G) = recvs (calls F) @ hs' @ mail_pending M (world F) @ n2"
      "mail_closed M (world F) \<longrightarrow> n2 = [] \<and> mail_closed M (world G)"
    using assms unfolding fifo_def by (elim conjE exE)
  have "recvs (calls G) @ hs'' @ mail_pending M (world G) =
      recvs (calls E) @ hs @ mail_pending M (world E) @ (n1 @ n2)"
    using 1(2) 2(2) by (metis append.assoc)
  moreover have "mail_sent M (world G) = mail_sent M (world E) @ (n1 @ n2)"
    using 1(1) 2(1) by simp
  moreover have "mail_closed M (world E) \<longrightarrow> n1 @ n2 = [] \<and> mail_closed M (world G)"
    using 1(3) 2(3) by simp
  moreover have "mailbox (ectx G) = mailbox (ectx E)" using assms by (simp add: fifo_def)
  ultimately show ?thesis unfolding fifo_def by blast
qed

lemma fifo_grows:
  assumes "world_mail M E F" "calls F = calls E" "mailbox (ectx F) = mailbox (ectx E)"
  shows "fifo M E hs F hs"
proof -
  obtain new where "mail_sent M (world F) = mail_sent M (world E) @ new"
    "mail_pending M (world F) = mail_pending M (world E) @ new"
    "mail_closed M (world E) \<longrightarrow> new = []" "mail_closed M (world E) \<longrightarrow> mail_closed M (world F)"
    using assms(1) by (auto simp: world_mail_def mail_grows_def)
  then show ?thesis using assms by (auto simp: fifo_def)
qed

lemma fifo_takes:
  assumes "mail_takes M b (world E) w"
  shows "fifo M E [] (E\<lparr>world := w\<rparr>) [b]"
proof -
  obtain v where v: "mail_grows M (world E) v" "mail_sent M w = mail_sent M v"
    "mail_pending M v = b # mail_pending M w" "mail_closed M w = mail_closed M v"
    using assms by (auto simp: mail_takes_def)
  then obtain new where "mail_sent M v = mail_sent M (world E) @ new"
    "mail_pending M v = mail_pending M (world E) @ new"
    "mail_closed M (world E) \<longrightarrow> new = []" "mail_closed M (world E) \<longrightarrow> mail_closed M v"
    by (auto simp: mail_grows_def)
  with v show ?thesis by (auto simp: fifo_def)
qed

definition mail_hyps ::
  "('a, 'm, 'w) tokio \<Rightarrow> ('a, 'm, 'w) actor_ops \<Rightarrow> handle \<Rightarrow> ('m, 'w) mail_view \<Rightarrow> bool" where
  "mail_hyps T P mb M \<longleftrightarrow> blocking_runs T \<and> well_behaved_actor T P \<and> mail_runtime T M \<and> mail_user P M \<and>
     mpsc_receiver T mb M \<and> select_receiver T mb M"

lemma callback_fifo:
  assumes "well_behaved T h" "keeps (env_mail M) h" "callback cb h E = Some (Done r, E')"
    and "\<And>s. recvs [(cb, s)] = []"
  shows "fifo M E hs E' hs"
proof -
  have c: "calls E' = calls E @ [(cb, state (ectx E))]"
    using callback_log [OF assms(1,3)] by blast
  let ?F = "E\<lparr>calls := calls E @ [(cb, state (ectx E))]\<rparr>"
  have run: "on_env h ?F = Some (Done r, E')"
    using assms(3) by (simp add: callback_def log_call_def io_simps)
  have "world_mail M ?F E'" using keepsD [OF on_env_mail [OF assms(2)] run] .
  moreover have "ctx_moves (ectx ?F) (ectx E')"
    using on_env_moves [OF well_behaved_moves [OF assms(1)] run] by blast
  ultimately have "fifo M ?F hs E' hs"
    using c by (intro fifo_grows) (simp_all add: ctx_moves_def)
  moreover have "fifo M E hs ?F hs" using assms(4) by (simp add: fifo_def)
  ultimately show ?thesis by (rule fifo_trans [rotated])
qed

lemma process_message_fifo:
  assumes H: "mail_hyps T P mb M" and run: "process_message T P b E = Some (Done r, E')"
  shows "fifo M E [b] E' []"
proof -
  from run obtain E1 E2 E3 E4 r1 r2 r3 r4 where
    1: "callback PreRun (pre_run P) E = Some (Done r1, E1)" and
    2: "log_call (Recv b) E1 = Some (Done r2, E2)" and
    3: "(case box_scheduler P b of Blocking \<Rightarrow> deliver_blocking T P b
          | NonBlocking \<Rightarrow> deliver_nonblocking T P b) E2 = Some (Done r3, E3)" and
    4: "callback PostRun (post_run P) E3 = Some (Done r4, E4)" and
    5: "E' = E4"
    unfolding process_message_def by (elim io_seq_DoneE) (auto simp: gets_run)
  have w: "well_behaved T (pre_run P)" "well_behaved T (post_run P)"
    and u: "keeps (env_mail M) (pre_run P)" "keeps (env_mail M) (post_run P)"
    using H by (simp_all add: mail_hyps_def well_behaved_actor_def mail_userD)
  have a: "fifo M E [b] E1 [b]" by (rule callback_fifo [OF w(1) u(1) 1]) simp
  have b: "fifo M E1 [b] E2 []" using 2 by (auto simp: log_call_def io_simps fifo_def)
  have "world_mail M E2 E3" "ctx_moves (ectx E2) (ectx E3) \<and> calls E3 = calls E2"
    using H deliver_mail [OF _ _ _ 3] deliver_moves [OF _ _ 3] by (auto simp: mail_hyps_def)
  then have c: "fifo M E2 [] E3 []" by (intro fifo_grows) (simp_all add: ctx_moves_def)
  have d: "fifo M E3 [] E4 []" by (rule callback_fifo [OF w(2) u(2) 4]) simp
  show ?thesis unfolding 5 by (rule fifo_trans [OF a fifo_trans [OF b fifo_trans [OF c d]]])
qed

lemma check_anonymous_actors_fifo:
  assumes H: "mail_hyps T P mb M" and run: "check_anonymous_actors T P E = Some (Done r, E')"
  shows "fifo M E hs E' hs"
proof (rule fifo_grows)
  show "world_mail M E E'"
    using H by (intro keepsD [OF check_anonymous_actors_mail run]) (simp add: mail_hyps_def)
  show "calls E' = calls E"
    using keepsD [OF same_calls_check run] by (simp add: same_calls_def)
  show "mailbox (ectx E') = mailbox (ectx E)"
    using keepsD [OF check_anonymous_actors_forward run] by (simp add: forward_def ctx_moves_def)
qed

text \<open>The rounds of the loops, for the executor whose mailbox the hypotheses are about.\<close>

definition fifo_if ::
  "('a, 'm, 'w) tokio \<Rightarrow> ('a, 'm, 'w) actor_ops \<Rightarrow> handle \<Rightarrow> ('m, 'w) mail_view \<Rightarrow>
   ('a, 'm, 'w) executor \<Rightarrow> ('a, 'm, 'w) executor \<Rightarrow> bool" where
  "fifo_if T P mb M E E' \<longleftrightarrow> mail_hyps T P mb M \<and> mailbox (ectx E) = mb \<longrightarrow> fifo M E [] E' []"

lemma fifo_ifI:
  "(\<And>E r E'. mail_hyps T P mb M \<Longrightarrow> mailbox (ectx E) = mb \<Longrightarrow> m E = Some (Done r, E') \<Longrightarrow> fifo M E [] E' []) \<Longrightarrow>
   keeps (fifo_if T P mb M) m"
  by (auto simp: keeps_def fifo_if_def)

lemma in_w_DoneE:
  assumes "in_w m E = Some (Done r, E')"
  obtains w where "m (world E) = Some (Done r, w)" "E' = E\<lparr>world := w\<rparr>"
  using assms by (auto simp: in_w_run split: option.splits)

lemma grows_fifo: "mail_grows M (world E) w \<Longrightarrow> fifo M E hs (E\<lparr>world := w\<rparr>) hs"
  by (rule fifo_grows) (simp_all add: world_mail_def)

lemma run_round_fifo: "keeps (fifo_if T P mb M) (run_round T P)"
proof (rule fifo_ifI)
  fix E r E'
  assume H: "mail_hyps T P mb M" and mb: "mailbox (ectx E) = mb" and run: "run_round T P E = Some (Done r, E')"
  have R: "mpsc_receiver T mb M" using H by (simp add: mail_hyps_def)
  from run mb obtain nxt w where n: "mpsc_recv T mb (world E) = Some (nxt, w)"
    and k: "(case nxt of
         Some msg \<Rightarrow> io_seq (check_anonymous_actors T P)
           (io_bind (process_message T P msg) (\<lambda>event. ret (loop_flow event)))
       | None \<Rightarrow> ret (Leave ())) (E\<lparr>world := w\<rparr>) = Some (Done r, E')"
    by (auto simp: run_round_def io_bind_run gets_run in_w_run await_run split: option.splits)
  show "fifo M E [] E' []"
  proof (cases nxt)
    case None
    with k n show ?thesis
      by (auto simp: ret_run intro: grows_fifo mpsc_receiverD(6) [OF R])
  next
    case (Some b)
    with k obtain x1 E1 x2 E2 where
      "check_anonymous_actors T P (E\<lparr>world := w\<rparr>) = Some (Done x1, E1)"
      "process_message T P b E1 = Some (Done x2, E2)" "E' = E2"
      by (auto simp: ret_run elim!: io_seq_DoneE io_bind_DoneE)
    moreover have "mail_takes M b (world E) w"
      using n Some by (auto intro: mpsc_receiverD(7) [OF R])
    ultimately show ?thesis
      using fifo_trans [OF fifo_takes fifo_trans [OF check_anonymous_actors_fifo [OF H] process_message_fifo [OF H]]]
      by blast
  qed
qed

lemma drain_round_fifo: "keeps (fifo_if T P mb M) (drain_round T P)"
proof (rule fifo_ifI)
  fix E r E'
  assume H: "mail_hyps T P mb M" and mb: "mailbox (ectx E) = mb" and run: "drain_round T P E = Some (Done r, E')"
  have R: "mpsc_receiver T mb M" using H by (simp add: mail_hyps_def)
  from run mb obtain nxt w where n: "mpsc_try_recv T mb (world E) = (nxt, w)"
    and k: "(case nxt of
         Some msg \<Rightarrow> io_bind (process_message T P msg) (\<lambda>_. ret Again)
       | None \<Rightarrow> ret (Leave ())) (E\<lparr>world := w\<rparr>) = Some (Done r, E')"
    by (auto simp: drain_round_def io_bind_run gets_run in_w_run call_run split: option.splits prod.splits)
  show "fifo M E [] E' []"
  proof (cases nxt)
    case None
    with k n mpsc_receiverD(1) [OF R, of "world E" w] show ?thesis
      by (simp add: ret_run fifo_def)
  next
    case (Some b)
    with k obtain x2 where "process_message T P b (E\<lparr>world := w\<rparr>) = Some (Done x2, E')"
      by (auto simp: ret_run elim!: io_bind_DoneE)
    moreover have "mail_takes M b (world E) w"
      using n Some by (auto intro: mpsc_receiverD(2) [OF R])
    ultimately show ?thesis
      using fifo_trans [OF fifo_takes process_message_fifo [OF H]] by blast
  qed
qed

lemma select_supervised_else:
  assumes R: "select_receiver T rx M" and run: "select_supervised T h rx w = Some (branch, w')"
    and "\<And>b. branch \<noteq> MailboxRecv (Some b)"
  shows "mail_grows M w w'"
proof (cases branch)
  case (MailboxRecv r)
  with assms show ?thesis by (cases r) (auto dest: select_receiverD(2) [OF R])
qed (use run in \<open>auto dest: select_receiverD(3,4) [OF R]\<close>)

lemma select_stopping_else:
  assumes R: "select_receiver T rx M" and run: "select_stopping T rx n w = Some (branch, w')"
    and "\<And>b. branch \<noteq> StopRecv (Some b)"
  shows "mail_grows M w w'"
proof (cases branch)
  case (StopRecv r)
  with assms show ?thesis by (cases r) (auto dest: select_receiverD(6) [OF R])
qed (use run in \<open>auto dest: select_receiverD(7) [OF R]\<close>)

lemma supervised_round_fifo: "keeps (fifo_if T P mb M) (supervised_round T P)"
proof (rule fifo_ifI)
  fix E r E'
  assume H: "mail_hyps T P mb M" and mb: "mailbox (ectx E) = mb" and run: "supervised_round T P E = Some (Done r, E')"
  have R: "select_receiver T mb M" using H by (simp add: mail_hyps_def)
  from run obtain x1 E1 ev where c: "check_anonymous_actors T P E = Some (Done x1, E1)"
    and h: "handle_supervised_message T P E1 = Some (Done ev, E')"
    unfolding supervised_round_def by (auto simp: ret_run elim!: io_seq_DoneE io_bind_DoneE)
  have a: "fifo M E [] E1 []" by (rule check_anonymous_actors_fifo [OF H c])
  then have mb1: "mailbox (ectx E1) = mb" using mb by (simp add: fifo_def)
  from h mb1 obtain rx branch w where n: "select_supervised T rx mb (world E1) = Some (branch, w)"
    and k: "(case branch of
         WatchChanged \<Rightarrow>
           io_bind (gets (\<lambda>E. watch_borrow T rx (world E))) (\<lambda>msg. case msg of
               Some Shutdown \<Rightarrow> ret Break
             | None \<Rightarrow> ret Continue)
       | WatchClosed \<Rightarrow> panic
       | MailboxRecv (Some message) \<Rightarrow> process_message T P message
       | MailboxRecv None \<Rightarrow> ret Break) (E1\<lparr>world := w\<rparr>) = Some (Done ev, E')"
    by (auto simp: handle_supervised_message_def io_bind_run gets_run unwrap_run in_w_run await_run
        split: option.splits)
  have "fifo M E1 [] E' []"
  proof (cases "\<exists>b. branch = MailboxRecv (Some b)")
    case True
    then obtain b where b: "branch = MailboxRecv (Some b)" by blast
    have "mail_takes M b (world E1) w" using n b by (auto intro: select_receiverD(1) [OF R])
    then show ?thesis
      using fifo_trans [OF fifo_takes process_message_fifo [OF H]] k b by auto
  next
    case False
    have "mail_grows M (world E1) w"
      using select_supervised_else [OF R n] False by blast
    moreover have "E' = E1\<lparr>world := w\<rparr>"
      using k False
      by (auto simp: io_simps split: supervised_event.splits option.splits supervisor_message.splits)
    ultimately show ?thesis by (simp add: grows_fifo)
  qed
  with a show "fifo M E [] E' []" by (rule fifo_trans)
qed

lemma close_fifo: "fifo_if T P mb M E (set_world (mpsc_close T (mailbox (ectx E))) E)"
  by (auto simp: fifo_if_def fifo_def mail_hyps_def set_world_def mpsc_receiverD(3-5))

lemma notify_fifo: "fifo_if T P mb M E (set_world (watch_send T (notifier (ectx E)) (Some Shutdown)) E)"
proof -
  have "mail_runtime T M \<Longrightarrow> mail_grows M w (watch_send T h v w)" for w h v
    by (drule mail_runtimeD(7) [of _ _ h v]) (auto simp: keeps_def modify_run)
  then show ?thesis
    by (auto simp: fifo_if_def set_world_def mail_hyps_def intro!: grows_fifo)
qed

lemma stopping_round_fifo: "keeps (on_fst (fifo_if T P mb M)) (stopping_round T P)"
proof (rule keepsI)
  fix s r t
  assume run: "stopping_round T P s = Some (Done r, t)"
  obtain E n where s: "s = (E, n)" by force
  obtain E' n' where t: "t = (E', n')" by force
  have "fifo M E [] E' []" if H: "mail_hyps T P mb M" and mb: "mailbox (ectx E) = mb"
  proof -
    have R: "select_receiver T mb M" "mpsc_receiver T mb M" using H by (simp_all add: mail_hyps_def)
    from run s mb obtain branch w where b: "select_stopping T mb 1 (world E) = Some (branch, w)"
      by (auto simp: stopping_round_def io_simps split: option.splits res.splits)
    have step: "\<exists>E1. fifo M E [] E1 [] \<and> (E' = E1 \<or> E' = E1\<lparr>world := mpsc_close T (mailbox (ectx E1)) (world E1)\<rparr>)"
    proof (cases "\<exists>m. branch = StopRecv (Some m)")
      case True
      then obtain m where m: "branch = StopRecv (Some m)" by blast
      with run s t mb b obtain x E1 where p: "process_message T P m (E\<lparr>world := w\<rparr>) = Some (Done x, E1)"
        and e: "E' = E1 \<or> E' = E1\<lparr>world := mpsc_close T (mailbox (ectx E1)) (world E1)\<rparr>"
        by (auto simp: stopping_round_def io_simps split: option.splits res.splits if_splits prod.splits)
      have "mail_takes M m (world E) w" using b m by (auto intro: select_receiverD(5) [OF R(1)])
      then show ?thesis using fifo_trans [OF fifo_takes process_message_fifo [OF H p]] e by blast
    next
      case False
      with b have "mail_grows M (world E) w"
        by (intro select_stopping_else [OF R(1)]) blast+
      moreover have "E' = E\<lparr>world := w\<rparr> \<or>
          E' = E\<lparr>world := w\<rparr>\<lparr>world := mpsc_close T (mailbox (ectx E)) w\<rparr>"
        using run s t mb b False
        by (auto simp: stopping_round_def io_simps
            split: option.splits res.splits if_splits prod.splits stopping_event.splits)
      ultimately show ?thesis
        by (intro exI [of _ "E\<lparr>world := w\<rparr>"]) (auto intro: grows_fifo)
    qed
    then obtain E1 where E1: "fifo M E [] E1 []"
      "E' = E1 \<or> E' = set_world (mpsc_close T (mailbox (ectx E1))) E1"
      by (auto simp: set_world_def)
    have "mailbox (ectx E1) = mb" using E1(1) mb by (simp add: fifo_def)
    then have "fifo M E1 [] (set_world (mpsc_close T (mailbox (ectx E1))) E1) []"
      using close_fifo [of T P mb M E1] H by (simp add: fifo_if_def)
    with E1 show ?thesis by (auto intro: fifo_trans)
  qed
  then show "on_fst (fifo_if T P mb M) s t" by (simp add: on_fst_def fifo_if_def s t)
qed

interpretation fifo: executor_rounds "fifo_if T P mb M" T P for T P mb M
proof unfold_locales
  show "fifo_if T P mb M E E" for E :: "('a, 'b, 'c) executor"
    by (simp add: fifo_if_def fifo_refl)
  show "fifo_if T P mb M E F \<Longrightarrow> fifo_if T P mb M F G \<Longrightarrow> fifo_if T P mb M E G"
    for E F G :: "('a, 'b, 'c) executor"
  proof (unfold fifo_if_def, intro impI)
    assume EF: "mail_hyps T P mb M \<and> mailbox (ectx E) = mb \<longrightarrow> fifo M E [] F []"
      and FG: "mail_hyps T P mb M \<and> mailbox (ectx F) = mb \<longrightarrow> fifo M F [] G []"
      and H: "mail_hyps T P mb M \<and> mailbox (ectx E) = mb"
    have "fifo M E [] F []" using EF H by blast
    moreover from this have "mailbox (ectx F) = mb" using H by (simp add: fifo_def)
    then have "fifo M F [] G []" using FG H by blast
    ultimately show "fifo M E [] G []" by (rule fifo_trans)
  qed
qed (rule run_round_fifo supervised_round_fifo stopping_round_fifo drain_round_fifo close_fifo notify_fifo)+

section \<open>Whole phases\<close>

lemma fifo_ifD:
  "keeps (fifo_if T P mb M) m \<Longrightarrow> mail_hyps T P mb M \<Longrightarrow> mailbox (ectx E) = mb \<Longrightarrow>
     m E = Some (Done r, E') \<Longrightarrow> fifo M E [] E' []"
  by (auto simp: keeps_def fifo_if_def)

lemma fifo_mailbox: "fifo M E hs E' hs' \<Longrightarrow> mailbox (ectx E') = mailbox (ectx E)"
  by (simp add: fifo_def)

lemma fifo_closed: "fifo M E hs E' hs' \<Longrightarrow> mail_closed M (world E) \<Longrightarrow> mail_closed M (world E')"
  by (auto simp: fifo_def)

lemma drain_round_leaves:
  assumes R: "mpsc_receiver T mb M" and mb: "mailbox (ectx E) = mb"
    and run: "drain_round T P E = Some (Done (Leave u), E')"
  shows "mail_pending M (world E') = []"
  using run mb R
  by (auto simp: drain_round_def io_simps dest: mpsc_receiverD(1)
      split: option.splits prod.splits res.splits)

lemma executor_stop_empties:
  assumes H: "mail_hyps T P mb M" and mb: "mailbox (ectx E) = mb"
    and run: "executor_stop T P E = Some (Done r, E')"
  shows "mail_pending M (world E') = []"
proof -
  have R: "mpsc_receiver T mb M" using H by (simp add: mail_hyps_def)
  have "triple (\<lambda>E. mailbox (ectx E) = mb) (io_loop (drain_round T P)) (\<lambda>_ E. mail_pending M (world E) = [])"
  proof (rule triple_loop, rule tripleI)
    fix F fl G
    assume F: "mailbox (ectx F) = mb" and run: "drain_round T P F = Some (Done fl, G)"
    show "case fl of Again \<Rightarrow> mailbox (ectx G) = mb | Leave b \<Rightarrow> mail_pending M (world G) = []"
      using fifo_mailbox [OF fifo_ifD [OF drain_round_fifo H F run]] F
        drain_round_leaves [OF R F] run
      by (auto split: flow.split)
  qed
  moreover from run have "io_loop (drain_round T P) E = Some (Done r, E')"
    by (auto simp: executor_stop_def io_simps split: if_splits)
  ultimately show ?thesis using mb by (blast dest: tripleD)
qed

lemma process_message_recvs:
  "process_message T P b E = Some (Done r, E') \<Longrightarrow> recvs (calls E') = recvs (calls E) @ [b]"
  using tripleD [OF process_message_calls refl, of T P b E r E'] by auto

text \<open>The stopped executor works through what is left, if each of its messages is finished at some time.\<close>

lemma executor_stop_total_aux:
  fixes T :: "('a, 'm, 'w) tokio" and E :: "('a, 'm, 'w) executor"
  assumes H: "mail_hyps T P mb M" and mb: "mailbox (ectx E) = mb"
    and closed: "mail_closed M (world E)"
    and fin: "\<And>b F. \<exists>x G. process_message T P b F = Some (x, G)"
  shows "\<exists>x E'. executor_stop T P E = Some (x, E')"
proof -
  have R: "mpsc_receiver T mb M" using H by (simp add: mail_hyps_def)
  let ?I = "\<lambda>F :: ('a, 'm, 'w) executor. mailbox (ectx F) = mb \<and> mail_closed M (world F)"
  have "\<exists>x E'. io_loop (drain_round T P) E = Some (x, E')"
  proof (rule io_loop_total [where I = ?I and R = "measure (\<lambda>F. length (mail_pending M (world F)))"])
    fix F :: "('a, 'm, 'w) executor" assume I: "?I F"
    obtain nxt w where n: "mpsc_try_recv T mb (world F) = (nxt, w)" by force
    show "\<exists>x G. drain_round T P F = Some (x, G) \<and>
        (x = Done Again \<longrightarrow> ?I G \<and> (G, F) \<in> measure (\<lambda>F. length (mail_pending M (world F))))"
    proof (cases nxt)
      case None
      with n I show ?thesis by (simp add: drain_round_def io_simps)
    next
      case (Some b)
      obtain x G where p: "process_message T P b (F\<lparr>world := w\<rparr>) = Some (x, G)" using fin by blast
      have t: "mail_takes M b (world F) w" using n Some by (auto intro: mpsc_receiverD(2) [OF R])
      have run: "drain_round T P F = Some (case x of Done _ \<Rightarrow> Done Again | Panic \<Rightarrow> Panic, G)"
        using n Some I p by (simp add: drain_round_def io_simps split: res.split)
      moreover have "?I G \<and> length (mail_pending M (world G)) < length (mail_pending M (world F))" if "x = Done r" for r
      proof -
        have c: "mail_pending M (world F) = b # mail_pending M w \<and> mail_closed M w"
          using mail_takes_closed [OF t] I by blast
        have f: "fifo M (F\<lparr>world := w\<rparr>) [b] G []"
          using process_message_fifo [OF H] p that by blast
        have "recvs (calls G) = recvs (calls (F\<lparr>world := w\<rparr>)) @ [b]"
          using process_message_recvs [of T P b "F\<lparr>world := w\<rparr>"] p that by simp
        with f c have "mail_pending M (world G) = mail_pending M w" by (auto simp: fifo_def)
        with c f I show ?thesis using fifo_closed [OF f] fifo_mailbox [OF f] by simp
      qed
      ultimately show ?thesis by (cases x) auto
    qed
  qed (use mb closed in simp_all)
  then show ?thesis by (auto simp: executor_stop_def io_simps)
qed

lemma mpsc_close_closed:
  "mpsc_receiver T mb M \<Longrightarrow> mailbox (ectx E) = mb \<Longrightarrow> mail_closed M (mpsc_close T (mailbox (ectx E)) w)"
  by (simp add: mpsc_receiverD(5))

lemma stopping_round_leaves:
  assumes R: "mpsc_receiver T mb M"
    and run: "stopping_round T P (E, n) = Some (Done (Leave u), (E', n'))" and mb: "mailbox (ectx E') = mb"
  shows "mail_closed M (world E')"
  using run mb R
  by (auto simp: stopping_round_def io_simps mpsc_receiverD(5)
      split: option.splits prod.splits res.splits if_splits stopping_event.splits)

lemma stopping_closes:
  assumes H: "mail_hyps T P mb M" and mb: "mailbox (ectx E) = mb"
    and run: "stopping T P E = Some (Done r, E')"
  shows "mail_closed M (world E')"
proof -
  have R: "mpsc_receiver T mb M" using H by (simp add: mail_hyps_def)
  have loop: "triple (\<lambda>(E, n). mailbox (ectx E) = mb) (io_loop (stopping_round T P)) (\<lambda>_ (E, n). mail_closed M (world E))"
  proof (rule triple_loop, rule tripleI)
    fix s fl t
    assume I: "case s of (E, n) \<Rightarrow> mailbox (ectx E) = mb" and r: "stopping_round T P s = Some (Done fl, t)"
    obtain F n G n' where st: "s = (F, n)" "t = (G, n')" by (cases s; cases t)
    have F: "mailbox (ectx F) = mb" and run: "stopping_round T P (F, n) = Some (Done fl, (G, n'))"
      using I r st by simp_all
    have "fifo_if T P mb M F G"
      using keepsD [OF stopping_round_fifo run] by (simp add: on_fst_def)
    then have "mailbox (ectx G) = mb" using H F by (simp add: fifo_if_def fifo_def)
    then show "case fl of Again \<Rightarrow> case t of (E, n) \<Rightarrow> mailbox (ectx E) = mb
        | Leave b \<Rightarrow> case t of (E, n) \<Rightarrow> mail_closed M (world E)"
      using stopping_round_leaves [OF R] run st by (auto split: flow.split)
  qed
  show ?thesis
  proof (cases "watch_is_closed T (notifier (ectx E)) (world E)")
    case True
    with run mb R show ?thesis by (auto simp: stopping_def io_simps mpsc_receiverD(5))
  next
    case False
    with run obtain w n where l: "io_loop (stopping_round T P) (E\<lparr>world := w\<rparr>, 0) = Some (Done r, (E', n))"
      by (auto simp: stopping_def io_simps split: option.splits)
    show ?thesis using tripleD [OF loop _ l] mb by simp
  qed
qed

lemma set_state_fifo: "set_state st E = Some (Done r, E') \<Longrightarrow> fifo M E hs E' hs"
  by (auto simp: set_state_run fifo_def)

lemma shutdown_fifo:
  assumes H: "mail_hyps T P mb M" and mb: "mailbox (ectx E) = mb"
    and run: "shutdown T P E = Some (Done r, E')"
  shows "fifo M E [] E' []" "mail_closed M (world E')" "mail_pending M (world E') = []"
proof -
  from run obtain E1 E2 E3 E4 E5 E6 r1 r2 r3 r4 r5 r6 where
    1: "set_state Stopping E = Some (Done r1, E1)" and
    2: "callback OnStopping (on_stopping P) E1 = Some (Done r2, E2)" and
    3: "stopping T P E2 = Some (Done r3, E3)" and
    4: "set_state Stopped E3 = Some (Done r4, E4)" and
    5: "callback OnStopped (on_stopped P) E4 = Some (Done r5, E5)" and
    6: "executor_stop T P E5 = Some (Done r6, E6)" and
    7: "callback OnEnd (on_end P) E6 = Some (Done r, E')"
    by (rule shutdown_DoneE)
  have w: "well_behaved T (on_stopping P)" "well_behaved T (on_stopped P)" "well_behaved T (on_end P)"
    and u: "keeps (env_mail M) (on_stopping P)" "keeps (env_mail M) (on_stopped P)" "keeps (env_mail M) (on_end P)"
    using H by (simp_all add: mail_hyps_def well_behaved_actor_def mail_userD)
  have a: "fifo M E [] E2 []"
    by (rule fifo_trans [OF set_state_fifo [OF 1] callback_fifo [OF w(1) u(1) 2]]) simp
  then have m2: "mailbox (ectx E2) = mb" using mb by (simp add: fifo_mailbox)
  have b: "fifo M E2 [] E3 []" by (rule fifo_ifD [OF fifo.stopping_keeps H m2 3])
  have c3: "mail_closed M (world E3)" by (rule stopping_closes [OF H m2 3])
  have c: "fifo M E3 [] E5 []"
    by (rule fifo_trans [OF set_state_fifo [OF 4] callback_fifo [OF w(2) u(2) 5]]) simp
  have m5: "mailbox (ectx E5) = mb" using m2 fifo_mailbox [OF b] fifo_mailbox [OF c] by simp
  have d: "fifo M E5 [] E6 []" by (rule fifo_ifD [OF fifo.stop_keeps H m5 6])
  have e: "fifo M E6 [] E' []" by (rule callback_fifo [OF w(3) u(3) 7]) simp
  show "fifo M E [] E' []" by (rule fifo_trans [OF a fifo_trans [OF b fifo_trans [OF c fifo_trans [OF d e]]]])
  have c6: "mail_closed M (world E6)" by (rule fifo_closed [OF d fifo_closed [OF c c3]])
  show "mail_closed M (world E')" by (rule fifo_closed [OF e c6])
  have p6: "mail_pending M (world E6) = []" by (rule executor_stop_empties [OF H m5 6])
  have "recvs (calls E') = recvs (calls E6)"
    using callback_log [OF w(3) 7] by simp
  with e c6 p6 show "mail_pending M (world E') = []" by (auto simp: fifo_def)
qed

lemma answer_awaiter_fifo:
  assumes T: "mail_runtime T M" and run: "answer_awaiter T E = Some (Done r, E')"
  shows "fifo M E hs E' hs"
proof (rule fifo_grows)
  show "calls E' = calls E" by (rule answer_awaiter_calls [OF run])
  have grows: "mail_grows M w w'" if "oneshot_send_actor T h a w = (x, w')" for h a w x w'
    using mail_runtimeD(2) [OF T, of h a] that by (simp add: keeps_def call_run)
  show "world_mail M E E'"
    using run
    by (auto simp: answer_awaiter_def io_simps world_mail_def mail.refl
        split: option.splits prod.splits) (erule grows)
  show "mailbox (ectx E') = mailbox (ectx E)"
    using run by (auto simp: answer_awaiter_def io_simps split: option.splits prod.splits)
qed

lemma fifo_new:
  assumes "fifo M E [] E' []" "calls E = []" "mail_pending M (world E') = []"
  shows "recvs (calls E') = mail_pending M (world E) @ drop (length (mail_sent M (world E))) (mail_sent M (world E')) \<and>
    take (length (mail_sent M (world E))) (mail_sent M (world E')) = mail_sent M (world E)"
  using assms by (auto simp: fifo_def)

text \<open>A whole run.\<close>

lemma run_actor_mail:
  assumes "mail_hyps T P (mailbox c) M"
    and "run_actor T P (executor_new a c w) = Some (Done (), E)"
  shows "recvs (calls E) = mail_pending M w @ drop (length (mail_sent M w)) (mail_sent M (world E)) \<and>
    take (length (mail_sent M w)) (mail_sent M (world E)) = mail_sent M w \<and>
    mail_closed M (world E) \<and> mail_pending M (world E) = []"
proof -
  note H = assms(1)
  from assms(2) obtain E1 E2 E3 r1 r2 r3 where
    1: "callback OnStart (on_start P) (executor_new a c w) = Some (Done r1, E1)" and
    2: "io_loop (run_round T P) E1 = Some (Done r2, E2)" and
    3: "shutdown T P E2 = Some (Done r3, E3)" and
    4: "answer_awaiter T E3 = Some (Done (), E)"
    by (rule run_actor_DoneE)
  have u: "well_behaved T (on_start P)" "keeps (env_mail M) (on_start P)"
    using H by (simp_all add: mail_hyps_def well_behaved_actor_def mail_userD)
  have a: "fifo M (executor_new a c w) [] E1 []" by (rule callback_fifo [OF u 1]) simp
  then have m1: "mailbox (ectx E1) = mailbox c" by (simp add: fifo_def executor_new_def)
  have b: "fifo M E1 [] E2 []" by (rule fifo_ifD [OF fifo.run_loop_keeps H m1 2])
  then have m2: "mailbox (ectx E2) = mailbox c" using m1 by (simp add: fifo_mailbox)
  note s = shutdown_fifo [OF H m2 3]
  have T: "mail_runtime T M" using H by (simp add: mail_hyps_def)
  have d: "fifo M E3 [] E []" by (rule answer_awaiter_fifo [OF T 4])
  have "fifo M (executor_new a c w) [] E []"
    by (rule fifo_trans [OF a fifo_trans [OF b fifo_trans [OF s(1) d]]])
  moreover have c: "mail_closed M (world E)" by (rule fifo_closed [OF d s(2)])
  moreover have "mail_pending M (world E) = []"
    using d s(2,3) answer_awaiter_calls [OF 4] by (auto simp: fifo_def)
  ultimately show ?thesis
    using fifo_new [of M "executor_new a c w" E] by (simp add: executor_new_def)
qed

lemma run_supervised_actor_mail:
  assumes "mail_hyps T P (mailbox c) M"
    and "run_supervised_actor T P (executor_child a c rx w) = Some (Done (), E)"
  shows "recvs (calls E) = mail_pending M w @ drop (length (mail_sent M w)) (mail_sent M (world E)) \<and>
    take (length (mail_sent M w)) (mail_sent M (world E)) = mail_sent M w \<and>
    mail_closed M (world E) \<and> mail_pending M (world E) = []"
proof -
  note H = assms(1)
  from assms(2) obtain E1 E2 r1 r2 where
    1: "callback OnStart (on_start P) (executor_child a c rx w) = Some (Done r1, E1)" and
    2: "io_loop (supervised_round T P) E1 = Some (Done r2, E2)" and
    3: "shutdown T P E2 = Some (Done (), E)"
    by (rule run_supervised_DoneE)
  have u: "well_behaved T (on_start P)" "keeps (env_mail M) (on_start P)"
    using H by (simp_all add: mail_hyps_def well_behaved_actor_def mail_userD)
  have a: "fifo M (executor_child a c rx w) [] E1 []" by (rule callback_fifo [OF u 1]) simp
  then have m1: "mailbox (ectx E1) = mailbox c" by (simp add: fifo_def executor_child_def)
  have b: "fifo M E1 [] E2 []" by (rule fifo_ifD [OF fifo.supervised_loop_keeps H m1 2])
  then have m2: "mailbox (ectx E2) = mailbox c" using m1 by (simp add: fifo_mailbox)
  note s = shutdown_fifo [OF H m2 3]
  have "fifo M (executor_child a c rx w) [] E []"
    by (rule fifo_trans [OF a fifo_trans [OF b s(1)]])
  then show ?thesis
    using fifo_new [of M "executor_child a c rx w" E] s(2,3) by (simp add: executor_child_def)
qed

text \<open>From a mailbox of which nothing was taken yet: all its messages.\<close>

lemma run_actor_all_mail:
  assumes "mail_hyps T P (mailbox c) M" "mail_pending M w = mail_sent M w"
    and "run_actor T P (executor_new a c w) = Some (Done (), E)"
  shows "recvs (calls E) = mail_sent M (world E)"
  using run_actor_mail [OF assms(1,3)] assms(2) by (metis append_take_drop_id)

lemma run_supervised_actor_all_mail:
  assumes "mail_hyps T P (mailbox c) M" "mail_pending M w = mail_sent M w"
    and "run_supervised_actor T P (executor_child a c rx w) = Some (Done (), E)"
  shows "recvs (calls E) = mail_sent M (world E)"
  using run_supervised_actor_mail [OF assms(1,3)] assms(2) by (metis append_take_drop_id)

section \<open>Properties\<close>

text \<open>C1: an actor that has run to its end has handled exactly the messages its mailbox ever accepted from its
  start on, those already there first, in the order they were accepted, each once; the mailbox is closed
  and empty.\<close>

theorem run_actor_fifo:
  assumes "mail_hyps T P (mailbox c) M"
    and "run_actor T P (executor_new a c w) = Some (Done (), E)"
  shows "recvs (calls E) = mail_pending M w @ drop (length (mail_sent M w)) (mail_sent M (world E)) \<and>
    take (length (mail_sent M w)) (mail_sent M (world E)) = mail_sent M w \<and>
    mail_closed M (world E) \<and> mail_pending M (world E) = []"
  using assms by (rule run_actor_mail)

text \<open>C9: the same of a supervised child, which also stops on the word of its supervisor: messages that were
  accepted before it closed its mailbox are handled all the same.\<close>

theorem run_supervised_actor_fifo:
  assumes "mail_hyps T P (mailbox c) M"
    and "run_supervised_actor T P (executor_child a c rx w) = Some (Done (), E)"
  shows "recvs (calls E) = mail_pending M w @ drop (length (mail_sent M w)) (mail_sent M (world E)) \<and>
    take (length (mail_sent M w)) (mail_sent M (world E)) = mail_sent M w \<and>
    mail_closed M (world E) \<and> mail_pending M (world E) = []"
  using assms by (rule run_supervised_actor_mail)

text \<open>A stopped actor works through what is left in its closed mailbox, in order, and leaves it empty.\<close>

theorem executor_stop_drains:
  assumes "mail_hyps T P (mailbox (ectx E)) M" and "mail_closed M (world E)"
    and "executor_stop T P E = Some (Done r, E')"
  shows "recvs (calls E') = recvs (calls E) @ mail_pending M (world E) \<and> mail_pending M (world E') = []"
proof -
  have "mail_pending M (world E') = []"
    by (rule executor_stop_empties [OF assms(1) refl assms(3)])
  moreover have "fifo M E [] E' []"
    by (rule fifo_ifD [OF fifo.stop_keeps assms(1) refl assms(3)])
  ultimately show ?thesis using assms(2) by (auto simp: fifo_def)
qed

text \<open>That work comes to an end, if every single message is finished at some time.\<close>

theorem executor_stop_total:
  assumes "mail_hyps T P (mailbox (ectx E)) M" and "mail_closed M (world E)"
    and "\<And>b F. \<exists>x G. process_message T P b F = Some (x, G)"
  shows "\<exists>x E'. executor_stop T P E = Some (x, E')"
  using executor_stop_total_aux [OF assms(1) refl assms(2,3)] .

end
