(* ===== verification/Children.thy ===== *)
theory Children
  imports Spawned Mail
begin

text \<open>
  Parents and children (\<open>context.rs\<close>, \<open>executor.rs\<close>): a stopping parent keeps its mailbox open until no
  receiver of its notifier is left (how long it waits is in In_Time); a child that nobody awaits reports its end
  before it lets go of its receiver, except when it panicked; a bridge forwards to its parent.
\<close>

section \<open>A parent waits for its children\<close>

lemma stopping_round_closes:
  assumes "stopping_round T P (E, n) = Some (Done (Leave u), (E', n'))"
  shows "\<exists>F. watch_is_closed T (notifier (ectx F)) (world F) \<and>
    E' = set_world (mpsc_close T (mailbox (ectx F))) F"
  using assms
  by (fastforce simp: stopping_round_def io_simps set_world_def
      split: option.splits prod.splits res.splits if_splits stopping_event.splits)

text \<open>The mailbox of a stopping actor is closed, as the last thing \<open>stopping\<close> does, at a moment at which
  no receiver of its notifier is left, that is, no child and no anonymous task that still has one.\<close>

theorem stopping_waits:
  assumes "stopping T P E = Some (Done r, E')"
  shows "\<exists>F. watch_is_closed T (notifier (ectx F)) (world F) \<and>
    E' = set_world (mpsc_close T (mailbox (ectx F))) F"
proof (cases "watch_is_closed T (notifier (ectx E)) (world E)")
  case True
  with assms show ?thesis by (auto simp: stopping_def io_simps set_world_def)
next
  case False
  let ?Q = "\<lambda>E'. \<exists>F. watch_is_closed T (notifier (ectx F)) (world F) \<and>
    E' = set_world (mpsc_close T (mailbox (ectx F))) F"
  have loop: "triple (\<lambda>_. True) (io_loop (stopping_round T P)) (\<lambda>_ (E', n). ?Q E')"
  proof (rule triple_loop, rule tripleI)
    fix s fl t
    assume r: "stopping_round T P s = Some (Done fl, t)"
    obtain F n G n' where st: "s = (F, n)" "t = (G, n')" by (cases s; cases t)
    show "case fl of Again \<Rightarrow> True | Leave b \<Rightarrow> (case t of (E', n) \<Rightarrow> ?Q E')"
      using stopping_round_closes [of T P F n _ G n'] r st by (auto split: flow.split)
  qed
  from False assms obtain w n where
    l: "io_loop (stopping_round T P) (E\<lparr>world := w\<rparr>, 0) = Some (Done r, (E', n))"
    by (auto simp: stopping_def io_simps split: option.splits)
  show ?thesis using tripleD [OF loop _ l] by simp
qed

section \<open>A child tells its parent\<close>

text \<open>\<open>Sender::send\<close>: a send that succeeds has put its message into the channel.\<close>

definition mpsc_delivers :: "('a, 'm, 'w) tokio \<Rightarrow> handle \<Rightarrow> ('m, 'w) mail_view \<Rightarrow> bool" where
  "mpsc_delivers T h M \<longleftrightarrow>
     (\<forall>b w w'. mpsc_send T h b w = Some (Inr (), w') \<longrightarrow> b \<in> set (mail_sent M w'))"

lemma send_async_InrE:
  assumes "send_async T r m w = Some (Done (Inr u), w')"
  shows "mpsc_send T (ref_address r) (BoxEnvelope (envelope_new m)) w = Some (Inr (), w')"
  using assms by (auto simp: send_async_def io_simps split: option.splits prod.splits sum.splits res.splits)

lemma report_dead_actor_DoneE:
  assumes "report_dead_actor T dead_msg supervisor a c (Some rx) w = Some (Done (), w')"
  obtains w2 where "mpsc_send T (ref_address supervisor)
      (BoxEnvelope (envelope_new (dead_msg (Inr \<lparr> dead_actor = a, dead_ctx = c \<rparr>)))) w = Some (Inr (), w2)"
    "w' = watch_drop_rx T rx w2"
proof -
  from assms obtain res w2 where
    1: "send_async T supervisor (dead_msg (Inr \<lparr> dead_actor = a, dead_ctx = c \<rparr>)) w = Some (Done res, w2)"
    and 2: "(case res of Inl _ \<Rightarrow> panic | Inr _ \<Rightarrow> drop_receiver T (Some rx)) w2 = Some (Done (), w')"
    unfolding report_dead_actor_def by (elim io_bind_DoneE)
  from 2 obtain u where "res = Inr u" "w' = watch_drop_rx T rx w2"
    by (cases res) (simp_all add: panic_run drop_receiver_def modify_run)
  with 1 that show thesis by (simp add: send_async_InrE)
qed

text \<open>A child that has ended without anyone awaiting it, and whose block does not panic, has its death in
  the mailbox of its parent, with the struct it ended with, before it lets go of its receiver; so the
  parent, which waits for that, cannot have closed its mailbox before.\<close>

theorem child_reports_death:
  assumes "mpsc_delivers T (ref_address supervisor) M"
    and "spawn_join_child T (child_task T P a c rx) w = Some (Done (Inr (a', c', Some rx')), w1)"
    and "into_future_sender c' = None"
    and "child_block T P dead_msg a c rx supervisor w = Some (Done (), w')"
  shows "\<exists>w2. BoxEnvelope (envelope_new (dead_msg (Inr \<lparr> dead_actor = a', dead_ctx = c' \<rparr>))) \<in> set (mail_sent M w2) \<and>
    w' = watch_drop_rx T rx' w2"
proof -
  let ?b = "BoxEnvelope (envelope_new (dead_msg (Inr \<lparr> dead_actor = a', dead_ctx = c' \<rparr>)))"
  have "report_dead_actor T dead_msg supervisor a' c' (Some rx') w1 = Some (Done (), w')"
    using assms(2-4) by (simp add: child_block_def io_bind_run)
  then obtain w2 where "mpsc_send T (ref_address supervisor) ?b w1 = Some (Inr (), w2)" "w' = watch_drop_rx T rx' w2"
    by (rule report_dead_actor_DoneE)
  with assms(1) show ?thesis unfolding mpsc_delivers_def by blast
qed

text \<open>A child that ended while its struct is awaited hands it to the awaiting caller, and then the parent
  is not told; if that caller is gone the parent gets the struct.\<close>

theorem child_hands_over:
  assumes "spawn_join_child T (child_task T P a c rx) w = Some (Done (Inr (a', c', rcv)), w1)"
    and "into_future_sender c' = Some s"
  shows "child_block T P dead_msg a c rx supervisor w =
    (case oneshot_send_actor T (into_inner s) a' w1 of
       (Inr _, w2) \<Rightarrow> drop_receiver T rcv w2
     | (Inl back, w2) \<Rightarrow>
         report_dead_actor T dead_msg supervisor back (c'\<lparr>into_future_sender := None\<rparr>) rcv w2)"
  using assms by (simp add: child_block_def io_simps split: prod.split sum.split)

text \<open>C36: a child that panicked has lost its receiver before its parent is told of the panic, and whether the
  parent could be told is ignored.\<close>

theorem child_panic_reported_late:
  assumes "mpsc_returns T"
    and "spawn_join_child T (child_task T P a c rx) w = Some (Done (Inl err), w1)"
    and "err_is_panic T err" "\<not> err_is_cancelled T err"
  shows "child_block T P dead_msg a c rx supervisor w =
    (case mpsc_send T (ref_address supervisor) (BoxEnvelope (envelope_new (dead_msg (Inl (ChildPanic err)))))
        (watch_drop_rx T rx w1) of
       None \<Rightarrow> None | Some (_, w2) \<Rightarrow> Some (Done (), w2))"
  using assms
  by (simp add: child_block_def io_seq_run io_bind_run modify_run ret_run dead_actor_panic_def
      send_async_run split: option.split prod.split sum.split)

section \<open>Bridges\<close>

text \<open>What a bridge does with an item: it offers the message to its parent, and stops exactly if the
  parent's mailbox is closed; the message that came back is then dropped.\<close>

theorem forward_send_result:
  assumes "mpsc_returns T"
  shows "forward_send T parent m w =
    (case mpsc_send T (ref_address parent) (BoxEnvelope (envelope_new m)) w of
       None \<Rightarrow> None
     | Some (Inl _, w') \<Rightarrow> Some (Done Break, w')
     | Some (Inr _, w') \<Rightarrow> Some (Done Continue, w'))"
  by (simp add: forward_send_def io_bind_run ret_run send_async_run [OF assms]
      split: option.split prod.split sum.split)

end
