(* ===== verification/Delivery.thy ===== *)
theory Delivery
  imports Lifecycle
begin

text \<open>
  The answers to asks: how the executor's two ways of delivering a message (\<open>executor.rs\<close>) and the
  blocks of \<open>envelope.rs\<close> work together, and what an abort does to the shutdown that follows it.
\<close>

text \<open>An \<open>Ask\<close> that replies: the handler runs once on the message, and its reply goes into the sender
  that came with the message.\<close>

theorem ask_is_answered:
  assumes "handle_ask P m (actor E, ectx E, world E) = Some (Done (Reply v), (a, c, w))"
  shows "deliver_nonblocking T P (BoxResponse (response_new (envelope_new m) tx)) E =
    Some (Done (), E\<lparr>actor := a, ectx := c, world := snd (oneshot_send T tx v w)\<rparr>)"
  using assms
  by (simp add: deliver_nonblocking_def deliver_response_def response_new_def io_simps
      resolve_await_def resolve_ready_def split: prod.split)

text \<open>An \<open>AsyncAsk\<close> under the default scheduler: the handler makes the future from the message, the future
  runs on the actor's struct, and its value goes into the sender that came with the message.\<close>

theorem async_ask_is_answered:
  assumes "watch_subscribe T (notifier (ectx E)) (world E) = (rx, w1)"
    and "watch_borrow_and_update T rx w1 = (seen, w2)"
    and "handle_async_ask P m (actor E, ectx E, w2) = Some (Done fut, (a, c, w3))"
    and "select_answer T rx fut (a, w3) = Some (Done (Some v), (a', w4))"
  shows "deliver_nonblocking T P (BoxAsyncResponse (async_response_new (envelope_new m) tx)) E =
    Some (Done (), E\<lparr>actor := a', ectx := c, world := watch_drop_rx T rx (snd (oneshot_send T tx v w4))\<rparr>)"
  using assms
  by (simp add: deliver_nonblocking_def deliver_async_response_def async_response_new_def io_simps
      resolve_await_def resolve_future_def answer_block_def split: prod.split)

text \<open>C35: an \<open>AsyncAsk\<close> whose handler asks for the blocking scheduler is never answered: the future is made but
  not awaited, and the sender of the answer is dropped with it.\<close>

theorem blocking_async_ask_unanswered:
  assumes "blocking_runs T"
    and "deliver_blocking T P (BoxAsyncResponse (async_response_new (envelope_new m) tx)) E = Some (Done r, E')"
  shows "\<exists>rx w1 seen w2 fut a c w3.
    watch_subscribe T (notifier (ectx E)) (world E) = (rx, w1) \<and>
    watch_borrow_and_update T rx w1 = (seen, w2) \<and>
    handle_async_ask P m (actor E, ectx E, w2) = Some (Done fut, (a, c, w3)) \<and>
    E' = E\<lparr>actor := a, ectx := c, world := oneshot_drop_tx T tx (watch_drop_rx T rx w3)\<rparr>"
proof -
  have "on_env (io_bind (send_message T P (BoxAsyncResponse (async_response_new (envelope_new m) tx)))
      (\<lambda>res. in_actor (resolve_drop T res))) E = Some (Done (), E')"
    using deliver_blocking_runs [OF assms] .
  then show ?thesis
    by (auto simp: deliver_async_response_def async_response_new_def io_simps
        resolve_drop_def resolve_future_def split: option.splits prod.splits res.splits)
qed

text \<open>An actor that is aborted, and so is \<open>Stopped\<close>, is set back to \<open>Stopping\<close> by its shutdown: its
  \<open>on_stopping\<close> is called in that state.\<close>

theorem shutdown_restarts_stopping:
  assumes "blocking_runs T" "well_behaved_actor T P" "state (ectx E) = Stopped"
    and "shutdown T P E = Some (Done r, E')"
  shows "\<exists>rest. calls E' = calls E @ (OnStopping, Stopping) # rest"
  by (rule shutdown_states [OF assms(1,2,4)]) blast

end
