(* ===== verification/Router.thy ===== *)
theory Router
  imports Context
begin

text \<open>
  The router of \<open>utils/router.rs\<close>: an actor that starts \<open>max_actors\<close> children and hands each question
  to the next of them in turn. \<open>A::default()\<close> is a computation \<open>fresh\<close> on the world. The future of a
  question captures the child's address and the retry limit.
\<close>

datatype router_strategy_builder = RoundRobinStrategy

record router_builder =
  builder_max_retry :: usize
  builder_max_actors :: usize
  builder_strategy :: router_strategy_builder

definition router_builder_new :: "usize \<Rightarrow> router_builder" where
  "router_builder_new n =
     \<lparr> builder_max_retry = 0, builder_max_actors = n, builder_strategy = RoundRobinStrategy \<rparr>"

definition set_max_retry :: "usize \<Rightarrow> router_builder \<Rightarrow> router_builder" where
  "set_max_retry m b = b\<lparr>builder_max_retry := m\<rparr>"

definition set_strategy :: "router_strategy_builder \<Rightarrow> router_builder \<Rightarrow> router_builder" where
  "set_strategy s b = b\<lparr>builder_strategy := s\<rparr>"

datatype router_strategy = RoundRobin (rr_index: usize)

record router =
  max_retry :: usize
  max_actors :: usize
  actors :: "actor_ref list"
  strategy :: router_strategy

type_synonym 'w router_env = "router \<times> ctx \<times> 'w"

definition router_new :: "router_builder \<Rightarrow> router" where
  "router_new b = \<lparr> max_retry = builder_max_retry b, max_actors = builder_max_actors b,
     actors = [], strategy = RoundRobin 0 \<rparr>"

definition in_router_ctx :: "('r, 'w cworld) io \<Rightarrow> ('r, 'w router_env) io" where
  "in_router_ctx = zoom snd (\<lambda>cw (r, _). (r, cw))"

definition push_actor :: "actor_ref \<Rightarrow> (unit, 'w router_env) io" where
  "push_actor a = modify (\<lambda>(r, cw). (r\<lparr>actors := actors r @ [a]\<rparr>, cw))"

fun spawn_actors ::
  "('a, 'm, 'w) tokio \<Rightarrow> ('a, 'w, 'x) actor_impl_scheme \<Rightarrow> ('a, 'w) io \<Rightarrow> nat \<Rightarrow> (unit, 'w router_env) io" where
  "spawn_actors T P fresh 0 = ret ()"
| "spawn_actors T P fresh (Suc n) =
     io_bind (in_router_ctx (in_world fresh)) (\<lambda>a.
     io_bind (in_router_ctx (spawn_child T P a)) (\<lambda>r.
     io_seq (push_actor r) (spawn_actors T P fresh n)))"

definition router_on_start ::
  "('a, 'm, 'w) tokio \<Rightarrow> ('a, 'w, 'x) actor_impl_scheme \<Rightarrow> ('a, 'w) io \<Rightarrow> (unit, 'w router_env) io" where
  "router_on_start T P fresh = io_bind (gets (\<lambda>(r, _, _). max_actors r)) (\<lambda>n. spawn_actors T P fresh (unat n))"

fun router_dead_actor :: "'a dead_actor_result \<Rightarrow> (unit, 'w router_env) io" where
  "router_dead_actor (Inr a) = ret ()"
| "router_dead_actor (Inl e) = panic"

text \<open>The future of a question; a \<open>todo!()\<close> panics.\<close>

fun retry_ask :: "('a, 'm, 'w) tokio \<Rightarrow> actor_ref \<Rightarrow> nat \<Rightarrow> 'm \<Rightarrow> ('m, 'w) io" where
  "retry_ask T addr 0 retry_message = panic"
| "retry_ask T addr (Suc n) retry_message =
     io_bind (async_ask T addr retry_message) (\<lambda>res. case res of
         Inr result \<Rightarrow> ret result
       | Inl (AskClosed msg) \<Rightarrow> retry_ask T addr n msg
       | Inl AskDropped \<Rightarrow> panic)"

definition route :: "('a, 'm, 'w) tokio \<Rightarrow> actor_ref \<Rightarrow> usize \<Rightarrow> 'm \<Rightarrow> ('m, 'w) io" where
  "route T addr retries message =
     io_bind (async_ask T addr message) (\<lambda>res. case res of
         Inr result \<Rightarrow> ret result
       | Inl (AskClosed msg) \<Rightarrow> (if retries > 0 then retry_ask T addr (unat retries) msg else panic)
       | Inl AskDropped \<Rightarrow> panic)"

text \<open>\<open>(*index + 1) % self.max_actors\<close>, with its two panics, and the handler of a question.\<close>

definition next_index :: "usize \<Rightarrow> usize \<Rightarrow> (usize, 's) io" where
  "next_index i n = io_bind (usize_add i 1) (\<lambda>j. if n = 0 then panic else ret (j mod n))"

definition router_handle ::
  "('a, 'm, 'w) tokio \<Rightarrow> 'm \<Rightarrow> (('m, 'w) io, 'w router_env) io" where
  "router_handle T message =
     io_bind (gets fst) (\<lambda>self. case strategy self of
       RoundRobin actor_index \<Rightarrow>
         io_seq (io_assert (unat actor_index < length (actors self)))
         (io_bind (next_index actor_index (max_actors self)) (\<lambda>i.
          io_seq (modify (\<lambda>(r, cw). (r\<lparr>strategy := RoundRobin i\<rparr>, cw)))
            (ret (route T (actor_ref_clone (actors self ! unat actor_index)) (max_retry self) message)))))"

definition router_proxy_fail :: "usize \<Rightarrow> (unit, 'w router_env) io" where
  "router_proxy_fail actor_index = modify (\<lambda>(r, c, w). (r, stop c, w))"

section \<open>The rotation\<close>

text \<open>
  A started router has its actors; the index is the number of questions so far modulo their
  number.
\<close>

definition rotation :: "nat \<Rightarrow> nat \<Rightarrow> router \<Rightarrow> bool" where
  "rotation n k r \<longleftrightarrow> 0 < n \<and> length (actors r) = n \<and> unat (max_actors r) = n \<and>
     (\<exists>i. strategy r = RoundRobin i \<and> unat i = k mod n)"

lemma actor_ref_clone_id [simp]: "actor_ref_clone a = a"
  by (simp add: actor_ref_clone_def)

lemma next_index_ret:
  assumes "unat i < unat n"
  shows "\<exists>j. (next_index i n :: (usize, 's) io) = ret j \<and> unat j = (unat i + 1) mod unat n"
proof -
  have "unat n < 2 ^ 64"
    using unsigned_less [of n, where ?'a = nat] by simp
  with assms have no: "unat i + 1 < 2 ^ 64" by linarith
  then have "(next_index i n :: (usize, 's) io) = ret ((i + 1) mod n)"
    using assms by (auto simp: next_index_def usize_add_def)
  moreover have "unat (i + 1) = unat i + 1"
    using no by (simp add: unat_word_ariths)
  then have "unat ((i + 1) mod n) = (unat i + 1) mod unat n"
    by (simp add: unat_mod)
  ultimately show ?thesis by blast
qed

text \<open>One question: no panic, the right actor, and the index one further.\<close>

lemma router_handle_run:
  fixes T :: "('a, 'm, 'w) tokio" and cw :: "'w cworld"
  assumes "strategy r = RoundRobin i" "unat i < length (actors r)"
    and j: "(next_index i (max_actors r) :: (usize, 'w router_env) io) = ret j"
  shows "router_handle T m (r, cw) =
    Some (Done (route T (actors r ! unat i) (max_retry r) m), (r\<lparr>strategy := RoundRobin j\<rparr>, cw))"
  using assms(1,2)
  by (simp add: router_handle_def io_bind_run io_seq_run gets_run modify_run ret_run io_assert_def j)

lemma router_handle_rotation:
  fixes T :: "('a, 'm, 'w) tokio" and cw :: "'w cworld"
  assumes "rotation n k r"
  shows "\<exists>r'. router_handle T m (r, cw) =
      Some (Done (route T (actors r ! (k mod n)) (max_retry r) m), (r', cw)) \<and>
    rotation n (Suc k) r' \<and> actors r' = actors r \<and> max_retry r' = max_retry r"
proof -
  from assms obtain i where i: "strategy r = RoundRobin i" "unat i = k mod n" "0 < n"
    "length (actors r) = n" "unat (max_actors r) = n"
    by (auto simp: rotation_def)
  have lt: "unat i < unat (max_actors r)" using i by simp
  obtain j where j: "(next_index i (max_actors r) :: (usize, 'w router_env) io) = ret j"
    "unat j = (unat i + 1) mod unat (max_actors r)"
    using next_index_ret [OF lt] by blast
  have rot: "rotation n (Suc k) (r\<lparr>strategy := RoundRobin j\<rparr>)"
    using i j(2) by (simp add: rotation_def mod_Suc_eq)
  have run: "router_handle T m (r, cw) =
    Some (Done (route T (actors r ! unat i) (max_retry r) m), (r\<lparr>strategy := RoundRobin j\<rparr>, cw))"
    using i lt by (intro router_handle_run j(1)) simp_all
  show ?thesis
    by (rule exI [of _ "r\<lparr>strategy := RoundRobin j\<rparr>"]) (simp add: run rot i(2))
qed

text \<open>A list of questions, each answered by the future its handler made.\<close>

fun serve :: "('a, 'm, 'w) tokio \<Rightarrow> 'm list \<Rightarrow> (('m, 'w) io list, 'w router_env) io" where
  "serve T [] = ret []"
| "serve T (m # ms) = io_bind (router_handle T m) (\<lambda>fut. io_bind (serve T ms) (\<lambda>futs. ret (fut # futs)))"

definition turns :: "('a, 'm, 'w) tokio \<Rightarrow> nat \<Rightarrow> nat \<Rightarrow> router \<Rightarrow> 'm list \<Rightarrow> ('m, 'w) io list" where
  "turns T n k r ms = map (\<lambda>i. route T (actors r ! ((k + i) mod n)) (max_retry r) (ms ! i)) [0..<length ms]"

lemma turns_Cons:
  "turns T n k r (m # ms) = route T (actors r ! (k mod n)) (max_retry r) m # turns T n (Suc k) r ms"
  by (simp add: turns_def map_upt_Suc del: upt_Suc)

lemma turns_cong: "actors r' = actors r \<Longrightarrow> max_retry r' = max_retry r \<Longrightarrow> turns T n k r' ms = turns T n k r ms"
  by (simp add: turns_def)

lemma serve_rotation:
  assumes "rotation n k r"
  shows "\<exists>r'. serve T ms (r, cw) = Some (Done (turns T n k r ms), (r', cw)) \<and> rotation n (k + length ms) r'"
  using assms
proof (induction ms arbitrary: k r)
  case Nil
  then show ?case by (auto simp: io_simps turns_def)
next
  case (Cons m ms)
  obtain r1 where r1: "router_handle T m (r, cw) =
      Some (Done (route T (actors r ! (k mod n)) (max_retry r) m), (r1, cw))"
    "rotation n (Suc k) r1" "actors r1 = actors r" "max_retry r1 = max_retry r"
    using router_handle_rotation [OF Cons.prems, of T m cw] by (elim exE conjE)
  obtain r2 where r2: "serve T ms (r1, cw) = Some (Done (turns T n (Suc k) r1 ms), (r2, cw))"
    "rotation n (Suc k + length ms) r2"
    using Cons.IH [OF r1(2)] by (elim exE conjE)
  have "serve T (m # ms) (r, cw) = Some (Done (turns T n k r (m # ms)), (r2, cw))"
    unfolding turns_Cons turns_cong [OF r1(3,4), symmetric]
    by (simp only: serve.simps io_bind_run ret_run r1(1) r2(1) option.case prod.case res.case)
  then show ?case using r2(2) by auto
qed

section \<open>Starting a router, and its futures\<close>

lemma spawn_actors_run:
  assumes "spawn_actors T P fresh n (r, cw) = Some (Done (), (r', cw'))"
  shows "length (actors r') = length (actors r) + n \<and> max_actors r' = max_actors r \<and>
    max_retry r' = max_retry r \<and> strategy r' = strategy r"
  using assms
proof (induction n arbitrary: r cw)
  case 0
  then show ?case by (simp add: io_simps)
next
  case (Suc n)
  then obtain a cw1 where "spawn_actors T P fresh n (r\<lparr>actors := actors r @ [a]\<rparr>, cw1) = Some (Done (), (r', cw'))"
    by (auto simp: io_simps in_router_ctx_def push_actor_def split: option.splits res.splits)
  then show ?case using Suc.IH by fastforce
qed

lemma router_on_start_run:
  assumes "router_on_start T P fresh (router_new b, cw) = Some (Done (), (r, cw'))"
  shows "length (actors r) = unat (builder_max_actors b)" "max_actors r = builder_max_actors b"
    "max_retry r = builder_max_retry b" "strategy r = RoundRobin 0"
  using spawn_actors_run [of T P fresh "unat (builder_max_actors b)" "router_new b" cw r cw'] assms
  by (simp_all add: router_on_start_def io_simps router_new_def split: prod.splits)

lemma started_rotation:
  assumes "router_on_start T P fresh (router_new b, cw) = Some (Done (), (r, cw'))"
    and "builder_max_actors b \<noteq> 0"
  shows "rotation (unat (builder_max_actors b)) 0 r"
  using router_on_start_run [OF assms(1)] assms(2)
  by (simp add: rotation_def unat_gt_0)

text \<open>
  The envelope that comes back from a closed mailbox is not the one the code downcasts it to, so an
  \<open>async_ask\<close> that cannot be delivered panics and never returns \<open>AskClosed\<close>.
\<close>

lemma async_ask_never_closed:
  assumes "mpsc_returns T" "async_ask T a m w = Some (Done res, w')"
  shows "res \<noteq> Inl (AskClosed msg)"
  using assms
  by (auto simp: async_ask_def await_answer_def io_simps dest!: mpsc_returnsD(3)
      split: option.splits res.splits sum.splits prod.splits)

section \<open>Properties\<close>

text \<open>C26: a started router with \<open>n > 0\<close> actors serves any list of questions without a panic, question \<open>i\<close> by
  its actor number \<open>i mod n\<close>.\<close>

theorem router_round_robin:
  assumes "router_on_start T P fresh (router_new b, cw) = Some (Done (), (r, cw'))"
    and "builder_max_actors b \<noteq> 0"
  shows "length (actors r) = unat (builder_max_actors b) \<and>
    (\<exists>r'. serve T ms (r, cw') = Some (Done (map (\<lambda>i.
        route T (actors r ! (i mod length (actors r))) (builder_max_retry b) (ms ! i)) [0..<length ms]), (r', cw')))"
proof -
  have l: "length (actors r) = unat (builder_max_actors b)" "max_retry r = builder_max_retry b"
    using router_on_start_run [OF assms(1)] by simp_all
  obtain r' where "serve T ms (r, cw') = Some (Done (turns T (unat (builder_max_actors b)) 0 r ms), (r', cw'))"
    using serve_rotation [OF started_rotation [OF assms], of T ms cw'] by (elim exE conjE)
  then show ?thesis using l by (simp add: turns_def)
qed

text \<open>A router made for no actors panics on its first question.\<close>

theorem router_empty_panics:
  assumes "router_on_start T P fresh (router_new b, cw) = Some (Done (), (r, cw'))"
    and "builder_max_actors b = 0"
  shows "router_handle T m (r, cw') = Some (Panic, (r, cw'))"
  using router_on_start_run [OF assms(1)] assms(2)
  by (simp add: router_handle_def io_simps)

text \<open>The retries of a router never happen: whatever \<open>max_retry\<close> is, the future of a question asks once
  and panics if that fails.\<close>

theorem route_asks_once:
  assumes "mpsc_returns T"
  shows "route T a retries m w =
    io_bind (async_ask T a m) (\<lambda>res. case res of Inr result \<Rightarrow> ret result | Inl _ \<Rightarrow> panic) w"
  using async_ask_never_closed [OF assms, of a m w]
  by (auto simp: route_def io_simps split: option.split res.split sum.split ask_error.split)

end
