(* ===== verification/Permits.thy ===== *)
theory Permits
  imports Executor
begin

text \<open>
  The limit on anonymous actors. \<open>check_anonymous_actors\<close> decides by four cases how many permits it waits
  for; the reference below is their common meaning: as many as there are overflowing tasks and tracked
  tasks that run, whichever is less.
\<close>

definition running_tasks :: "('a, 'm, 'w) tokio \<Rightarrow> ('a, 'm, 'w) actor_ops \<Rightarrow> ('a, 'm, 'w) executor \<Rightarrow> usize" where
  "running_tasks T P E =
     impl_max_anonymous_actors P - sem_available T (max_anonymous_actors (ectx E)) (world E)"

definition wanted_permits :: "('a, 'm, 'w) tokio \<Rightarrow> ('a, 'm, 'w) actor_ops \<Rightarrow> ('a, 'm, 'w) executor \<Rightarrow> usize" where
  "wanted_permits T P E = min (overflow_anonymous_actors (ectx E)) (running_tasks T P E)"

definition check_reference ::
  "('a, 'm, 'w) tokio \<Rightarrow> ('a, 'm, 'w) actor_ops \<Rightarrow> (unit, ('a, 'm, 'w) executor) io" where
  "check_reference T P E =
     (if overflow_anonymous_actors (ectx E) = 0 then Some (Done (), E)
      else io_seq (acquire_and_drop T (max_anonymous_actors (ectx E)) (wanted_permits T P E))
        (set_overflow (overflow_anonymous_actors (ectx E) - wanted_permits T P E)) E)"

lemma word_pos_iff: "0 < (n :: usize) \<longleftrightarrow> n \<noteq> 0"
  by (simp add: word_gt_0)

lemma min_less: "(a :: usize) < b \<Longrightarrow> min a b = a" "\<not> a < b \<Longrightarrow> min a b = b"
  by (auto simp: min_def)

lemma usize_sub_ret: "\<not> a < b \<Longrightarrow> usize_sub a b = ret (a - b)" "b \<le> a \<Longrightarrow> usize_sub a b = ret (a - b)"
  by (auto simp: usize_sub_def)

lemma check_reference_aux:
  assumes "sem_bounded T (max_anonymous_actors (ectx E)) (impl_max_anonymous_actors P)"
  shows "check_anonymous_actors T P E = check_reference T P E"
proof -
  let ?a = "sem_available T (max_anonymous_actors (ectx E)) (world E)"
  let ?m = "impl_max_anonymous_actors P"
  let ?o = "overflow_anonymous_actors (ectx E)"
  have le: "?a \<le> ?m" using assms by (simp add: sem_bounded_def)
  show ?thesis
  proof (cases "?o = 0")
    case True
    then show ?thesis
      by (simp add: check_anonymous_actors_def check_reference_def io_bind_run gets_run ret_run)
  next
    case False
    then show ?thesis
      using le min_less [of ?o "?m - ?a"] min_less [of ?o ?m]
      by (cases "?a = 0"; cases "?o < ?m"; cases "?o < ?m - ?a")
        (simp_all add: check_anonymous_actors_def check_reference_def wanted_permits_def running_tasks_def
          io_bind_run gets_run ret_run usize_sub_ret word_pos_iff del: not_less)
  qed
qed

lemma wanted_permits_le:
  assumes "sem_bounded T (max_anonymous_actors (ectx E)) (impl_max_anonymous_actors P)"
  shows "wanted_permits T P E \<le> overflow_anonymous_actors (ectx E)"
    and "wanted_permits T P E \<le> impl_max_anonymous_actors P"
proof -
  have "running_tasks T P E \<le> impl_max_anonymous_actors P"
    using assms by (simp add: running_tasks_def sem_bounded_def word_sub_le)
  then show "wanted_permits T P E \<le> impl_max_anonymous_actors P"
    by (simp add: wanted_permits_def min_le_iff_disj)
qed (simp add: wanted_permits_def)

lemma unat_as_u32_small: "n \<le> m \<Longrightarrow> unat m < 2 ^ 32 \<Longrightarrow> unat (as_u32 n) = unat n"
  by (simp add: unat_as_u32 word_le_nat_alt)

section \<open>Properties\<close>

text \<open>C20: the check waits for as many permits as there are overflowing tasks and tracked running tasks,
  whichever is less, and takes that number off the overflow count; in particular none of its
  subtractions underflows.\<close>

theorem check_anonymous_actors_reference:
  assumes "sem_bounded T (max_anonymous_actors (ectx E)) (impl_max_anonymous_actors P)"
  shows "check_anonymous_actors T P E = check_reference T P E"
  using assms by (rule check_reference_aux)

text \<open>If the limit of the actor fits in 32 bits, the number of permits it waits for is not truncated, and
  never more than the semaphore has, so that the wait can end.\<close>

theorem wanted_permits_exact:
  assumes "sem_bounded T (max_anonymous_actors (ectx E)) (impl_max_anonymous_actors P)"
    and "unat (impl_max_anonymous_actors P) < 2 ^ 32"
  shows "unat (as_u32 (wanted_permits T P E)) = unat (wanted_permits T P E) \<and>
    wanted_permits T P E \<le> impl_max_anonymous_actors P \<and>
    wanted_permits T P E \<le> overflow_anonymous_actors (ectx E)"
  using unat_as_u32_small [OF wanted_permits_le(2) [OF assms(1)] assms(2)] wanted_permits_le [OF assms(1)]
  by simp

end
