(* ===== verification/Pipes.thy ===== *)
theory Pipes
  imports Io
begin

text \<open>
  What the tasks of \<open>io/mod.rs\<close> and the frames of \<open>io/read/exact.rs\<close> guarantee: every request a task
  takes is answered once, through its own sender, or that sender is dropped; and a frame holds
  exactly the bytes that were taken out of the stream, so that nothing is lost between two reads.
\<close>

section \<open>The protocol of the two tasks\<close>

text \<open>
  An observer of the channels: \<open>log\<close> lists, for a world, the requests a task has received and what
  became of the sender that came with each. \<open>reader_logged\<close> and \<open>writer_logged\<close> say that every
  operation of the environment is seen by it, and nothing else is.
\<close>

datatype 'o pipe_event =
    Requested handle
  | Answered handle "io_error + 'o"
  | Dropped handle
  | ShutdownSent

definition reader_logged :: "('f, 'p, 'o, 'w) reader_env \<Rightarrow> ('w \<Rightarrow> 'o pipe_event list) \<Rightarrow> bool" where
  "reader_logged R log \<longleftrightarrow>
     (\<forall>w f h w'. select_request R w = Some (FutureDone (Some (f, h)), w') \<longrightarrow> log w' = log w @ [Requested h]) \<and>
     (\<forall>w w'. select_request R w = Some (FutureDone None, w') \<longrightarrow> log w' = log w) \<and>
     (\<forall>w ok w'. select_request R w = Some (ParentChanged ok, w') \<longrightarrow> log w' = log w) \<and>
     (\<forall>w w'. select_request R w = Some (ShutdownFired, w') \<longrightarrow> log w' = log w) \<and>
     (\<forall>f w b f' w'. select_frame R (f, w) = Some (b, (f', w')) \<longrightarrow> log w' = log w) \<and>
     (\<forall>h r w. log (send_object R h r w) = log w @ [Answered h r]) \<and>
     (\<forall>h w. log (drop_sender R h w) = log w @ [Dropped h]) \<and>
     (\<forall>w. log (send_shutdown R w) = log w @ [ShutdownSent])"

definition writer_logged :: "'w writer_env \<Rightarrow> ('w \<Rightarrow> unit pipe_event list) \<Rightarrow> bool" where
  "writer_logged R log \<longleftrightarrow>
     (\<forall>w d h w'. select_data R w = Some (FutureDone (Some (d, h)), w') \<longrightarrow> log w' = log w @ [Requested h]) \<and>
     (\<forall>w w'. select_data R w = Some (FutureDone None, w') \<longrightarrow> log w' = log w) \<and>
     (\<forall>w ok w'. select_data R w = Some (ParentChanged ok, w') \<longrightarrow> log w' = log w) \<and>
     (\<forall>w w'. select_data R w = Some (ShutdownFired, w') \<longrightarrow> log w' = log w) \<and>
     (\<forall>d w b w'. select_write R d w = Some (b, w') \<longrightarrow> log w' = log w) \<and>
     (\<forall>h r w. log (send_written R h r w) = log w @ [Answered h r]) \<and>
     (\<forall>h w. log (drop_written R h w) = log w @ [Dropped h])"

text \<open>Each request is followed by the use of its own sender: an answer that \<open>ok\<close> allows, or its drop.\<close>

fun served :: "(io_error + 'o \<Rightarrow> bool) \<Rightarrow> 'o pipe_event list \<Rightarrow> bool" where
  "served ok [] = True"
| "served ok (Requested h # Answered h' r # rest) = (h' = h \<and> ok r \<and> served ok rest)"
| "served ok (Requested h # Dropped h' # rest) = (h' = h \<and> served ok rest)"
| "served ok _ = False"

lemma served_append: "served ok xs \<Longrightarrow> served ok ys \<Longrightarrow> served ok (xs @ ys)"
  by (induction ok xs rule: served.induct) simp_all

fun is_ok :: "io_error + 'o \<Rightarrow> bool" where
  "is_ok (Inl e) = False"
| "is_ok (Inr v) = True"

text \<open>What a \<open>supervisor\<close> call does to the log follows from its \<open>select!\<close>.\<close>

lemma supervisor_cases:
  assumes "supervisor msg sel s = Some (Done r, t)"
  obtains x where "r = Success x" "sel s = Some (FutureDone x, t)"
  | ok where "sel s = Some (ParentChanged ok, t)" "\<And>x. r \<noteq> Success x"
  | "sel s = Some (ShutdownFired, t)" "r = SuperviseShutdown"
proof (cases "sel s")
  case None
  with assms show thesis by (simp add: supervisor_def io_simps)
next
  case (Some p)
  obtain b u where b: "sel s = Some (b, u)" using Some by (cases p) simp
  show thesis
  proof (cases b)
    case (ParentChanged ok)
    have "u = t \<and> (\<forall>x. r \<noteq> Success x)"
      using assms b ParentChanged
      by (cases ok) (auto simp: supervisor_def io_simps split: option.splits supervisor_message.splits)
    then show thesis using that(2) b ParentChanged by auto
  next
    case ShutdownFired
    then show thesis using that(3) assms b by (simp add: supervisor_def io_simps)
  next
    case (FutureDone x)
    then show thesis using that(1) assms b by (simp add: supervisor_def io_simps)
  qed
qed

lemma reader_loggedD:
  assumes "reader_logged R log"
  shows "select_request R w = Some (FutureDone (Some (f, h)), w') \<Longrightarrow> log w' = log w @ [Requested h]"
    and "select_request R w = Some (FutureDone None, w') \<Longrightarrow> log w' = log w"
    and "select_request R w = Some (ParentChanged ok, w') \<Longrightarrow> log w' = log w"
    and "select_request R w = Some (ShutdownFired, w') \<Longrightarrow> log w' = log w"
    and "select_frame R (f, w) = Some (b, (f', w')) \<Longrightarrow> log w' = log w"
    and "log (send_object R k r w) = log w @ [Answered k r]"
    and "log (drop_sender R k w) = log w @ [Dropped k]"
    and "log (send_shutdown R w) = log w @ [ShutdownSent]"
  using assms unfolding reader_logged_def by metis+

lemma writer_loggedD:
  assumes "writer_logged R log"
  shows "select_data R w = Some (FutureDone (Some (d, h)), w') \<Longrightarrow> log w' = log w @ [Requested h]"
    and "select_data R w = Some (FutureDone None, w') \<Longrightarrow> log w' = log w"
    and "select_data R w = Some (ParentChanged ok, w') \<Longrightarrow> log w' = log w"
    and "select_data R w = Some (ShutdownFired, w') \<Longrightarrow> log w' = log w"
    and "select_write R d w = Some (b, w') \<Longrightarrow> log w' = log w"
    and "log (send_written R k r w) = log w @ [Answered k r]"
    and "log (drop_written R k w) = log w @ [Dropped k]"
  using assms unfolding writer_logged_def by metis+

lemma supervised_frame_log:
  assumes "reader_logged R log" "supervisor (reader_parent R \<circ> snd) (select_frame R) (f, w) = Some (Done r, (f', w'))"
  shows "log w' = log w"
  using assms(2) by (rule supervisor_cases) (blast dest: reader_loggedD(5) [OF assms(1)])+

lemma supervised_request_log:
  assumes "reader_logged R log" "supervisor (reader_parent R) (select_request R) w = Some (Done r, w')"
  shows "log w' = log w @ (case r of Success (Some (f, h)) \<Rightarrow> [Requested h] | _ \<Rightarrow> [])"
  using assms(2)
proof (rule supervisor_cases)
  fix x assume "r = Success x" "select_request R w = Some (FutureDone x, w')"
  then show ?thesis
    by (cases x) (auto dest: reader_loggedD(1,2) [OF assms(1)])
next
  fix ok assume "select_request R w = Some (ParentChanged ok, w')" "\<And>x. r \<noteq> Success x"
  then show ?thesis by (cases r) (auto dest: reader_loggedD(3) [OF assms(1)])
qed (auto dest: reader_loggedD(4) [OF assms(1)])

lemma supervised_data_log:
  assumes "writer_logged R log" "supervisor (writer_parent R) (select_data R) w = Some (Done r, w')"
  shows "log w' = log w @ (case r of Success (Some (d, h)) \<Rightarrow> [Requested h] | _ \<Rightarrow> [])"
  using assms(2)
proof (rule supervisor_cases)
  fix x assume "r = Success x" "select_data R w = Some (FutureDone x, w')"
  then show ?thesis
    by (cases x) (auto dest: writer_loggedD(1,2) [OF assms(1)])
next
  fix ok assume "select_data R w = Some (ParentChanged ok, w')" "\<And>x. r \<noteq> Success x"
  then show ?thesis by (cases r) (auto dest: writer_loggedD(3) [OF assms(1)])
qed (auto dest: writer_loggedD(4) [OF assms(1)])

lemma supervised_write_log:
  assumes "writer_logged R log" "supervisor (writer_parent R) (select_write R d) w = Some (Done r, w')"
  shows "log w' = log w"
  using assms(2) by (rule supervisor_cases) (blast dest: writer_loggedD(5) [OF assms(1)])+

text \<open>One request of the reader: the frames leave the log alone until the sender is used.\<close>

lemma frame_round_log:
  assumes R: "reader_logged R log"
  shows "triple (\<lambda>(p, f, w). log w = L) (frame_round R sender)
    (\<lambda>fl (p, f, w). case fl of Again \<Rightarrow> log w = L
       | Leave owned \<Rightarrow> (case owned of Some s \<Rightarrow> s = sender \<and> log w = L
           | None \<Rightarrow> \<exists>v. log w = L @ [Answered sender (Inr v)]))"
  unfolding frame_round_def
proof (rule triple_bind [where M = "\<lambda>_ (p, f, w). log w = L"], goal_cases)
  case 1
  show ?case
    by (auto simp: triple_def zoom_run dest!: supervised_frame_log [OF R] split: option.splits)
next
  case (2 r)
  show ?case
    by (auto simp: triple_def io_simps reader_loggedD(6) [OF R]
        split: supervise.splits sum.splits option.splits prod.splits res.splits)
qed

lemma read_object_log:
  assumes R: "reader_logged R log"
  shows "triple (\<lambda>w. log w = L) (read_object R fr sender)
    (\<lambda>owned w. case owned of Some s \<Rightarrow> s = sender \<and> log w = L
       | None \<Rightarrow> \<exists>v. log w = L @ [Answered sender (Inr v)])"
proof -
  have loop: "triple (\<lambda>(p, f, w). log w = L) (io_loop (frame_round R sender))
    (\<lambda>owned (p, f, w). case owned of Some s \<Rightarrow> s = sender \<and> log w = L
       | None \<Rightarrow> \<exists>v. log w = L @ [Answered sender (Inr v)])"
    by (rule triple_loop, rule triple_post [OF frame_round_log [OF R]])
      (auto split: flow.splits prod.splits)
  show ?thesis
    by (auto simp: triple_def read_object_def dest!: tripleD [OF loop, rotated] split: option.splits prod.splits)
qed

lemma reader_round_log:
  assumes R: "reader_logged R log"
  shows "triple (\<lambda>w. \<exists>ev. log w = L @ ev \<and> served is_ok ev) (reader_round R)
    (\<lambda>fl w. \<exists>ev. log w = L @ ev \<and> served is_ok ev)"
proof (rule tripleI)
  fix w fl t
  assume "\<exists>ev. log w = L @ ev \<and> served is_ok ev"
  then obtain ev where ev: "log w = L @ ev" "served is_ok ev" by blast
  assume "reader_round R w = Some (Done fl, t)"
  then obtain r w1 where r: "supervisor (reader_parent R) (select_request R) w = Some (Done r, w1)"
    and rest: "(case r of
         Success (Some (fr, sender)) \<Rightarrow>
           io_bind (read_object R fr sender) (\<lambda>owned.
           io_seq (case owned of None \<Rightarrow> ret () | Some s \<Rightarrow> modify (drop_sender R s)) (ret Again))
       | SuperviseContinue \<Rightarrow> ret Again
       | Success None \<Rightarrow> ret (Leave ())
       | Dead \<Rightarrow> ret (Leave ())
       | SuperviseShutdown \<Rightarrow> ret (Leave ())) w1 = Some (Done fl, t)"
    unfolding reader_round_def by (elim io_bind_DoneE)
  note l = supervised_request_log [OF R r]
  show "\<exists>ev. log t = L @ ev \<and> served is_ok ev"
  proof (cases "\<exists>f h. r = Success (Some (f, h))")
    case False
    with l have "log w1 = log w" by (auto split: supervise.splits option.splits)
    moreover have "t = w1"
      using False rest by (auto simp: io_simps split: supervise.splits option.splits)
    ultimately show ?thesis using ev by auto
  next
    case True
    then obtain f h where fh: "r = Success (Some (f, h))" by blast
    with rest obtain owned w2 where o: "read_object R f h w1 = Some (Done owned, w2)"
      and t: "t = (case owned of None \<Rightarrow> w2 | Some s \<Rightarrow> drop_sender R s w2)"
      by (auto simp: io_simps split: option.splits res.splits)
    have "log t = log w @ [Requested h, Dropped h] \<or> (\<exists>v. log t = log w @ [Requested h, Answered h (Inr v)])"
      using tripleD [OF read_object_log [OF R] refl o] l fh t
      by (auto simp: reader_loggedD(7) [OF R] split: option.splits)
    then obtain e where "log t = log w @ e" "served is_ok e"
      by fastforce
    with ev show ?thesis by (auto intro: served_append)
  qed
qed

lemma reader_actor_log:
  assumes R: "reader_logged R log" and run: "create_reader_actor R w = Some (Done (), w')"
  shows "\<exists>ev. log w' = log w @ ev @ [ShutdownSent] \<and> served is_ok ev"
proof -
  from run obtain x w1 where 1: "io_loop (reader_round R) w = Some (Done x, w1)" and 2: "w' = send_shutdown R w1"
    unfolding create_reader_actor_def by (elim io_seq_DoneE) (simp add: modify_run)
  have loop: "triple (\<lambda>v. \<exists>ev. log v = log w @ ev \<and> served is_ok ev) (io_loop (reader_round R))
      (\<lambda>_ v. \<exists>ev. log v = log w @ ev \<and> served is_ok ev)"
    by (rule triple_loop, rule triple_post [OF reader_round_log [OF R]]) (simp split: flow.split)
  have "\<exists>ev. log w1 = log w @ ev \<and> served is_ok ev"
    by (rule tripleD [OF loop _ 1]) (rule exI [of _ "[]"], simp)
  with 2 show ?thesis by (auto simp: reader_loggedD(8) [OF R])
qed

lemma writer_round_log:
  assumes R: "writer_logged R log"
  shows "triple (\<lambda>w. \<exists>ev. log w = L @ ev \<and> served (\<lambda>_. True) ev) (writer_round R)
    (\<lambda>fl w. \<exists>ev. log w = L @ ev \<and> served (\<lambda>_. True) ev)"
proof (rule tripleI)
  fix w fl t
  assume "\<exists>ev. log w = L @ ev \<and> served (\<lambda>_. True) ev"
  then obtain ev where ev: "log w = L @ ev" "served (\<lambda>_. True) ev" by blast
  assume run: "writer_round R w = Some (Done fl, t)"
  then obtain r w1 where r: "supervisor (writer_parent R) (select_data R) w = Some (Done r, w1)"
    unfolding writer_round_def by (elim io_bind_DoneE)
  note l = supervised_data_log [OF R r]
  show "\<exists>ev. log t = L @ ev \<and> served (\<lambda>_. True) ev"
  proof (cases "\<exists>d h. r = Success (Some (d, h))")
    case False
    with l have "log w1 = log w" by (auto split: supervise.splits option.splits)
    moreover have "t = w1"
      using False run r by (auto simp: writer_round_def io_simps split: supervise.splits option.splits)
    ultimately show ?thesis using ev by auto
  next
    case True
    then obtain d h where dh: "r = Success (Some (d, h))" by blast
    with run r obtain s w2 where s: "supervisor (writer_parent R) (select_write R d) w1 = Some (Done s, w2)"
      and t: "t = (case s of Success res \<Rightarrow> send_written R h res w2 | _ \<Rightarrow> drop_written R h w2)"
      by (auto simp: writer_round_def io_simps split: option.splits res.splits supervise.splits)
    have "\<exists>res. log t = log w @ [Requested h, Answered h res] \<or> log t = log w @ [Requested h, Dropped h]"
      using supervised_write_log [OF R s] l dh t
      by (auto simp: writer_loggedD(6,7) [OF R] split: supervise.splits)
    then obtain e where "log t = log w @ e" "served (\<lambda>_. True) e"
      by fastforce
    with ev show ?thesis by (auto intro: served_append)
  qed
qed

lemma writer_actor_log:
  assumes R: "writer_logged R log" and run: "create_writer_actor R w = Some (Done (), w')"
  shows "\<exists>ev. log w' = log w @ ev \<and> served (\<lambda>_. True) ev"
proof -
  have loop: "triple (\<lambda>v. \<exists>ev. log v = log w @ ev \<and> served (\<lambda>_. True) ev) (io_loop (writer_round R))
      (\<lambda>_ v. \<exists>ev. log v = log w @ ev \<and> served (\<lambda>_. True) ev)"
    by (rule triple_loop, rule triple_post [OF writer_round_log [OF R]]) (simp split: flow.split)
  show ?thesis
    by (rule tripleD [OF loop _ run [unfolded create_writer_actor_def]]) (rule exI [of _ "[]"], simp)
qed

section \<open>Bytes\<close>

text \<open>
  The documentation of \<open>poll_peek\<close> and \<open>try_read\<close>, over the bytes \<open>avail\<close> that have arrived and were
  not taken: a peek shows the first of them and takes none; a read of no more than there are takes
  exactly as many as it is asked for, and does not fail. More bytes may arrive meanwhile.
\<close>

definition tcp_stream :: "'s tcp_read \<Rightarrow> ('s \<Rightarrow> byte list) \<Rightarrow> bool" where
  "tcp_stream S avail \<longleftrightarrow>
     (\<forall>n s r s'. poll_peek S n s = (r, s') \<longrightarrow> (\<exists>more. avail s' = avail s @ more)) \<and>
     (\<forall>n s bs s'. poll_peek S n s = (Ready (Inr bs), s') \<longrightarrow> bs = take n (avail s')) \<and>
     (\<forall>n s. n \<le> length (avail s) \<longrightarrow> (\<exists>s' more. try_read S n s = (Inr (take n (avail s)), s') \<and>
        avail s' = drop n (avail s) @ more))"

lemma tcp_stream_peek:
  assumes "tcp_stream S avail" "poll_peek S n s = (Ready (Inr bs), s')"
  obtains more where "avail s' = avail s @ more" "bs = take n (avail s')"
  using assms unfolding tcp_stream_def by metis

lemma tcp_stream_try_read:
  assumes "tcp_stream S avail" "n \<le> length (avail s)"
  obtains s' more where "try_read S n s = (Inr (take n (avail s)), s')" "avail s' = drop n (avail s) @ more"
  using assms unfolding tcp_stream_def by blast

lemma overwrite_twice [simp]: "overwrite bs (overwrite bs f) = overwrite bs f"
  by (simp add: overwrite_def)

text \<open>A poll never panics and keeps the size of the buffer; a frame it reads is what it took out.\<close>

lemma read_poll_run:
  assumes S: "tcp_stream S avail" and run: "read_poll S (f, s) = Some (x, (f', s'))"
    and len: "length (buffer f) < 2 ^ 64"
  shows "x \<noteq> Panic \<and> length (buffer f') = length (buffer f) \<and>
    (x = Done (Ready (Inr (Some ()))) \<longrightarrow>
      0 < unat (read f') \<and> unat (read f') \<le> length (buffer f') \<and>
      (\<exists>more. take (unat (read f')) (buffer f') @ avail s' = avail s @ more)) \<and>
    (x = Done (Ready (Inr None)) \<longrightarrow> length (buffer f) = 0 \<or> avail s = [])"
proof -
  obtain r s1 where p: "poll_peek S (length (buffer f)) s = (r, s1)" by force
  consider "r = Pending" | e where "r = Ready (Inl e)" | bs where "r = Ready (Inr bs)"
    by (metis poll.exhaust sum.exhaust)
  then show ?thesis
  proof cases
    case (3 bs)
    obtain m where m: "avail s1 = avail s @ m" "bs = take (length (buffer f)) (avail s1)"
      using tcp_stream_peek [OF S p [unfolded 3]] .
    then have le: "length bs \<le> length (buffer f)" "length bs \<le> length (avail s1)" by simp_all
    obtain s2 more where t: "try_read S (length bs) s1 = (Inr (take (length bs) (avail s1)), s2)"
      "avail s2 = drop (length bs) (avail s1) @ more"
      using tcp_stream_try_read [OF S le(2)] .
    have b: "take (length bs) (avail s1) = bs" using m(2) by (simp add: min_def)
    show ?thesis
    proof (cases "bs = []")
      case True
      with run p 3 have "x = Done (Ready (Inr None))" "f' = overwrite [] f"
        by (simp_all add: read_poll_def)
      with True m show ?thesis by (auto simp: overwrite_def)
    next
      case False
      with run p 3 t le b have x: "x = Done (Ready (Inr (Some ())))" "s' = s2"
        "f' = (overwrite bs f)\<lparr>read := of_nat (length bs)\<rparr>"
        by (simp_all add: read_poll_def)
      have n: "unat (read f') = length bs"
        using x le(1) len by (simp add: unsigned_of_nat take_bit_nat_eq_self)
      have "bs @ avail s' = avail s @ (m @ more)"
        using t(2) b m(1) x(2) by (metis append.assoc append_take_drop_id)
      with x n le False show ?thesis by (auto simp: overwrite_def)
    qed
  qed (use run p in \<open>auto simp: read_poll_def\<close>)
qed

section \<open>Properties\<close>

text \<open>The reader task answers every request it takes through that request's own sender, once, or drops
  the sender, and at its end it tells the writer; an answer is never an error, so an error of the stream
  reaches nobody.\<close>

theorem reader_task_protocol:
  assumes "reader_logged R log" "create_reader_actor R w = Some (Done (), w')"
  shows "\<exists>ev. log w' = log w @ ev @ [ShutdownSent] \<and> served is_ok ev"
  using assms by (rule reader_actor_log)

text \<open>The writer task answers every request with the result of its write, once, or drops the sender.\<close>

theorem writer_task_protocol:
  assumes "writer_logged R log" "create_writer_actor R w = Some (Done (), w')"
  shows "\<exists>ev. log w' = log w @ ev \<and> served (\<lambda>_. True) ev"
  using assms by (rule writer_actor_log)

text \<open>C27: a read never panics and keeps the buffer's size; a frame that was read is not empty, fits in the
  buffer and is exactly what was taken out of the stream; an end is reported only if nothing is there.\<close>

theorem read_frame_exact:
  assumes "tcp_stream S avail" "read_poll S (f, s) = Some (x, (f', s'))" "length (buffer f) < 2 ^ 64"
  shows "x \<noteq> Panic \<and> length (buffer f') = length (buffer f) \<and>
    (x = Done (Ready (Inr (Some ()))) \<longrightarrow> (\<exists>bytes more. as_slice f' s' = Some (Done bytes, s') \<and>
        0 < length bytes \<and> bytes @ avail s' = avail s @ more)) \<and>
    (x = Done (Ready (Inr None)) \<longrightarrow> length (buffer f) = 0 \<or> avail s = [])"
  using read_poll_run [OF assms] by (auto simp: as_slice_def ret_run)

end
