(* ===== verification/Witnesses.thy ===== *)
theory Witnesses
  imports Sample Children Delivery Router Single Permits Pipes
begin

text \<open>
  One run for every property that has hypotheses: each witness applies its property to the sample
  runtime of Sample.thy (or to a small one of its own, for the pipes), with every hypothesis proved there
  and the run evaluated.
\<close>

section \<open>What the sample runtime promises\<close>

lemma sample_returns: "mpsc_returns sample"
  by (auto simp: mpsc_returns_def sample_def split: if_splits)

lemma sample_blocking: "blocking_runs sample"
  by (auto simp: blocking_runs_def sample_def split: option.splits res.splits)

lemma sample_permits: "sem_bounded sample h 2"
  by (simp add: sem_bounded_def sample_def)

lemma adder_simps:
  "on_start adder = ret ()" "pre_run adder = ret ()" "post_run adder = ret ()"
  "on_stopping adder = ret ()" "on_stopped adder = ret ()" "on_end adder = ret ()"
  "handle_send adder m (a, c, w) = Some (Done (), (if m = 0 then (a, stop c, w) else (a + m, c, w)))"
  "handle_ask adder m (a, c, w) = Some (Done (Reply a), (a, c, w))"
  "handle_async_ask adder m (a, c, w) = Some (Done (\<lambda>(a, w). Some (Done (a + m), (a, w))), (a, c, w))"
  "impl_max_anonymous_actors adder = 2"
  "scheduler_send adder m = NonBlocking" "scheduler_ask adder m = NonBlocking"
  "scheduler_async_ask adder m = NonBlocking"
  by (simp_all add: adder_def default_actor_def default_scheduler_def)

lemma adder_well_behaved: "well_behaved_actor T adder"
  by (auto simp: well_behaved_actor_def adder_simps well_behaved_ret)
    (auto simp: well_behaved_def adder_simps split: if_splits intro: api_stop)

lemma sample_view_simps:
  "mail_sent sample_view = accepted" "mail_pending sample_view = queue" "mail_closed sample_view = shut"
  by (simp_all add: sample_view_def)

lemma sample_receiver: "mpsc_receiver sample h sample_view"
  by (auto simp: mpsc_receiver_def sample_def sample_view_simps take_first_def mail_takes_def mail_grows_def
      split: list.splits if_splits intro!: exI)

lemma sample_select: "select_receiver sample h sample_view"
  by (auto simp: select_receiver_def sample_def sample_view_simps take_first_def mail_takes_def mail_grows_def
      split: list.splits if_splits intro!: exI)

lemma sample_runtime: "mail_runtime sample sample_view"
  by (auto simp: mail_runtime_def sample_def sample_view_simps mail_grows_def pair_mail_def put_def
      keeps_def call_run modify_run await_run split: if_splits option.splits res.splits)

lemma adder_mail: "mail_user adder sample_view"
  by (auto simp: mail_user_def adder_simps mail_world.env.keeps_ret)
    (auto simp: keeps_def triple_def adder_simps env_mail_def pair_mail_def mail.refl split: if_splits)

lemma sample_hyps: "mail_hyps sample adder h sample_view"
  by (simp add: mail_hyps_def sample_blocking adder_well_behaved sample_runtime adder_mail
      sample_receiver sample_select)

text \<open>Reading an evaluated run.\<close>

definition run_done :: "('r res \<times> 's) option \<Rightarrow> bool" where
  "run_done v = (case v of Some (Done _, _) \<Rightarrow> True | Some (Panic, _) \<Rightarrow> False | None \<Rightarrow> False)"

lemma run_doneE:
  assumes "run_done v"
  obtains r t where "v = Some (Done r, t)"
  using assms by (auto simp: run_done_def split: option.splits prod.splits res.splits)

definition letter :: "nat \<Rightarrow> nat boxed" where
  "letter m = BoxEnvelope (envelope_new m)"

definition sample_start :: "(nat, nat, adder_world) executor" where
  "sample_start = executor_new 5 sample_ctx (letters [3, 0, 4])"

definition sample_child :: "(nat, nat, adder_world) executor" where
  "sample_child = executor_child 5 sample_ctx 0 (letters [3, 0, 4])"

lemma sample_start_done: "run_done (run_actor sample adder sample_start)"
  by code_simp

lemma sample_child_done: "run_done (run_supervised_actor sample adder sample_child)"
  by code_simp

section \<open>Life cycle and mailbox\<close>

theorem run_actor_lifecycle_witness:
  "\<exists>E. run_actor sample adder sample_start = Some (Done (), E) \<and> (\<exists>running stopping draining.
    map fst (calls E) = OnStart # running @ OnStopping # stopping @ OnStopped # draining @ [OnEnd] \<and>
    message_cycles running \<and> message_cycles stopping \<and> message_cycles draining)"
proof -
  obtain E where E: "run_actor sample adder sample_start = Some (Done (), E)"
    using sample_start_done by (rule run_doneE) simp
  show ?thesis using run_actor_lifecycle [OF E [unfolded sample_start_def]] E by (intro exI [of _ E] conjI)
qed

theorem run_supervised_actor_lifecycle_witness:
  "\<exists>E. run_supervised_actor sample adder sample_child = Some (Done (), E) \<and> (\<exists>running stopping draining.
    map fst (calls E) = OnStart # running @ OnStopping # stopping @ OnStopped # draining @ [OnEnd] \<and>
    message_cycles running \<and> message_cycles stopping \<and> message_cycles draining)"
proof -
  obtain E where E: "run_supervised_actor sample adder sample_child = Some (Done (), E)"
    using sample_child_done by (rule run_doneE) simp
  show ?thesis using run_supervised_actor_lifecycle [OF E [unfolded sample_child_def]] E by (intro exI [of _ E] conjI)
qed

theorem run_actor_states_witness:
  "\<exists>E. run_actor sample adder sample_start = Some (Done (), E) \<and> state (ectx E) = Stopped"
proof -
  obtain E where E: "run_actor sample adder sample_start = Some (Done (), E)"
    using sample_start_done by (rule run_doneE) simp
  show ?thesis
    using run_actor_states [OF sample_blocking adder_well_behaved E [unfolded sample_start_def]] E by blast
qed

theorem run_actor_fifo_witness:
  "\<exists>E. run_actor sample adder sample_start = Some (Done (), E) \<and>
    recvs (calls E) = [letter 3, letter 0, letter 4] @ drop 3 (accepted (world E))"
proof -
  obtain E where E: "run_actor sample adder sample_start = Some (Done (), E)"
    using sample_start_done by (rule run_doneE) simp
  show ?thesis
    using run_actor_fifo [OF sample_hyps E [unfolded sample_start_def]] E
    by (simp add: sample_view_simps letters_def put_def empty_world_def letter_def numeral_3_eq_3)
qed

theorem run_supervised_actor_fifo_witness:
  "\<exists>E. run_supervised_actor sample adder sample_child = Some (Done (), E) \<and>
    recvs (calls E) = [letter 3, letter 0, letter 4] @ drop 3 (accepted (world E))"
proof -
  obtain E where E: "run_supervised_actor sample adder sample_child = Some (Done (), E)"
    using sample_child_done by (rule run_doneE) simp
  show ?thesis
    using run_supervised_actor_fifo [OF sample_hyps E [unfolded sample_child_def]] E
    by (simp add: sample_view_simps letters_def put_def empty_world_def letter_def numeral_3_eq_3)
qed

definition stopped_sample :: "(nat, nat, adder_world) executor" where
  "stopped_sample = executor_new 5 (sample_ctx\<lparr>state := Stopped\<rparr>) ((letters [3, 4])\<lparr>shut := True\<rparr>)"

lemma stopped_sample_shut: "mail_closed sample_view (world stopped_sample)"
  by (simp add: sample_view_simps stopped_sample_def executor_new_def)

theorem executor_stop_drains_witness:
  "\<exists>E'. executor_stop sample adder stopped_sample = Some (Done (), E') \<and>
    recvs (calls E') = [letter 3, letter 4] \<and> queue (world E') = []"
proof -
  have "run_done (executor_stop sample adder stopped_sample)" by code_simp
  then obtain E' where E': "executor_stop sample adder stopped_sample = Some (Done (), E')"
    by (rule run_doneE) simp
  show ?thesis
    using executor_stop_drains [OF sample_hyps stopped_sample_shut E'] E'
    by (simp add: sample_view_simps stopped_sample_def executor_new_def letters_def put_def empty_world_def letter_def numeral_3_eq_3)
qed

lemma sample_simps:
  "select_answer sample h m s = (case m s of None \<Rightarrow> None
     | Some (Panic, s') \<Rightarrow> Some (Panic, s') | Some (Done r, s') \<Rightarrow> Some (Done (Some r), s'))"
  "oneshot_send sample h v w = (Inr (), w\<lparr>answered := answered w @ [(h, v)]\<rparr>)"
  "watch_subscribe sample h w = (0, w\<lparr>watchers := Suc (watchers w)\<rparr>)"
  "watch_borrow_and_update sample h w = (told w, w)"
  "watch_drop_rx sample h w = w\<lparr>watchers := watchers w - 1\<rparr>"
  by (simp_all add: sample_def)

lemma private_handler_total: "private_handler sample m (a, c, w) \<noteq> None"
proof (cases m)
  case (InternalShutdown s)
  then show ?thesis by (simp add: shutdown_handler_def io_simps)
next
  case (InternalAnonymous t)
  then show ?thesis by (cases t) (simp_all add: ret_run)
qed

lemma adder_finishes: "\<exists>x G. process_message sample adder b F = Some (x, G)"
proof -
  have cb: "callback cb (ret ()) F = Some (Done (), F\<lparr>calls := calls F @ [(cb, state (ectx F))]\<rparr>)" for cb F
    by (simp add: callback_def log_call_def io_simps)
  have d: "\<exists>x G. deliver_nonblocking sample adder b F = Some (x, G)" for F
    by (cases b)
      (auto simp: deliver_nonblocking_def deliver_confidential_def deliver_envelope_def deliver_response_def
        deliver_async_response_def envelope_unwrap_def confidential_unwrap_def adder_simps io_simps
        resolve_await_def resolve_ready_def resolve_future_def answer_block_def sample_simps private_handler_total
        split: option.splits res.splits)
  have "box_scheduler adder b = NonBlocking"
    by (cases b) (auto simp: adder_simps split: option.split)
  then show ?thesis
    using d [of "F\<lparr>calls := calls F @ [(PreRun, state (ectx F)), (Recv b, state (ectx F))]\<rparr>"]
    by (auto simp: process_message_def io_seq_run adder_simps cb log_call_def modify_run gets_run
        split: res.split)
qed

theorem executor_stop_total_witness:
  "\<exists>x E'. executor_stop sample adder stopped_sample = Some (x, E')"
  by (rule executor_stop_total [OF sample_hyps stopped_sample_shut adder_finishes])

section \<open>The limit on anonymous actors\<close>

definition busy_sample :: "(nat, nat, adder_world) executor" where
  "busy_sample = executor_new 0 (sample_ctx\<lparr>overflow_anonymous_actors := 3\<rparr>) (empty_world\<lparr>free_permits := 1\<rparr>)"

theorem check_anonymous_actors_reference_witness:
  "check_anonymous_actors sample adder busy_sample = check_reference sample adder busy_sample"
  by (rule check_anonymous_actors_reference) (simp add: adder_simps sample_permits)

theorem wanted_permits_exact_witness:
  "unat (as_u32 (wanted_permits sample adder busy_sample)) = unat (wanted_permits sample adder busy_sample)"
  using wanted_permits_exact [of sample busy_sample adder] by (simp add: adder_simps sample_permits)

section \<open>Parents and children\<close>

theorem stopping_waits_witness:
  "\<exists>E' F. stopping sample adder sample_start = Some (Done (), E') \<and>
    watch_is_closed sample (notifier (ectx F)) (world F) \<and>
    E' = set_world (mpsc_close sample (mailbox (ectx F))) F"
proof -
  have "run_done (stopping sample adder sample_start)" by code_simp
  then obtain E' where E': "stopping sample adder sample_start = Some (Done (), E')"
    by (rule run_doneE) simp
  show ?thesis using stopping_waits [OF E'] E' by blast
qed

definition sample_dead :: "nat dead_actor_result \<Rightarrow> nat" where
  "sample_dead res = (case res of Inr d \<Rightarrow> dead_actor d | Inl e \<Rightarrow> 99)"

definition parent :: actor_ref where
  "parent = ActorRef 0"

text \<open>A child that stops on its only message, in a world that also has the mailbox of its parent open.\<close>

definition open_sample :: "(nat, nat, adder_world) tokio" where
  "open_sample = sample\<lparr>mpsc_close := \<lambda>h w. w\<rparr>"

lemma open_delivers: "mpsc_delivers open_sample h sample_view"
  by (auto simp: mpsc_delivers_def open_sample_def sample_def sample_view_simps put_def split: if_splits)

definition child_end :: "(nat \<times> ctx \<times> handle option) \<times> adder_world" where
  "child_end = ((5, sample_ctx\<lparr>state := Stopped\<rparr>, Some 0), (letters [0])\<lparr>queue := []\<rparr>)"

lemma child_end_run:
  "spawn_join_child open_sample (child_task open_sample adder 5 sample_ctx 0) (letters [0]) =
    Some (Done (Inr (5, sample_ctx\<lparr>state := Stopped\<rparr>, Some 0)), (letters [0])\<lparr>queue := []\<rparr>)"
  by code_simp

theorem child_reports_death_witness:
  "\<exists>w'. child_block open_sample adder sample_dead 5 sample_ctx 0 parent (letters [0]) = Some (Done (), w') \<and>
    (\<exists>w2. letter 5 \<in> set (accepted w2) \<and> w' = watch_drop_rx open_sample 0 w2)"
proof -
  have "run_done (child_block open_sample adder sample_dead 5 sample_ctx 0 parent (letters [0]))"
    by code_simp
  then obtain w' where w': "child_block open_sample adder sample_dead 5 sample_ctx 0 parent (letters [0]) = Some (Done (), w')"
    by (rule run_doneE) simp
  show ?thesis
    using child_reports_death [OF open_delivers child_end_run _ w'] w'
    by (simp add: sample_ctx_def sample_dead_def letter_def sample_view_simps)
qed

definition awaited_ctx :: ctx where
  "awaited_ctx = sample_ctx\<lparr>into_future_sender := Some (Now 7)\<rparr>"

lemma awaited_end_run:
  "spawn_join_child open_sample (child_task open_sample adder 5 awaited_ctx 0) (letters [0]) =
    Some (Done (Inr (5, awaited_ctx\<lparr>state := Stopped\<rparr>, Some 0)), (letters [0])\<lparr>queue := []\<rparr>)"
  by code_simp

theorem child_hands_over_witness:
  "child_block open_sample adder sample_dead 5 awaited_ctx 0 parent (letters [0]) =
    Some (Done (), (letters [0])\<lparr>queue := [], handed := [(7, 5)]\<rparr>)"
  using child_hands_over [OF awaited_end_run, of "Now 7" sample_dead parent]
  by (simp add: awaited_ctx_def open_sample_def sample_def drop_receiver_def modify_run letters_def put_def
      empty_world_def)

definition failing_adder :: "(nat, nat, adder_world) actor_ops" where
  "failing_adder = adder\<lparr>on_start := panic\<rparr>"

lemma panic_end_run:
  "spawn_join_child sample (child_task sample failing_adder 5 sample_ctx 0) empty_world =
    Some (Done (Inl 0), empty_world)"
  by code_simp

theorem child_panic_reported_late_witness:
  "child_block sample failing_adder sample_dead 5 sample_ctx 0 parent empty_world =
    Some (Done (), put (letter 99) empty_world)"
  using child_panic_reported_late [OF sample_returns panic_end_run, of sample_dead parent]
  by (simp add: sample_def sample_dead_def parent_def letter_def empty_world_def put_def)

theorem forward_send_result_witness:
  "forward_send sample parent 4 (empty_world\<lparr>shut := True\<rparr>) = Some (Done Break, empty_world\<lparr>shut := True\<rparr>)"
  using forward_send_result [OF sample_returns, of parent 4 "empty_world\<lparr>shut := True\<rparr>"]
  by (simp add: sample_def)

section \<open>Deliveries\<close>

theorem ask_is_answered_witness:
  "deliver_nonblocking sample adder (BoxResponse (response_new (envelope_new 1) 7)) sample_start =
    Some (Done (), sample_start\<lparr>world := (letters [3, 0, 4])\<lparr>answered := [(7, 5)]\<rparr>\<rparr>)"
  using ask_is_answered [of adder 1 sample_start 5 5 sample_ctx "letters [3, 0, 4]" sample 7]
  by (simp add: sample_start_def executor_new_def adder_simps sample_simps letters_def put_def empty_world_def)

theorem async_ask_is_answered_witness:
  "deliver_nonblocking sample adder (BoxAsyncResponse (async_response_new (envelope_new 1) 7)) sample_start =
    Some (Done (), sample_start\<lparr>world := (letters [3, 0, 4])\<lparr>answered := [(7, 6)]\<rparr>\<rparr>)"
  using async_ask_is_answered [of sample sample_start 0 "(letters [3, 0, 4])\<lparr>watchers := 1\<rparr>" None
      "(letters [3, 0, 4])\<lparr>watchers := 1\<rparr>" adder 1 "\<lambda>(a, w). Some (Done (a + 1), (a, w))" 5 sample_ctx
      "(letters [3, 0, 4])\<lparr>watchers := 1\<rparr>" 6 5 "(letters [3, 0, 4])\<lparr>watchers := 1\<rparr>" 7]
  by (simp add: sample_start_def executor_new_def adder_simps sample_simps letters_def put_def empty_world_def)

theorem blocking_async_ask_unanswered_witness:
  "\<exists>E' w3. deliver_blocking sample adder (BoxAsyncResponse (async_response_new (envelope_new 1) 7)) sample_start =
      Some (Done (), E') \<and> world E' = oneshot_drop_tx sample 7 w3"
proof -
  have "run_done (deliver_blocking sample adder (BoxAsyncResponse (async_response_new (envelope_new 1) 7)) sample_start)"
    by code_simp
  then obtain E' where E': "deliver_blocking sample adder (BoxAsyncResponse (async_response_new (envelope_new 1) 7))
      sample_start = Some (Done (), E')"
    by (rule run_doneE) simp
  show ?thesis using blocking_async_ask_unanswered [OF sample_blocking E'] E' by auto
qed

theorem shutdown_restarts_stopping_witness:
  "\<exists>E' rest. shutdown sample adder stopped_sample = Some (Done (), E') \<and>
    calls E' = (OnStopping, Stopping) # rest"
proof -
  have "run_done (shutdown sample adder stopped_sample)" by code_simp
  then obtain E' where E': "shutdown sample adder stopped_sample = Some (Done (), E')"
    by (rule run_doneE) simp
  have "state (ectx stopped_sample) = Stopped" "calls stopped_sample = []"
    by (simp_all add: stopped_sample_def executor_new_def)
  then show ?thesis
    using shutdown_restarts_stopping [OF sample_blocking adder_well_behaved _ E'] E' by auto
qed

section \<open>Addresses\<close>

definition shut_world :: adder_world where
  "shut_world = empty_world\<lparr>shut := True\<rparr>"

theorem send_result_witness:
  "send sample parent 4 shut_world = Some (Done (Inl (Closed 4)), shut_world)"
  using send_result [OF sample_returns, of parent 4 shut_world]
  by (simp add: sample_def shut_world_def)

theorem send_async_into_inner_witness:
  "io_bind (send_async sample parent 4) (\<lambda>res. case res of
     Inl e \<Rightarrow> io_bind (send_error_into_inner e) (\<lambda>x. ret (Some x)) | Inr _ \<Rightarrow> ret None) shut_world =
   Some (Done (Some 4), shut_world)"
  using send_async_into_inner [OF sample_returns, of parent 4 shut_world] by (simp add: sample_def shut_world_def)

theorem ask_result_witness: "ask sample parent 4 shut_world = Some (Panic, shut_world)"
  using ask_result [OF sample_returns, of parent 4 shut_world] by (simp add: sample_def shut_world_def)

theorem async_ask_result_witness: "async_ask sample parent 4 shut_world = Some (Panic, shut_world)"
  using async_ask_result [OF sample_returns, of parent 4 shut_world] by (simp add: sample_def shut_world_def)

theorem user_code_evolves_witness:
  "ctx_evolves sample_ctx (stop sample_ctx) \<and> sample_ctx \<noteq> stop sample_ctx"
proof -
  have "well_behaved sample (handle_send adder 0)"
    using adder_well_behaved by (simp add: well_behaved_actor_def)
  then have "ctx_evolves sample_ctx (stop sample_ctx)"
    by (rule user_code_evolves [where a = 5 and w = empty_world]) (simp add: adder_simps)
  moreover have "state sample_ctx \<noteq> state (stop sample_ctx)"
    by (simp add: sample_ctx_def stop_def)
  ultimately show ?thesis by auto
qed

theorem anonymous_block_reports_witness:
  "anonymous_block sample parent 0 None (ret 4) empty_world = Some (Done (), put (letter 4) empty_world)"
proof -
  have j: "spawn_join_message sample
      (anonymous_actor_handle sample (select_message sample) (anonymous_actor_new 0) (ret 4)) empty_world =
      Some (Done (Inr \<lparr> anon_result = Some 4, anon_receiver = 0 \<rparr>), empty_world)"
    by (simp add: sample_def anonymous_actor_handle_def anonymous_actor_new_def io_simps empty_world_def)
  show ?thesis
    using anonymous_block_reports [OF sample_returns j, of parent None]
    by (simp add: anonymous_report_def drop_permit_run letter_def sample_def empty_world_def put_def)
qed

section \<open>Routers\<close>

definition pair_router :: "router \<times> ctx \<times> adder_world" where
  "pair_router = (\<lparr> max_retry = 0, max_actors = 2, actors = [ActorRef 0, ActorRef 0], strategy = RoundRobin 0 \<rparr>,
     sample_ctx, empty_world\<lparr>watchers := 2\<rparr>)"

lemma pair_router_start:
  "router_on_start sample adder (ret 5) (router_new (router_builder_new 2), (sample_ctx, empty_world)) =
    Some (Done (), pair_router)"
  by code_simp

theorem router_round_robin_witness:
  "\<exists>r'. serve sample [1, 2, 3] pair_router =
    Some (Done (map (\<lambda>i. route sample (ActorRef 0) 0 ([1, 2, 3] ! i)) [0..<3]), (r', snd pair_router))"
  using router_round_robin [OF pair_router_start [unfolded pair_router_def], of "[1, 2, 3]"]
  by (simp add: pair_router_def router_builder_new_def nth_Cons' upt_rec)

definition empty_router :: router where
  "empty_router = router_new (router_builder_new 0)"

lemma empty_router_start:
  "router_on_start sample adder (ret 5) (router_new (router_builder_new 0), (sample_ctx, empty_world)) =
    Some (Done (), (empty_router, (sample_ctx, empty_world)))"
  by code_simp

theorem router_empty_panics_witness:
  "router_handle sample 1 (empty_router, (sample_ctx, empty_world :: adder_world)) =
    Some (Panic, (empty_router, (sample_ctx, empty_world)))"
  by (rule router_empty_panics [OF empty_router_start]) (simp add: router_builder_new_def)

theorem route_asks_once_witness: "route sample parent 3 4 shut_world = Some (Panic, shut_world)"
  using route_asks_once [OF sample_returns, of parent 3 4 shut_world]
  by (simp add: async_ask_def io_simps sample_def shut_world_def as_any_def unwrap_box_def)

section \<open>Typed addresses\<close>

definition sample_typed :: "('x, adder_world) typed" where
  "sample_typed = \<lparr> typed_channel = (\<lambda>n w. (3, w)),
     typed_try_send = (\<lambda>h x w. if shut w then (Inl (TrySendClosed x), w) else (Inr (), w)),
     typed_send = (\<lambda>h x w. if shut w then Some (Inl x, w) else Some (Inr (), w)),
     typed_send_timeout = (\<lambda>h x d w. if shut w then Some (Inl (SendTimeoutClosed x), w) else Some (Inl (SendTimeout x), w)) \<rparr>"

definition sample_answers :: "(nat, adder_world) answers" where
  "sample_answers = \<lparr> answer_channel = (\<lambda>w. (8, w)), answer_recv = (\<lambda>h w. Some (Inr (Inr 42), w)) \<rparr>"

lemma sample_typed_returns: "typed_returns sample_typed"
  by (simp add: typed_returns_def sample_typed_def)

theorem typed_ref_ask_result_witness:
  "typed_ref_ask sample_typed sample_answers (ActorAskRef 3) 4 shut_world = Some (Done (Inl (AskClosed 4)), shut_world) \<and>
   typed_ref_ask sample_typed sample_answers (ActorAskRef 3) 4 empty_world = Some (Done (Inr 42), empty_world)"
  using typed_ref_ask_result [OF sample_typed_returns, of sample_answers "ActorAskRef 3" 4 shut_world]
    typed_ref_ask_result [OF sample_typed_returns, of sample_answers "ActorAskRef 3" 4 empty_world]
  by (simp add: sample_typed_def sample_answers_def shut_world_def empty_world_def)

definition wanted_kinds :: "address_kind list" where
  "wanted_kinds = [Sender, Asker, AskAsyncer, Sender]"

theorem builder_order_witness:
  "\<exists>b w1 b' w2 out w3. ctx_builder_new sample adder 5 empty_world = Some (Done b, w1) \<and>
    declare_addresses sample sample_typed sample_typed adder wanted_kinds b w1 = Some (Done b', w2) \<and>
    builder_run sample b' w2 = Some (Done out, w3) \<and> (\<exists>refs. out = Some refs \<and> map kind_of refs = wanted_kinds)"
proof -
  have "run_done (ctx_builder_new sample adder 5 empty_world)" by code_simp
  then obtain b w1 where 1: "ctx_builder_new sample adder 5 empty_world = Some (Done b, w1)" by (rule run_doneE)
  have "run_done (io_bind (ctx_builder_new sample adder 5)
      (declare_addresses sample sample_typed sample_typed adder wanted_kinds) empty_world)"
    by code_simp
  with 1 obtain b' w2 where
    2: "declare_addresses sample sample_typed sample_typed adder wanted_kinds b w1 = Some (Done b', w2)"
    by (auto simp: io_bind_run elim: run_doneE)
  obtain out w3 where 3: "builder_run sample b' w2 = Some (Done out, w3)"
    by (simp add: builder_run_def run_top_def io_simps sample_def)
  show ?thesis
    using builder_order [OF 1 2 3] 1 2 3 by (auto simp: wanted_kinds_def)
qed

section \<open>Pipes\<close>

text \<open>
  A world that is its own log, with what the peers will do: the number of requests still to come. The
  frame of the first request is read at once, the stream fails at the next.
\<close>

definition pipe_env :: "(bool, unit, nat, nat \<times> nat pipe_event list) reader_env" where
  "pipe_env = \<lparr>
     select_request = (\<lambda>(n, l). if n = 0 then Some (FutureDone None, (0, l))
       else Some (FutureDone (Some (n = 2, n)), (n - 1, l @ [Requested n]))),
     select_frame = (\<lambda>(f, w). Some (FutureDone (if f then Inr (Some ()) else Inl BrokenPipe), (f, w))),
     reader_parent = (\<lambda>w. None),
     payload_default = (),
     payload_recv = (\<lambda>f. ret (Some 9)),
     send_object = (\<lambda>h r (n, l). (n, l @ [Answered h r])),
     drop_sender = (\<lambda>h (n, l). (n, l @ [Dropped h])),
     send_shutdown = (\<lambda>(n, l). (n, l @ [ShutdownSent])) \<rparr>"

lemma pipe_env_logged: "reader_logged pipe_env snd"
  by (auto simp: reader_logged_def pipe_env_def split: if_splits)

theorem reader_task_protocol_witness:
  "\<exists>w' ev. create_reader_actor pipe_env (2, []) = Some (Done (), w') \<and>
    snd w' = ev @ [ShutdownSent] \<and> served is_ok ev"
proof -
  have "run_done (create_reader_actor pipe_env (2, []))" by code_simp
  then obtain w' where w': "create_reader_actor pipe_env (2, []) = Some (Done (), w')"
    by (rule run_doneE) simp
  show ?thesis using reader_task_protocol [OF pipe_env_logged w'] w' by auto
qed

definition write_env :: "(nat \<times> unit pipe_event list) writer_env" where
  "write_env = \<lparr>
     select_data = (\<lambda>(n, l). if n = 0 then Some (FutureDone None, (0, l))
       else Some (FutureDone (Some ([1, 2], n)), (n - 1, l @ [Requested n]))),
     select_write = (\<lambda>d w. Some (FutureDone (Inr ()), w)),
     writer_parent = (\<lambda>w. None),
     send_written = (\<lambda>h r (n, l). (n, l @ [Answered h r])),
     drop_written = (\<lambda>h (n, l). (n, l @ [Dropped h])) \<rparr>"

lemma write_env_logged: "writer_logged write_env snd"
  by (auto simp: writer_logged_def write_env_def split: if_splits)

theorem writer_task_protocol_witness:
  "\<exists>w' ev. create_writer_actor write_env (2, []) = Some (Done (), w') \<and>
    snd w' = ev \<and> served (\<lambda>_. True) ev"
proof -
  have "run_done (create_writer_actor write_env (2, []))" by code_simp
  then obtain w' where w': "create_writer_actor write_env (2, []) = Some (Done (), w')"
    by (rule run_doneE) simp
  show ?thesis using writer_task_protocol [OF write_env_logged w'] w' by auto
qed

text \<open>A stream is the list of its bytes.\<close>

definition byte_stream :: "byte list tcp_read" where
  "byte_stream = \<lparr> poll_peek = (\<lambda>n s. (Ready (Inr (take n s)), s)),
     try_read = (\<lambda>n s. (Inr (take n s), drop n s)) \<rparr>"

lemma byte_stream_tcp: "tcp_stream byte_stream (\<lambda>s. s)"
  by (simp add: tcp_stream_def byte_stream_def)

theorem read_frame_exact_witness:
  "\<exists>f' s' bytes more. read_poll byte_stream (read_default 2, [10, 20, 30]) =
      Some (Done (Ready (Inr (Some ()))), (f', s')) \<and>
    as_slice f' s' = Some (Done bytes, s') \<and> 0 < length bytes \<and> bytes @ s' = [10, 20, 30] @ more"
proof -
  obtain f' s' where r: "read_poll byte_stream (read_default 2, [10, 20, 30]) =
      Some (Done (Ready (Inr (Some ()))), (f', s'))"
    by (simp add: read_poll_def byte_stream_def read_default_def Let_def)
  show ?thesis
    using read_frame_exact [OF byte_stream_tcp r] r by (auto simp: read_default_def)
qed

end
