(* ===== verification/Machine.thy ===== *)
theory Machine
  imports Mail
begin

text \<open>
  What an actor promises, as a machine of its own: a phase, the messages it has accepted and not yet
  handled, and whether it still accepts any. The machine knows nothing of executors, channels or futures;
  that every finished run of \<open>run_actor\<close> and \<open>run_supervised_actor\<close> (\<open>executor.rs\<close>) is a path of it is the
  refinement proved here.
\<close>

section \<open>The machine\<close>

datatype phase = Fresh | Active | Winding | Draining | Ended

record 'm machine =
  phase :: phase
  inbox :: "'m boxed list"
  sealed :: bool

datatype 'm action = Accept "'m boxed" | Seal | Hook "'m callback" | Handle "'m boxed"

text \<open>
  Anyone can send to an actor whose mailbox is open. Once started the actor handles its messages in order,
  in every phase; it stops listening, and moves on from that phase only when its mailbox is closed; it
  ends only when the mailbox is empty.
\<close>

inductive machine_step :: "'m machine \<Rightarrow> 'm action \<Rightarrow> 'm machine \<Rightarrow> bool" where
  accept: "\<not> sealed s \<Longrightarrow> machine_step s (Accept b) (s\<lparr>inbox := inbox s @ [b]\<rparr>)"
| seal: "machine_step s Seal (s\<lparr>sealed := True\<rparr>)"
| start: "phase s = Fresh \<Longrightarrow> machine_step s (Hook OnStart) (s\<lparr>phase := Active\<rparr>)"
| handle: "phase s \<in> {Active, Winding, Draining} \<Longrightarrow> inbox s = b # bs \<Longrightarrow>
    machine_step s (Handle b) (s\<lparr>inbox := bs\<rparr>)"
| wind: "phase s = Active \<Longrightarrow> machine_step s (Hook OnStopping) (s\<lparr>phase := Winding\<rparr>)"
| drain: "phase s = Winding \<Longrightarrow> sealed s \<Longrightarrow> machine_step s (Hook OnStopped) (s\<lparr>phase := Draining\<rparr>)"
| finish: "phase s = Draining \<Longrightarrow> inbox s = [] \<Longrightarrow> machine_step s (Hook OnEnd) (s\<lparr>phase := Ended\<rparr>)"

inductive machine_path :: "'m machine \<Rightarrow> 'm action list \<Rightarrow> 'm machine \<Rightarrow> bool" where
  path_refl: "machine_path s [] s"
| path_step: "machine_step s a t \<Longrightarrow> machine_path t as u \<Longrightarrow> machine_path s (a # as) u"

inductive_cases machine_path_NilE: "machine_path s [] t"
inductive_cases machine_path_ConsE: "machine_path s (a # as) t"

inductive_simps accept_step [simp]: "machine_step s (Accept b) t"
inductive_simps seal_step [simp]: "machine_step s Seal t"
inductive_simps handle_step [simp]: "machine_step s (Handle b) t"
inductive_simps start_step [simp]: "machine_step s (Hook OnStart) t"
inductive_simps wind_step [simp]: "machine_step s (Hook OnStopping) t"
inductive_simps drain_step [simp]: "machine_step s (Hook OnStopped) t"
inductive_simps finish_step [simp]: "machine_step s (Hook OnEnd) t"

lemma path_Nil [simp]: "machine_path s [] t \<longleftrightarrow> t = s"
  by (auto intro: path_refl elim: machine_path_NilE)

lemma path_Cons: "machine_path s (a # as) u \<longleftrightarrow> (\<exists>t. machine_step s a t \<and> machine_path t as u)"
  by (auto intro: path_step elim: machine_path_ConsE)

lemma path_append: "machine_path s as t \<Longrightarrow> machine_path t bs u \<Longrightarrow> machine_path s (as @ bs) u"
  by (induction rule: machine_path.induct) (auto intro: path_step)

text \<open>What an observer sees of a path: the callbacks, and the messages that came in.\<close>

fun seen :: "'m action list \<Rightarrow> 'm callback list" where
  "seen [] = []"
| "seen (Accept b # as) = seen as"
| "seen (Seal # as) = seen as"
| "seen (Hook cb # as) = cb # seen as"
| "seen (Handle b # as) = PreRun # Recv b # PostRun # seen as"

fun arrivals :: "'m action list \<Rightarrow> 'm boxed list" where
  "arrivals [] = []"
| "arrivals (Accept b # as) = b # arrivals as"
| "arrivals (Seal # as) = arrivals as"
| "arrivals (Hook cb # as) = arrivals as"
| "arrivals (Handle b # as) = arrivals as"

lemma seen_append [simp]: "seen (as @ bs) = seen as @ seen bs"
  by (induction as rule: seen.induct) simp_all

lemma arrivals_append [simp]: "arrivals (as @ bs) = arrivals as @ arrivals bs"
  by (induction as rule: arrivals.induct) simp_all

section \<open>What every path of the machine has\<close>

text \<open>A machine is sealed from \<open>Draining\<close> on, and has nothing left once it ended.\<close>

definition machine_ok :: "'m machine \<Rightarrow> bool" where
  "machine_ok s \<longleftrightarrow> (phase s \<in> {Draining, Ended} \<longrightarrow> sealed s) \<and> (phase s = Ended \<longrightarrow> inbox s = [])"

lemma machine_step_ok: "machine_step s a t \<Longrightarrow> machine_ok s \<Longrightarrow> machine_ok t"
  by (induction rule: machine_step.induct) (auto simp: machine_ok_def)

lemma machine_path_ok: "machine_path s as t \<Longrightarrow> machine_ok s \<Longrightarrow> machine_ok t"
  by (induction rule: machine_path.induct) (auto dest: machine_step_ok)

fun handled :: "'m action list \<Rightarrow> 'm boxed list" where
  "handled [] = []"
| "handled (Accept b # as) = handled as"
| "handled (Seal # as) = handled as"
| "handled (Hook cb # as) = handled as"
| "handled (Handle b # as) = b # handled as"

lemma machine_path_fifo: "machine_path s as t \<Longrightarrow> handled as @ inbox t = inbox s @ arrivals as"
proof (induction rule: machine_path.induct)
  case (path_step s a t as u)
  then show ?case by (cases rule: machine_step.cases) auto
qed simp

text \<open>Once ended, a machine does nothing any more.\<close>

lemma ended_stays: "machine_step s a t \<Longrightarrow> machine_ok s \<Longrightarrow> phase s = Ended \<Longrightarrow> t = s"
  by (induction rule: machine_step.induct) (auto simp: machine_ok_def)

section \<open>The machine of an executor\<close>

definition machine_of :: "('m, 'w) mail_view \<Rightarrow> phase \<Rightarrow> ('a, 'm, 'w) executor \<Rightarrow> 'm machine" where
  "machine_of M ph E = \<lparr> phase = ph, inbox = mail_pending M (world E), sealed = mail_closed M (world E) \<rparr>"

text \<open>A stretch of a run inside one phase: messages come in, some are handled, the mailbox may be closed.\<close>

lemma path_accepts:
  "sealed s \<longrightarrow> bs = [] \<Longrightarrow> machine_path s (map Accept bs) (s\<lparr>inbox := inbox s @ bs\<rparr>)"
proof (induction bs arbitrary: s)
  case (Cons b bs)
  then show ?case using Cons.IH [of "s\<lparr>inbox := inbox s @ [b]\<rparr>"] by (auto simp: path_Cons)
qed simp

lemma path_handles:
  "phase s \<in> {Active, Winding, Draining} \<Longrightarrow> inbox s = hs @ bs \<Longrightarrow>
     machine_path s (map Handle hs) (s\<lparr>inbox := bs\<rparr>)"
proof (induction hs arbitrary: s)
  case (Cons h hs)
  then show ?case using Cons.IH [of "s\<lparr>inbox := hs @ bs\<rparr>"] by (auto simp: path_Cons)
qed simp

lemma seen_simps [simp]:
  "seen (map Accept bs) = []" "arrivals (map Accept bs) = bs" "arrivals (map Handle bs) = []"
  by (induction bs) simp_all

text \<open>\<open>received\<close> reads the handled messages off the callbacks.\<close>

fun received :: "'m callback list \<Rightarrow> 'm boxed list" where
  "received [] = []"
| "received (Recv b # cs) = b # received cs"
| "received (OnStart # cs) = received cs"
| "received (PreRun # cs) = received cs"
| "received (PostRun # cs) = received cs"
| "received (OnStopping # cs) = received cs"
| "received (OnStopped # cs) = received cs"
| "received (OnEnd # cs) = received cs"

lemma received_append [simp]: "received (cs @ ds) = received cs @ received ds"
  by (induction cs rule: received.induct) simp_all

lemma recvs_received: "recvs log = received (map fst log)"
  by (induction log rule: recvs.induct) simp_all

lemma cycles_seen: "message_cycles cs \<Longrightarrow> seen (map Handle (received cs)) = cs"
  by (induction cs rule: message_cycles.induct) simp_all

text \<open>A stretch of a run, from one phase to another, that the machine can follow.\<close>

definition follows ::
  "('m, 'w) mail_view \<Rightarrow> phase \<Rightarrow> ('a, 'm, 'w) executor \<Rightarrow> phase \<Rightarrow> ('a, 'm, 'w) executor \<Rightarrow> bool" where
  "follows M ph E ph' E' \<longleftrightarrow> (\<exists>as. machine_path (machine_of M ph E) as (machine_of M ph' E') \<and>
     map fst (calls E') = map fst (calls E) @ seen as \<and>
     mail_sent M (world E') = mail_sent M (world E) @ arrivals as)"

lemma follows_trans:
  assumes "follows M p E q F" "follows M q F r G"
  shows "follows M p E r G"
proof -
  obtain as bs where
    "machine_path (machine_of M p E) as (machine_of M q F)"
    "map fst (calls F) = map fst (calls E) @ seen as"
    "mail_sent M (world F) = mail_sent M (world E) @ arrivals as"
    "machine_path (machine_of M q F) bs (machine_of M r G)"
    "map fst (calls G) = map fst (calls F) @ seen bs"
    "mail_sent M (world G) = mail_sent M (world F) @ arrivals bs"
    using assms by (auto simp: follows_def)
  then show ?thesis
    unfolding follows_def by (intro exI [of _ "as @ bs"]) (simp add: path_append)
qed

lemma follows_phase:
  assumes f: "fifo M E [] E' []" and c: "adds message_cycles E E'" and ph: "ph \<in> {Active, Winding, Draining}"
  shows "follows M ph E ph E'"
proof -
  obtain cs where cs: "map fst (calls E') = map fst (calls E) @ cs" "message_cycles cs"
    using c by (auto simp: adds_def)
  obtain new where new: "mail_sent M (world E') = mail_sent M (world E) @ new"
    "recvs (calls E') @ mail_pending M (world E') = recvs (calls E) @ mail_pending M (world E) @ new"
    "mail_closed M (world E) \<longrightarrow> new = [] \<and> mail_closed M (world E')"
    using f by (auto simp: fifo_def)
  let ?as = "map Accept new @ map Handle (received cs) @ (if mail_closed M (world E') then [Seal] else [])"
  have p: "received cs @ mail_pending M (world E') = mail_pending M (world E) @ new"
    using new(2) by (simp add: recvs_received cs(1))
  let ?s = "(machine_of M ph E)\<lparr>inbox := mail_pending M (world E) @ new\<rparr>"
  have "machine_path (machine_of M ph E) (map Accept new) ?s"
    using path_accepts [of "machine_of M ph E" new] new(3) by (simp add: machine_of_def)
  moreover have "machine_path ?s (map Handle (received cs)) (?s\<lparr>inbox := mail_pending M (world E')\<rparr>)"
    using ph p by (intro path_handles) (simp_all add: machine_of_def)
  moreover have "machine_path (?s\<lparr>inbox := mail_pending M (world E')\<rparr>)
      (if mail_closed M (world E') then [Seal] else []) (machine_of M ph E')"
    using new(3) by (auto simp: machine_of_def path_Cons)
  ultimately have "machine_path (machine_of M ph E) ?as (machine_of M ph E')"
    by (blast intro: path_append)
  then show ?thesis
    using cs new(1) by (intro follows_def [THEN iffD2] exI [of _ ?as]) (simp add: cycles_seen)
qed

lemma follows_hook:
  assumes f: "fifo M E [] E' []" and c: "calls E' = calls E @ [(cb, st)]" and "received [cb] = []"
    and step: "machine_step (machine_of M ph E) (Hook cb) (machine_of M ph' E)"
  shows "follows M ph E ph' E'"
proof -
  obtain new where new: "mail_sent M (world E') = mail_sent M (world E) @ new"
    "recvs (calls E') @ mail_pending M (world E') = recvs (calls E) @ mail_pending M (world E) @ new"
    "mail_closed M (world E) \<longrightarrow> new = [] \<and> mail_closed M (world E')"
    using f by (auto simp: fifo_def)
  have p: "mail_pending M (world E') = mail_pending M (world E) @ new"
    using new(2) assms(3) by (simp add: recvs_received c)
  let ?as = "Hook cb # map Accept new @ (if mail_closed M (world E') then [Seal] else [])"
  have "machine_path (machine_of M ph' E) (map Accept new) ((machine_of M ph' E)\<lparr>inbox := mail_pending M (world E) @ new\<rparr>)"
    using path_accepts [of "machine_of M ph' E" new] new(3) by (simp add: machine_of_def)
  moreover have "machine_path ((machine_of M ph' E)\<lparr>inbox := mail_pending M (world E) @ new\<rparr>)
      (if mail_closed M (world E') then [Seal] else []) (machine_of M ph' E')"
    using new(3) p by (auto simp: machine_of_def path_Cons)
  ultimately have "machine_path (machine_of M ph E) ?as (machine_of M ph' E')"
    using step by (blast intro: path_step path_append)
  then show ?thesis
    using c new(1) by (intro follows_def [THEN iffD2] exI [of _ ?as]) simp
qed

lemma follows_same:
  assumes "calls E' = calls E" "world E' = world E"
  shows "follows M ph E ph E'"
  using assms by (intro follows_def [THEN iffD2] exI [of _ "[]"]) (simp add: machine_of_def)

lemma set_state_follows: "set_state st E = Some (Done r, E') \<Longrightarrow> follows M ph E ph E'"
  by (rule follows_same) (auto simp: set_state_run)

lemma callback_follows:
  assumes "well_behaved T h" "keeps (env_mail M) h" "callback cb h E = Some (Done r, E')"
    and "received [cb] = []"
    and "machine_step (machine_of M ph E) (Hook cb) (machine_of M ph' E)"
  shows "follows M ph E ph' E'"
proof (rule follows_hook)
  show "fifo M E [] E' []"
    using assms(4) by (intro callback_fifo [OF assms(1-3)]) (simp add: recvs_received)
  show "calls E' = calls E @ [(cb, state (ectx E))]"
    using callback_log [OF assms(1,3)] by blast
qed fact+


section \<open>Refinement\<close>

lemma mail_hyps_callbacks:
  assumes "mail_hyps T P mb M"
  shows "well_behaved T (on_start P)" "well_behaved T (on_stopping P)" "well_behaved T (on_stopped P)"
    "well_behaved T (on_end P)"
    "keeps (env_mail M) (on_start P)" "keeps (env_mail M) (on_stopping P)" "keeps (env_mail M) (on_stopped P)"
    "keeps (env_mail M) (on_end P)"
  using assms by (simp_all add: mail_hyps_def well_behaved_actor_def mail_userD)

lemma follows_mailbox: "fifo M E [] E' [] \<Longrightarrow> mailbox (ectx E) = mb \<Longrightarrow> mailbox (ectx E') = mb"
  by (simp add: fifo_mailbox)

lemma shutdown_follows:
  assumes H: "mail_hyps T P mb M" and mb: "mailbox (ectx E) = mb"
    and run: "shutdown T P E = Some (Done r, E')"
  shows "follows M Active E Ended E'"
proof -
  from run obtain E1 E2 E3 E4 E5 E6 r1 r2 r3 r4 r5 r6 where
    1: "set_state Stopping E = Some (Done r1, E1)" and
    2: "callback OnStopping (on_stopping P) E1 = Some (Done r2, E2)" and
    3: "stopping T P E2 = Some (Done r3, E3)" and
    4: "set_state Stopped E3 = Some (Done r4, E4)" and
    5: "callback OnStopped (on_stopped P) E4 = Some (Done r5, E5)" and
    6: "executor_stop T P E5 = Some (Done r6, E6)" and
    7: "callback OnEnd (on_end P) E6 = Some (Done r, E')"
    by (rule shutdown_DoneE)
  note c = mail_hyps_callbacks [OF H]
  have m2: "mailbox (ectx E2) = mb"
    using fifo_mailbox [OF callback_fifo [OF c(2,6) 2]] fifo_mailbox [OF set_state_fifo [OF 1]] mb by simp
  have f3: "fifo M E2 [] E3 []" by (rule fifo_ifD [OF fifo.stopping_keeps H m2 3])
  have closed3: "mail_closed M (world E3)" by (rule stopping_closes [OF H m2 3])
  have m5: "mailbox (ectx E5) = mb"
    using fifo_mailbox [OF callback_fifo [OF c(3,7) 5]] fifo_mailbox [OF set_state_fifo [OF 4]]
      fifo_mailbox [OF f3] m2 by simp
  have f6: "fifo M E5 [] E6 []" by (rule fifo_ifD [OF fifo.stop_keeps H m5 6])
  have empty6: "mail_pending M (world E6) = []" by (rule executor_stop_empties [OF H m5 6])
  have "follows M Active E Active E1" by (rule set_state_follows [OF 1])
  also have "follows M Active E1 Winding E2"
    by (rule callback_follows [OF c(2,6) 2]) (simp_all add: machine_of_def)
  finally (follows_trans) have "follows M Active E Winding E2" .
  also have "follows M Winding E2 Winding E3"
    using keepsD [OF cycles.stopping_keeps 3] by (intro follows_phase [OF f3]) simp_all
  finally (follows_trans) have "follows M Active E Winding E3" .
  also have "follows M Winding E3 Winding E4" by (rule set_state_follows [OF 4])
  finally (follows_trans) have "follows M Active E Winding E4" .
  also have "follows M Winding E4 Draining E5"
    using closed3 4 by (intro callback_follows [OF c(3,7) 5]) (auto simp: machine_of_def set_state_run)
  finally (follows_trans) have "follows M Active E Draining E5" .
  also have "follows M Draining E5 Draining E6"
    using keepsD [OF cycles.stop_keeps 6] by (intro follows_phase [OF f6]) simp_all
  finally (follows_trans) have "follows M Active E Draining E6" .
  also have "follows M Draining E6 Ended E'"
    using empty6 by (intro callback_follows [OF c(4,8) 7]) (simp_all add: machine_of_def)
  finally (follows_trans) show ?thesis .
qed

lemma answer_awaiter_machine:
  assumes T: "mail_runtime T M" and run: "answer_awaiter T E = Some (Done r, E')"
    and closed: "mail_closed M (world E)"
  shows "machine_of M ph E' = machine_of M ph E" "follows M ph E ph E'"
proof -
  have f: "fifo M E [] E' []" by (rule answer_awaiter_fifo [OF T run])
  have c: "calls E' = calls E" by (rule answer_awaiter_calls [OF run])
  have s: "mail_sent M (world E') = mail_sent M (world E)" and
    m: "machine_of M ph E' = machine_of M ph E"
    using f c closed by (auto simp: fifo_def machine_of_def)
  show "machine_of M ph E' = machine_of M ph E" by (rule m)
  show "follows M ph E ph E'"
    using c s m by (intro follows_def [THEN iffD2] exI [of _ "[]"]) simp
qed

text \<open>A machine that stands where a finished shutdown leaves it has ended.\<close>

lemma shutdown_machine:
  assumes "mail_hyps T P mb M" "mailbox (ectx E) = mb" "shutdown T P E = Some (Done r, E')"
  shows "machine_of M Ended E' = \<lparr> phase = Ended, inbox = [], sealed = True \<rparr>"
  using shutdown_fifo(2,3) [OF assms] by (simp add: machine_of_def)

lemma follows_path:
  "follows M ph E ph' E' \<Longrightarrow> machine_of M ph' E' = s' \<Longrightarrow> calls E = [] \<Longrightarrow>
   \<exists>as. machine_path (machine_of M ph E) as s' \<and> seen as = map fst (calls E') \<and>
     mail_sent M (world E') = mail_sent M (world E) @ arrivals as"
  by (auto simp: follows_def)

lemma start_follows:
  assumes H: "mail_hyps T P mb M" and run: "callback OnStart (on_start P) E = Some (Done r, E')"
  shows "follows M Fresh E Active E'"
  by (rule callback_follows [OF mail_hyps_callbacks(1,5) [OF H] run]) (simp_all add: machine_of_def)

text \<open>C2: every finished run of a top level actor is a path of the machine, from a fresh one with the messages
  that were waiting to an ended one: the callbacks the code makes are those the machine shows, and the
  messages the mailbox accepted are those that came in on the path.\<close>

theorem run_actor_refines:
  assumes "mail_hyps T P (mailbox c) M"
    and "run_actor T P (executor_new a c w) = Some (Done (), E)"
  shows "\<exists>as. machine_path \<lparr> phase = Fresh, inbox = mail_pending M w, sealed = mail_closed M w \<rparr> as
      \<lparr> phase = Ended, inbox = [], sealed = True \<rparr> \<and>
    seen as = map fst (calls E) \<and> mail_sent M (world E) = mail_sent M w @ arrivals as"
proof -
  note H = assms(1)
  from assms(2) obtain E1 E2 E3 r1 r2 r3 where
    1: "callback OnStart (on_start P) (executor_new a c w) = Some (Done r1, E1)" and
    2: "io_loop (run_round T P) E1 = Some (Done r2, E2)" and
    3: "shutdown T P E2 = Some (Done r3, E3)" and
    4: "answer_awaiter T E3 = Some (Done (), E)"
    by (rule run_actor_DoneE)
  have m1: "mailbox (ectx E1) = mailbox c"
    using fifo_mailbox [OF callback_fifo [OF mail_hyps_callbacks(1,5) [OF H] 1]] by (simp add: executor_new_def)
  have f2: "fifo M E1 [] E2 []" by (rule fifo_ifD [OF fifo.run_loop_keeps H m1 2])
  have m2: "mailbox (ectx E2) = mailbox c" using f2 m1 by (simp add: fifo_mailbox)
  have closed3: "mail_closed M (world E3)" by (rule shutdown_fifo(2) [OF H m2 3])
  have "follows M Fresh (executor_new a c w) Active E1" by (rule start_follows [OF H 1])
  also have "follows M Active E1 Active E2"
    using keepsD [OF cycles.run_loop_keeps 2] by (intro follows_phase [OF f2]) simp_all
  finally (follows_trans) have "follows M Fresh (executor_new a c w) Active E2" .
  also have "follows M Active E2 Ended E3" by (rule shutdown_follows [OF H m2 3])
  finally (follows_trans) have "follows M Fresh (executor_new a c w) Ended E3" .
  also have "follows M Ended E3 Ended E"
    using H closed3 by (intro answer_awaiter_machine [OF _ 4]) (simp_all add: mail_hyps_def)
  finally (follows_trans) have "follows M Fresh (executor_new a c w) Ended E" .
  moreover have "machine_of M Ended E = \<lparr> phase = Ended, inbox = [], sealed = True \<rparr>"
    using H closed3 answer_awaiter_machine(1) [OF _ 4] shutdown_machine [OF H m2 3] by (simp add: mail_hyps_def)
  ultimately show ?thesis
    using follows_path by (fastforce simp: machine_of_def executor_new_def)
qed

text \<open>C10: the same of a supervised child: the word of its supervisor only makes it leave \<open>Active\<close>.\<close>

theorem run_supervised_actor_refines:
  assumes "mail_hyps T P (mailbox c) M"
    and "run_supervised_actor T P (executor_child a c rx w) = Some (Done (), E)"
  shows "\<exists>as. machine_path \<lparr> phase = Fresh, inbox = mail_pending M w, sealed = mail_closed M w \<rparr> as
      \<lparr> phase = Ended, inbox = [], sealed = True \<rparr> \<and>
    seen as = map fst (calls E) \<and> mail_sent M (world E) = mail_sent M w @ arrivals as"
proof -
  note H = assms(1)
  from assms(2) obtain E1 E2 r1 r2 where
    1: "callback OnStart (on_start P) (executor_child a c rx w) = Some (Done r1, E1)" and
    2: "io_loop (supervised_round T P) E1 = Some (Done r2, E2)" and
    3: "shutdown T P E2 = Some (Done (), E)"
    by (rule run_supervised_DoneE)
  have m1: "mailbox (ectx E1) = mailbox c"
    using fifo_mailbox [OF callback_fifo [OF mail_hyps_callbacks(1,5) [OF H] 1]] by (simp add: executor_child_def)
  have f2: "fifo M E1 [] E2 []" by (rule fifo_ifD [OF fifo.supervised_loop_keeps H m1 2])
  have m2: "mailbox (ectx E2) = mailbox c" using f2 m1 by (simp add: fifo_mailbox)
  have "follows M Fresh (executor_child a c rx w) Active E1" by (rule start_follows [OF H 1])
  also have "follows M Active E1 Active E2"
    using keepsD [OF cycles.supervised_loop_keeps 2] by (intro follows_phase [OF f2]) simp_all
  finally (follows_trans) have "follows M Fresh (executor_child a c rx w) Active E2" .
  also have "follows M Active E2 Ended E" by (rule shutdown_follows [OF H m2 3])
  finally (follows_trans) have "follows M Fresh (executor_child a c rx w) Ended E" .
  then show ?thesis
    using follows_path [OF _ shutdown_machine [OF H m2 3]] by (fastforce simp: machine_of_def executor_child_def)
qed

end
