(* ===== verification/Awaiting.thy ===== *)
theory Awaiting
  imports Mail
begin

text \<open>
  Awaiting an actor: who gets the struct of an actor that has finished (\<open>run_actor\<close> and the handlers of
  \<open>generic.rs\<close>), and what the checks of \<open>Ctx::drop\<close> (\<open>context.rs\<close>) find then.
\<close>

section \<open>The subscriber of a run\<close>

text \<open>The subscription a message makes, and the one that is left after a list of messages.\<close>

fun subscription :: "'m boxed \<Rightarrow> into_future_sender option" where
  "subscription (BoxConfidential (ConfidentialEnvelope (Some (InternalShutdown m)))) =
     Some (if stop_now m then Now (shutdown_tx m) else UponCompletion (shutdown_tx m))"
| "subscription (BoxConfidential (ConfidentialEnvelope (Some (InternalAnonymous c)))) = None"
| "subscription (BoxConfidential (ConfidentialEnvelope None)) = None"
| "subscription (BoxEnvelope e) = None"
| "subscription (BoxResponse r) = None"
| "subscription (BoxAsyncResponse r) = None"

fun last_subscriber :: "'m boxed list \<Rightarrow> into_future_sender option \<Rightarrow> into_future_sender option" where
  "last_subscriber [] s = s"
| "last_subscriber (b # bs) s =
     last_subscriber bs (case subscription b of None \<Rightarrow> s | Some t \<Rightarrow> Some t)"

lemma last_subscriber_append [simp]:
  "last_subscriber (bs @ cs) s = last_subscriber cs (last_subscriber bs s)"
  by (induction bs arbitrary: s) simp_all

text \<open>Code that leaves the subscriber alone.\<close>

definition env_evolves :: "('a, 'w) env \<Rightarrow> ('a, 'w) env \<Rightarrow> bool" where
  "env_evolves e e' \<longleftrightarrow> ctx_evolves (fst (snd e)) (fst (snd e'))"

interpretation env_evolves: frame_rel env_evolves
  by unfold_locales (auto simp: env_evolves_def ctx_evolves_def)

lemma well_behaved_env_evolves: "well_behaved T h \<Longrightarrow> keeps env_evolves h"
  by (auto simp: keeps_def env_evolves_def intro: well_behaved_evolves)

lemma in_ctx_evolves: "keeps cworld_evolves m \<Longrightarrow> keeps env_evolves (in_ctx m)"
  by (fastforce simp: keeps_def io_simps env_evolves_def cworld_evolves_def split: option.splits)

lemma in_actor_evolves: "keeps env_evolves (in_actor m)"
  by (auto simp: keeps_def io_simps env_evolves_def split: option.splits)

lemma in_world_env_evolves: "keeps env_evolves (in_ctx (in_world m))"
  by (rule in_ctx_evolves) (rule frames_keeps [OF in_world_evolves])

lemma unwrap_env_evolves: "keeps env_evolves (unwrap v)"
  by (auto simp: unwrap_def split: option.split intro: env_evolves.keeps_rules)

lemma envelope_unwrap_env_evolves: "keeps env_evolves (envelope_unwrap e)"
  unfolding envelope_unwrap_def by (intro env_evolves.keeps_rules unwrap_env_evolves)

lemmas env_evolves_rules =
  env_evolves.keeps_rules unwrap_env_evolves envelope_unwrap_env_evolves in_world_env_evolves
  in_actor_evolves in_ctx_evolves [OF frames_keeps [OF anonymous_task_evolves]]

lemma send_message_evolves:
  assumes P: "well_behaved_actor T P" and b: "\<And>e. b \<noteq> BoxConfidential e"
  shows "keeps env_evolves (send_message T P b)"
proof -
  have h: "keeps env_evolves (handle_send P m)" "keeps env_evolves (handle_ask P m)"
    "keeps env_evolves (handle_async_ask P m)" for m
    using P by (auto simp: well_behaved_actor_def intro: well_behaved_env_evolves)
  show ?thesis
    using b by (cases b)
      (auto simp: deliver_envelope_def deliver_response_def deliver_async_response_def
        split: prod.split ask_result.split async_handle.split intro!: env_evolves_rules h)
qed

text \<open>A delivery leaves the subscriber its message asks for, whatever its scheduler.\<close>

definition env_subscribes :: "'m boxed \<Rightarrow> ('a, 'w) env \<Rightarrow> ('a, 'w) env \<Rightarrow> bool" where
  "env_subscribes b e e' \<longleftrightarrow>
     into_future_sender (fst (snd e')) = last_subscriber [b] (into_future_sender (fst (snd e)))"

lemma private_handler_subscribes:
  "keeps (env_subscribes (BoxConfidential (ConfidentialEnvelope (Some m)))) (private_handler T m)"
proof (cases m)
  case (InternalShutdown s)
  then show ?thesis
    by (auto simp: keeps_def shutdown_handler_def io_simps env_subscribes_def stop_def
        subscribe_and_stop_def subscribe_and_wait_def set_into_future_sender_def
        split: option.splits if_splits)
next
  case (InternalAnonymous c)
  then show ?thesis by (cases c) (simp_all add: keeps_def ret_run env_subscribes_def)
qed

lemma send_message_subscribes:
  assumes P: "well_behaved_actor T P"
  shows "keeps (env_subscribes b) (send_message T P b)"
proof (cases "\<exists>e. b = BoxConfidential e")
  case True
  then obtain v where b: "b = BoxConfidential (ConfidentialEnvelope v)"
    by (metis confidential_envelope.exhaust)
  show ?thesis
  proof (cases v)
    case None
    then show ?thesis
      by (simp add: b keeps_def deliver_confidential_def confidential_unwrap_def panic_run)
  next
    case (Some m)
    then show ?thesis
      using private_handler_subscribes [of m T]
      by (fastforce simp: b keeps_def deliver_confidential_def confidential_unwrap_def io_simps
          split: option.splits res.splits)
  qed
next
  case False
  then have s: "subscription b = None"
    by (cases b) simp_all
  have "keeps env_evolves (send_message T P b)"
    using False by (intro send_message_evolves [OF P]) blast
  then show ?thesis
    by (rule keeps_weaken) (auto simp: env_evolves_def ctx_evolves_def env_subscribes_def s)
qed

lemma deliver_subscribes:
  assumes T: "blocking_runs T" and P: "well_behaved_actor T P"
    and run: "(case box_scheduler P b of Blocking \<Rightarrow> deliver_blocking T P b
      | NonBlocking \<Rightarrow> deliver_nonblocking T P b) E = Some (Done r, E')"
  shows "into_future_sender (ectx E') = last_subscriber [b] (into_future_sender (ectx E))"
proof -
  have k: "keeps (env_subscribes b) (io_bind (send_message T P b) (\<lambda>res. in_actor (f res)))" for f
  proof (rule keepsI)
    fix e r e'
    assume "io_bind (send_message T P b) (\<lambda>res. in_actor (f res)) e = Some (Done r, e')"
    then obtain x u where s: "send_message T P b e = Some (Done x, u)" and f: "in_actor (f x) u = Some (Done r, e')"
      by (rule io_bind_DoneE)
    show "env_subscribes b e e'"
      using keepsD [OF send_message_subscribes [OF P] s] f
      by (cases u) (auto simp: env_subscribes_def io_simps split: option.splits)
  qed
  have "\<exists>f (u :: unit). on_env (io_bind (send_message T P b) (\<lambda>res. in_actor (f res))) E = Some (Done u, E')"
  proof (cases "box_scheduler P b")
    case Blocking
    with run have "on_env (io_bind (send_message T P b) (\<lambda>res. in_actor (resolve_drop T res))) E = Some (Done (), E')"
      by (intro deliver_blocking_runs [OF T]) simp
    then show ?thesis by blast
  next
    case NonBlocking
    with run show ?thesis by (auto simp: deliver_nonblocking_def)
  qed
  then obtain f and u :: unit where
    "on_env (io_bind (send_message T P b) (\<lambda>res. in_actor (f res))) E = Some (Done u, E')" by blast
  then show ?thesis
    by (rule on_env_SomeE) (auto simp: env_subscribes_def dest: keepsD [OF k])
qed

text \<open>From one executor state to another.\<close>

definition subscribes :: "('a, 'm, 'w) executor \<Rightarrow> ('a, 'm, 'w) executor \<Rightarrow> bool" where
  "subscribes E E' \<longleftrightarrow> (\<exists>log. calls E' = calls E @ log \<and>
     into_future_sender (ectx E') = last_subscriber (recvs log) (into_future_sender (ectx E)))"

interpretation subscribes: frame_rel subscribes
proof unfold_locales
  show "subscribes E E" for E :: "('a, 'm, 'w) executor"
    by (simp add: subscribes_def)
  show "subscribes E F \<Longrightarrow> subscribes F G \<Longrightarrow> subscribes E G" for E F G :: "('a, 'm, 'w) executor"
    by (auto simp: subscribes_def)
qed

declare subscribes.trans [trans]

lemma callback_subscribes:
  assumes "well_behaved T h" "callback cb h E = Some (Done r, E')" "recvs [(cb, state (ectx E))] = []"
  shows "subscribes E E'"
proof -
  have c: "calls E' = calls E @ [(cb, state (ectx E))]"
    using callback_log [OF assms(1,2)] by blast
  have "ctx_evolves (ectx E) (ectx E')"
    using assms(2)
    by (auto simp: callback_def log_call_def io_seq_run modify_run
        elim!: on_env_SomeE dest: well_behaved_evolves [OF assms(1)])
  with c assms(3) show ?thesis by (auto simp: subscribes_def ctx_evolves_def)
qed

lemma process_message_subscribes:
  assumes T: "blocking_runs T" and P: "well_behaved_actor T P"
  shows "keeps subscribes (process_message T P b)"
proof (rule keepsI)
  fix E r E'
  assume "process_message T P b E = Some (Done r, E')"
  then obtain E1 E2 E3 r1 r2 r3 r4 where
    1: "callback PreRun (pre_run P) E = Some (Done r1, E1)" and
    2: "log_call (Recv b) E1 = Some (Done r2, E2)" and
    3: "(case box_scheduler P b of Blocking \<Rightarrow> deliver_blocking T P b
          | NonBlocking \<Rightarrow> deliver_nonblocking T P b) E2 = Some (Done r3, E3)" and
    4: "callback PostRun (post_run P) E3 = Some (Done r4, E')"
    unfolding process_message_def by (elim io_seq_DoneE) (auto simp: gets_run)
  have w: "well_behaved T (pre_run P)" "well_behaved T (post_run P)"
    using P by (simp_all add: well_behaved_actor_def)
  have "subscribes E E1" by (rule callback_subscribes [OF w(1) 1]) simp
  moreover have "subscribes E1 E3"
    using 2 deliver_subscribes [OF T P 3] deliver_moves [OF T P 3]
    by (auto simp: subscribes_def log_call_def io_simps split: option.split)
  moreover have "subscribes E3 E'" by (rule callback_subscribes [OF w(2) 4]) simp
  ultimately show "subscribes E E'" by (blast intro: subscribes.trans)
qed

lemma check_anonymous_actors_subscribes: "keeps subscribes (check_anonymous_actors T P)"
proof -
  have o: "keeps subscribes (set_overflow n)" for n
    unfolding set_overflow_def by (rule subscribes.keeps_modify) (simp add: subscribes_def)
  have a: "keeps subscribes (acquire_and_drop T sem n)" for sem n
    by (auto simp: keeps_def acquire_and_drop_def in_w_run subscribes_def split: option.splits)
  show ?thesis
    unfolding check_anonymous_actors_def usize_sub_def
    by (intro subscribes.keeps_rules o a allI conjI impI subscribes.keeps_bind | simp split: if_splits)+
qed

definition subscribes_if ::
  "('a, 'm, 'w) tokio \<Rightarrow> ('a, 'm, 'w) actor_ops \<Rightarrow> ('a, 'm, 'w) executor \<Rightarrow> ('a, 'm, 'w) executor \<Rightarrow> bool" where
  "subscribes_if T P E E' \<longleftrightarrow> blocking_runs T \<and> well_behaved_actor T P \<longrightarrow> subscribes E E'"

interpretation subscribes_if: executor_parts "subscribes_if T P" T P for T P
proof unfold_locales
  show "subscribes_if T P E E" for E
    by (simp add: subscribes_if_def subscribes.refl)
  show "subscribes_if T P E F \<Longrightarrow> subscribes_if T P F G \<Longrightarrow> subscribes_if T P E G" for E F G
    by (auto simp: subscribes_if_def intro: subscribes.trans)
  show "subscribes_if T P E (E\<lparr>world := w\<rparr>)" for E w
    by (simp add: subscribes_if_def subscribes_def)
  show "keeps (subscribes_if T P) (process_message T P msg)" for msg
    using process_message_subscribes [of T P msg] by (auto simp: keeps_def subscribes_if_def)
  show "keeps (subscribes_if T P) (check_anonymous_actors T P)"
    using check_anonymous_actors_subscribes [of T P] by (auto simp: keeps_def subscribes_if_def)
qed


lemma subscribes_ifD:
  "keeps (subscribes_if T P) m \<Longrightarrow> blocking_runs T \<Longrightarrow> well_behaved_actor T P \<Longrightarrow>
     m E = Some (Done r, E') \<Longrightarrow> subscribes E E'"
  by (auto simp: keeps_def subscribes_if_def)

lemma set_state_subscribes: "set_state st E = Some (Done r, E') \<Longrightarrow> subscribes E E'"
  by (auto simp: set_state_run subscribes_def)

lemma shutdown_subscribes:
  assumes T: "blocking_runs T" and P: "well_behaved_actor T P" and run: "shutdown T P E = Some (Done r, E')"
  shows "subscribes E E'"
proof -
  from run obtain E1 E2 E3 E4 E5 E6 r1 r2 r3 r4 r5 r6 where
    1: "set_state Stopping E = Some (Done r1, E1)" and
    2: "callback OnStopping (on_stopping P) E1 = Some (Done r2, E2)" and
    3: "stopping T P E2 = Some (Done r3, E3)" and
    4: "set_state Stopped E3 = Some (Done r4, E4)" and
    5: "callback OnStopped (on_stopped P) E4 = Some (Done r5, E5)" and
    6: "executor_stop T P E5 = Some (Done r6, E6)" and
    7: "callback OnEnd (on_end P) E6 = Some (Done r, E')"
    by (rule shutdown_DoneE)
  have w: "well_behaved T (on_stopping P)" "well_behaved T (on_stopped P)" "well_behaved T (on_end P)"
    using P by (simp_all add: well_behaved_actor_def)
  have "subscribes E E1" by (rule set_state_subscribes [OF 1])
  also have "subscribes E1 E2" by (rule callback_subscribes [OF w(1) 2]) simp
  also have "subscribes E2 E3" by (rule subscribes_ifD [OF subscribes_if.stopping_keeps T P 3])
  also have "subscribes E3 E4" by (rule set_state_subscribes [OF 4])
  also have "subscribes E4 E5" by (rule callback_subscribes [OF w(2) 5]) simp
  also have "subscribes E5 E6" by (rule subscribes_ifD [OF subscribes_if.stop_keeps T P 6])
  also have "subscribes E6 E'" by (rule callback_subscribes [OF w(3) 7]) simp
  finally show ?thesis .
qed

text \<open>C4: who gets the struct of an actor that has finished: the last thing its run does is to send the final
  struct to the last of the callers that subscribed to it; without one it sends nothing, and in the end
  nobody is left subscribed.\<close>

theorem run_actor_hands_over:
  assumes "blocking_runs T" "well_behaved_actor T P"
    and "run_actor T P (executor_new a c w) = Some (Done (), E)"
  shows "\<exists>F. io_seq (callback OnStart (on_start P)) (io_seq (io_loop (run_round T P)) (shutdown T P))
      (executor_new a c w) = Some (Done (), F) \<and>
    actor E = actor F \<and> calls E = calls F \<and> ectx E = (ectx F)\<lparr>into_future_sender := None\<rparr> \<and>
    world E = (case last_subscriber (recvs (calls E)) (into_future_sender c) of
        None \<Rightarrow> world F
      | Some s \<Rightarrow> snd (oneshot_send_actor T (into_inner s) (actor E) (world F)))"
proof -
  from assms(3) obtain E1 E2 F r1 r2 r3 where
    1: "callback OnStart (on_start P) (executor_new a c w) = Some (Done r1, E1)" and
    2: "io_loop (run_round T P) E1 = Some (Done r2, E2)" and
    3: "shutdown T P E2 = Some (Done r3, F)" and
    4: "answer_awaiter T F = Some (Done (), E)"
    by (rule run_actor_DoneE)
  have "subscribes (executor_new a c w) E1"
    using assms(2) by (intro callback_subscribes [where T = T, OF _ 1]) (simp_all add: well_behaved_actor_def)
  also have "subscribes E1 E2" by (rule subscribes_ifD [OF subscribes_if.run_loop_keeps assms(1,2) 2])
  also have "subscribes E2 F" by (rule shutdown_subscribes [OF assms(1,2) 3])
  finally have "into_future_sender (ectx F) = last_subscriber (recvs (calls F)) (into_future_sender c)"
    by (auto simp: subscribes_def executor_new_def)
  then have "actor E = actor F \<and> calls E = calls F \<and> ectx E = (ectx F)\<lparr>into_future_sender := None\<rparr> \<and>
    world E = (case last_subscriber (recvs (calls F)) (into_future_sender c) of
        None \<Rightarrow> world F
      | Some s \<Rightarrow> snd (oneshot_send_actor T (into_inner s) (actor F) (world F)))"
    using 4 by (auto simp: answer_awaiter_def io_simps split: option.splits prod.splits)
  moreover have "io_seq (callback OnStart (on_start P)) (io_seq (io_loop (run_round T P)) (shutdown T P))
      (executor_new a c w) = Some (Done (), F)"
    using 1 2 3 by (simp add: io_seq_run)
  ultimately show ?thesis by (intro exI [of _ F]) (simp split: option.split)
qed


section \<open>Dropping the context\<close>

text \<open>
  \<open>Drop\<close> of \<open>Ctx\<close>, which test builds have. Which error \<open>try_recv\<close> gives on an empty mailbox (\<open>disconnected\<close>) and
  the number of receivers of the notifier are parameters.
\<close>

definition ctx_drop ::
  "('a, 'm, 'w) tokio \<Rightarrow> (handle \<Rightarrow> 'w \<Rightarrow> bool) \<Rightarrow> (handle \<Rightarrow> 'w \<Rightarrow> nat) \<Rightarrow> ctx \<Rightarrow> (unit, 'w) io" where
  "ctx_drop T disconnected receiver_count self =
     io_bind (call (mpsc_try_recv T (mailbox self))) (\<lambda>res.
     io_seq (case res of
         None \<Rightarrow> io_bind (gets (disconnected (mailbox self))) (\<lambda>d. io_assert (\<not> d))
       | Some _ \<Rightarrow> ret ())
     (io_seq (if state self = Running then ret () else io_assert (state self = Stopped))
     (io_bind (gets (receiver_count (notifier self))) (\<lambda>n.
      io_seq (io_assert (n = 0)) (io_assert (into_future_sender self = None))))))"

lemma mpsc_try_recv_closed:
  assumes R: "mpsc_receiver T mb M" and "mail_closed M w" "mail_pending M w = []"
  shows "mpsc_try_recv T mb w = (None, w)"
proof -
  obtain x w' where x: "mpsc_try_recv T mb w = (x, w')" by force
  show ?thesis
  proof (cases x)
    case None
    with x mpsc_receiverD(1) [OF R] show ?thesis by simp
  next
    case (Some b)
    with x have "mail_takes M b w w'" by (intro mpsc_receiverD(2) [OF R]) simp
    with assms(2,3) show ?thesis by (auto dest: mail_takes_closed)
  qed
qed

text \<open>The context that a run leaves.\<close>

lemma answer_awaiter_ctx:
  "answer_awaiter T E = Some (Done r, E') \<Longrightarrow>
     ectx E' = (ectx E)\<lparr>into_future_sender := None\<rparr>"
  by (auto simp: answer_awaiter_def io_simps split: option.splits prod.splits)

lemma run_actor_ctx:
  assumes H: "mail_hyps T P (mailbox c) M"
    and run: "run_actor T P (executor_new a c w) = Some (Done (), E)"
  shows "mailbox (ectx E) = mailbox c \<and> into_future_sender (ectx E) = None \<and> state (ectx E) = Stopped"
proof -
  from run obtain E1 E2 E3 r1 r2 r3 where
    1: "callback OnStart (on_start P) (executor_new a c w) = Some (Done r1, E1)" and
    2: "io_loop (run_round T P) E1 = Some (Done r2, E2)" and
    3: "shutdown T P E2 = Some (Done r3, E3)" and
    4: "answer_awaiter T E3 = Some (Done (), E)"
    by (rule run_actor_DoneE)
  have T: "blocking_runs T" "well_behaved_actor T P" "mail_runtime T M" "mail_user P M"
    using H by (simp_all add: mail_hyps_def)
  have w: "well_behaved T (on_start P)" "keeps (env_mail M) (on_start P)"
    using T by (simp_all add: well_behaved_actor_def mail_userD)
  have m1: "mailbox (ectx E1) = mailbox c"
    using fifo_mailbox [OF callback_fifo [OF w 1]] by (simp add: executor_new_def)
  have m2: "mailbox (ectx E2) = mailbox c"
    using fifo_mailbox [OF fifo_ifD [OF fifo.run_loop_keeps H m1 2]] m1 by simp
  have "mailbox (ectx E3) = mailbox c"
    using fifo_mailbox [OF shutdown_fifo(1) [OF H m2 3]] m2 by simp
  moreover have "state (ectx E3) = Stopped" by (rule shutdown_states [OF T(1,2) 3])
  ultimately show ?thesis using answer_awaiter_ctx [OF 4] by simp
qed

text \<open>What the destructor of the context checks in test builds: after a finished run the mailbox is empty,
  the state \<open>Stopped\<close> and nobody subscribed, so it does not panic unless a task that was started during the
  drain still has a receiver.\<close>

theorem ctx_drop_after_run:
  assumes "mail_hyps T P (mailbox c) M"
    and "run_actor T P (executor_new a c w) = Some (Done (), E)"
    and "\<not> disconnected (mailbox c) (world E)"
  shows "ctx_drop T disconnected receiver_count (ectx E) (world E) =
    Some (if receiver_count (notifier (ectx E)) (world E) = 0 then Done () else Panic, world E)"
proof -
  note e = run_actor_ctx [OF assms(1,2)] run_actor_mail [OF assms(1,2)]
  have "mpsc_receiver T (mailbox c) M" using assms(1) by (simp add: mail_hyps_def)
  then have "mpsc_try_recv T (mailbox c) (world E) = (None, world E)"
    using e by (auto intro: mpsc_try_recv_closed)
  with e assms(3) show ?thesis by (simp add: ctx_drop_def io_simps)
qed

end
