(* ===== verification/Liveness.thy ===== *)
theory Liveness
  imports Awaiting
begin

text \<open>
  That an actor which is awaited does end (\<open>executor.rs\<close>): the loop of a running actor reaches the request
  in its mailbox, a stopping actor gives up at the latest eleven idle seconds after its last message, and
  the drain ends. Where the code has no such bound, that it does not end is proved instead.
\<close>

section \<open>Loops that do not end\<close>

lemma io_loop_diverges:
  assumes "I s" "\<And>s. I s \<Longrightarrow> \<exists>t. body s = Some (Done Again, t) \<and> I t"
  shows "io_loop body s = None"
proof (rule ccontr)
  assume "io_loop body s \<noteq> None"
  then obtain x t where run: "io_loop body s = Some (x, t)" by (auto simp: not_None_eq)
  have "False"
    by (rule io_loop_rule [where I = I and Q = "\<lambda>_ _. False", OF run assms(1)])
      (use assms(2) in fastforce)+
  then show False .
qed

section \<open>The stopping loop ends\<close>

text \<open>
  What the others still send: \<open>budget w\<close> bounds the messages that will come in from the world \<open>w\<close> on; every
  message that arrives is paid from it. \<open>quiet\<close> says so of a computation, and that it does not close the
  mailbox, which only \<open>abort\<close> and the executor do.
\<close>

definition calm :: "('m, 'w) mail_view \<Rightarrow> ('w \<Rightarrow> nat) \<Rightarrow> 'w \<Rightarrow> 'w \<Rightarrow> bool" where
  "calm M budget w w' \<longleftrightarrow>
     budget w' + length (mail_sent M w') \<le> budget w + length (mail_sent M w) \<and>
     (\<not> mail_closed M w \<longrightarrow> \<not> mail_closed M w')"

definition calm_run ::
  "('m, 'w) mail_view \<Rightarrow> ('w \<Rightarrow> nat) \<Rightarrow> ('a, 'm, 'w) executor \<Rightarrow> ('a, 'm, 'w) executor \<Rightarrow> bool" where
  "calm_run M budget E E' \<longleftrightarrow> calm M budget (world E) (world E')"

interpretation calm_run: frame_rel "calm_run M budget" for M budget
  by unfold_locales (auto simp: calm_run_def calm_def)

text \<open>
  The hypotheses: awaits on a mailbox with messages and on the \<open>select!\<close> of a stopping actor resolve;
  a \<open>recv\<close> of an open mailbox does not end (the context has a sender of its own); handlers and hooks come to
  an end.
\<close>

definition live ::
  "('a, 'm, 'w) tokio \<Rightarrow> ('a, 'm, 'w) actor_ops \<Rightarrow> handle \<Rightarrow> ('m, 'w) mail_view \<Rightarrow> ('w \<Rightarrow> nat) \<Rightarrow> bool" where
  "live T P mb M budget \<longleftrightarrow>
     (\<forall>w. mail_pending M w \<noteq> [] \<longrightarrow> (\<exists>b w'. mpsc_recv T mb w = Some (Some b, w'))) \<and>
     (\<forall>w. \<exists>ev w'. select_stopping T mb 1 w = Some (ev, w') \<and> calm M budget w w') \<and>
     (\<forall>w w'. select_stopping T mb 1 w = Some (StopRecv None, w') \<longrightarrow> mail_closed M w) \<and>
     (\<forall>w b w'. mpsc_recv T mb w = Some (Some b, w') \<longrightarrow> calm M budget w w') \<and>
     (\<forall>h v w. calm M budget w (watch_send T h v w)) \<and>
     (\<forall>b. keeps (calm_run M budget) (process_message T P b) \<and> (\<forall>E. process_message T P b E \<noteq> None)) \<and>
     keeps (calm_run M budget) (check_anonymous_actors T P) \<and> (\<forall>E. check_anonymous_actors T P E \<noteq> None) \<and>
     keeps (calm_run M budget) (callback OnStart (on_start P)) \<and> (\<forall>e. on_start P e \<noteq> None) \<and>
     keeps (calm_run M budget) (callback OnStopping (on_stopping P)) \<and> (\<forall>e. on_stopping P e \<noteq> None) \<and>
     (\<forall>e. on_stopped P e \<noteq> None) \<and> (\<forall>e. on_end P e \<noteq> None)"


lemma liveD:
  assumes "live T P mb M budget"
  shows "mail_pending M w \<noteq> [] \<Longrightarrow> \<exists>b w'. mpsc_recv T mb w = Some (Some b, w')"
    and "\<exists>ev w'. select_stopping T mb 1 w = Some (ev, w') \<and> calm M budget w w'"
    and "select_stopping T mb 1 w = Some (StopRecv None, w') \<Longrightarrow> mail_closed M w"
    and "mpsc_recv T mb w = Some (Some b, w') \<Longrightarrow> calm M budget w w'"
    and "calm M budget w (watch_send T h v w)"
    and "keeps (calm_run M budget) (process_message T P b)"
    and "\<exists>x E'. process_message T P b E = Some (x, E')"
    and "keeps (calm_run M budget) (check_anonymous_actors T P)"
    and "\<exists>x E'. check_anonymous_actors T P E = Some (x, E')"
    and "keeps (calm_run M budget) (callback OnStart (on_start P))"
    and "keeps (calm_run M budget) (callback OnStopping (on_stopping P))"
  using assms unfolding live_def by (auto simp: not_None_eq)

lemma live_hooks:
  assumes "live T P mb M budget"
  shows "\<exists>x E'. callback cb (on_start P) E = Some (x, E')"
    and "\<exists>x E'. callback cb (on_stopping P) E = Some (x, E')"
    and "\<exists>x E'. callback cb (on_stopped P) E = Some (x, E')"
    and "\<exists>x E'. callback cb (on_end P) E = Some (x, E')"
  using assms unfolding live_def callback_def log_call_def
  by (auto simp: io_seq_run modify_run on_env_run not_None_eq split: option.splits prod.splits)

lemma calm_trans: "calm M budget u v \<Longrightarrow> calm M budget v w \<Longrightarrow> calm M budget u w"
  by (auto simp: calm_def)

text \<open>What a message that is taken and processed does to the mailbox.\<close>

lemma take_and_process:
  assumes H: "mail_hyps T P mb M" and mb: "mailbox (ectx E) = mb"
    and t: "mail_takes M b (world E) w" and f: "fifo M (E\<lparr>world := w\<rparr>) [b] F [b]" and c: "calls F = calls E"
    and p: "process_message T P b F = Some (Done r, G)"
  obtains new where "mailbox (ectx G) = mb" "mail_sent M (world G) = mail_sent M (world E) @ new"
    "b # mail_pending M (world G) = mail_pending M (world E) @ new"
proof -
  have EG: "fifo M E [] G []"
    by (rule fifo_trans [OF fifo_takes [OF t] fifo_trans [OF f process_message_fifo [OF H p]]])
  have "recvs (calls G) = recvs (calls E) @ [b]"
    using process_message_recvs [OF p] c by simp
  with EG that mb show thesis by (auto simp: fifo_def)
qed

definition pressure :: "('m, 'w) mail_view \<Rightarrow> ('w \<Rightarrow> nat) \<Rightarrow> 'w \<Rightarrow> nat" where
  "pressure M budget w = budget w + length (mail_pending M w)"

definition stopping_live :: "handle \<Rightarrow> ('m, 'w) mail_view \<Rightarrow> ('a, 'm, 'w) executor \<times> nat \<Rightarrow> bool" where
  "stopping_live mb M s \<longleftrightarrow> mailbox (ectx (fst s)) = mb \<and> \<not> mail_closed M (world (fst s)) \<and> snd s \<le> 10"

definition stopping_measure :: "('m, 'w) mail_view \<Rightarrow> ('w \<Rightarrow> nat) \<Rightarrow> ('a, 'm, 'w) executor \<times> nat \<Rightarrow> nat" where
  "stopping_measure M budget s = 11 * pressure M budget (world (fst s)) + (10 - snd s)"

lemma stopping_round_live:
  fixes T :: "('a, 'm, 'w) tokio"
  assumes H: "mail_hyps T P mb M" and L: "live T P mb M budget" and I: "stopping_live mb M (F, n)"
  shows "\<exists>x t. stopping_round T P (F, n) = Some (x, t) \<and>
    (x = Done Again \<longrightarrow> stopping_live mb M t \<and> stopping_measure M budget t < stopping_measure M budget (F, n))"
proof -
  have mb: "mailbox (ectx F) = mb" and op: "\<not> mail_closed M (world F)" and n: "n \<le> 10"
    using I by (simp_all add: stopping_live_def)
  have R: "select_receiver T mb M" using H by (simp add: mail_hyps_def)
  obtain ev w where s: "select_stopping T mb 1 (world F) = Some (ev, w)" and c: "calm M budget (world F) w"
    using liveD(2) [OF L] by blast
  show ?thesis
  proof (cases ev)
    case (StopRecv r)
    with s op liveD(3) [OF L] obtain b where r: "r = Some b" by (cases r) auto
    obtain x G where p: "process_message T P b (F\<lparr>world := w\<rparr>) = Some (x, G)"
      using liveD(7) [OF L] by blast
    show ?thesis
    proof (cases x)
      case Panic
      with s p mb StopRecv r show ?thesis by (simp add: stopping_round_def io_simps)
    next
      case (Done ev)
      have t: "mail_takes M b (world F) w" using s StopRecv r by (auto intro: select_receiverD(5) [OF R])
      obtain new where new: "mailbox (ectx G) = mb" "mail_sent M (world G) = mail_sent M (world F) @ new"
        "b # mail_pending M (world G) = mail_pending M (world F) @ new"
        using take_and_process [OF H mb t fifo_refl _ p [unfolded Done]] by auto
      have "calm M budget (world F) (world G)"
        using c keepsD [OF liveD(6) [OF L] p [unfolded Done]] by (auto simp: calm_run_def intro: calm_trans)
      then have "\<not> mail_closed M (world G)" "budget (world G) + length new \<le> budget (world F)"
        using op new(2) by (auto simp: calm_def)
      moreover have "Suc (length (mail_pending M (world G))) = length (mail_pending M (world F)) + length new"
        using arg_cong [OF new(3), of length] by simp
      ultimately have "\<not> mail_closed M (world G)" "pressure M budget (world G) < pressure M budget (world F)"
        unfolding pressure_def by linarith+
      then show ?thesis
        using s p mb StopRecv r n new(1) Done
        by (auto simp: stopping_round_def io_simps stopping_live_def stopping_measure_def)
    qed
  next
    case StopSlept
    have "mail_grows M (world F) w" using s StopSlept by (auto intro: select_receiverD(7) [OF R])
    then have "pressure M budget w \<le> pressure M budget (world F)"
      using c by (auto simp: pressure_def calm_def mail_grows_def)
    with s mb n c op StopSlept show ?thesis
      by (auto simp: stopping_round_def io_simps stopping_live_def stopping_measure_def calm_def)
  qed
qed

lemma stopping_total:
  fixes T :: "('a, 'm, 'w) tokio"
  assumes H: "mail_hyps T P mb M" and L: "live T P mb M budget"
    and mb: "mailbox (ectx E) = mb" and op: "\<not> mail_closed M (world E)"
  shows "\<exists>x E'. stopping T P E = Some (x, E')"
proof (cases "watch_is_closed T (notifier (ectx E)) (world E)")
  case True
  then show ?thesis by (simp add: stopping_def io_simps)
next
  case False
  let ?F = "E\<lparr>world := watch_send T (notifier (ectx E)) (Some Shutdown) (world E)\<rparr>"
  have "\<exists>x t. io_loop (stopping_round T P) (?F, 0) = Some (x, t)"
  proof (rule io_loop_total [where I = "stopping_live mb M" and R = "measure (stopping_measure M budget)"])
    show "stopping_live mb M (?F, 0)"
      using mb op liveD(5) [OF L] by (simp add: stopping_live_def calm_def)
    show "\<exists>x t. stopping_round T P s = Some (x, t) \<and>
        (x = Done Again \<longrightarrow> stopping_live mb M t \<and> (t, s) \<in> measure (stopping_measure M budget))"
      if "stopping_live mb M s" for s :: "('a, 'm, 'w) executor \<times> nat"
      using stopping_round_live [OF H L, of "fst s" "snd s"] that by simp
  qed simp
  then show ?thesis
    using False by (auto simp: stopping_def io_simps split: prod.split)
qed

section \<open>The running loop reaches a message that stops the actor\<close>

definition stops :: "('a, 'm, 'w) tokio \<Rightarrow> ('a, 'm, 'w) actor_ops \<Rightarrow> 'm boxed \<Rightarrow> bool" where
  "stops T P b \<longleftrightarrow> (\<forall>E ev E'. process_message T P b E = Some (Done ev, E') \<longrightarrow> ev = Break)"

definition waiting_for :: "'m boxed \<Rightarrow> handle \<Rightarrow> ('m, 'w) mail_view \<Rightarrow> ('a, 'm, 'w) executor \<Rightarrow> bool" where
  "waiting_for b mb M E \<longleftrightarrow>
     mailbox (ectx E) = mb \<and> \<not> mail_closed M (world E) \<and> b \<in> set (mail_pending M (world E))"

definition messages_before :: "'m boxed \<Rightarrow> ('m, 'w) mail_view \<Rightarrow> ('a, 'm, 'w) executor \<Rightarrow> nat" where
  "messages_before b M E = length (takeWhile (\<lambda>x. x \<noteq> b) (mail_pending M (world E)))"

lemma takeWhile_tl:
  assumes "b \<in> set xs" "x # ys = xs @ zs" "x \<noteq> b"
  shows "b \<in> set ys \<and> length (takeWhile (\<lambda>x. x \<noteq> b) ys) < length (takeWhile (\<lambda>x. x \<noteq> b) xs)"
proof -
  obtain xs' where xs: "xs = x # xs'" "ys = xs' @ zs" using assms by (cases xs) auto
  with assms(1,3) have "b \<in> set xs'" by simp
  with xs assms(3) show ?thesis by simp
qed

lemma run_round_live:
  fixes T :: "('a, 'm, 'w) tokio"
  assumes H: "mail_hyps T P mb M" and L: "live T P mb M budget" and B: "stops T P b"
    and I: "waiting_for b mb M F"
  shows "\<exists>x G. run_round T P F = Some (x, G) \<and>
    (x = Done Again \<longrightarrow> waiting_for b mb M G \<and> messages_before b M G < messages_before b M F) \<and>
    (\<forall>fl. x = Done fl \<longrightarrow> mailbox (ectx G) = mb \<and> \<not> mail_closed M (world G))"
proof -
  have mb: "mailbox (ectx F) = mb" and op: "\<not> mail_closed M (world F)" and b: "b \<in> set (mail_pending M (world F))"
    using I by (simp_all add: waiting_for_def)
  have R: "mpsc_receiver T mb M" using H by (simp add: mail_hyps_def)
  have "mail_pending M (world F) \<noteq> []" using b by auto
  then obtain h w where n: "mpsc_recv T mb (world F) = Some (Some h, w)"
    using liveD(1) [OF L] by blast
  have t: "mail_takes M h (world F) w" using n by (auto intro: mpsc_receiverD(7) [OF R])
  obtain y F1 where k: "check_anonymous_actors T P (F\<lparr>world := w\<rparr>) = Some (y, F1)"
    using liveD(9) [OF L] by blast
  show ?thesis
  proof (cases y)
    case Panic
    with n k mb show ?thesis by (simp add: run_round_def io_simps)
  next
    case (Done u)
    obtain x G where p: "process_message T P h F1 = Some (x, G)" using liveD(7) [OF L] by blast
    show ?thesis
    proof (cases x)
      case Panic
      with n k p mb Done show ?thesis by (simp add: run_round_def io_simps)
    next
      case x: (Done ev)
      have run: "run_round T P F = Some (Done (loop_flow ev), G)"
        using n k p mb Done x by (simp add: run_round_def io_simps)
      have c: "calls F1 = calls F"
        using keepsD [OF same_calls_check k [unfolded Done]] by (simp add: same_calls_def)
      obtain new where new: "mailbox (ectx G) = mb" "h # mail_pending M (world G) = mail_pending M (world F) @ new"
        using take_and_process [OF H mb t check_anonymous_actors_fifo [OF H k [unfolded Done]] c p [unfolded x]]
        by auto
      have "calm M budget (world F) (world G)"
        using liveD(4) [OF L n] keepsD [OF liveD(8) [OF L] k [unfolded Done]]
          keepsD [OF liveD(6) [OF L] p [unfolded x]]
        by (auto simp: calm_run_def intro: calm_trans)
      then have op': "\<not> mail_closed M (world G)" using op by (simp add: calm_def)
      moreover have "h \<noteq> b" if "loop_flow ev = Again"
        using B p x that by (cases ev) (auto simp: stops_def)
      ultimately show ?thesis
        using run new op' takeWhile_tl [OF b new(2)]
        by (simp add: waiting_for_def messages_before_def)
    qed
  qed
qed

lemma run_loop_live:
  fixes T :: "('a, 'm, 'w) tokio" and E :: "('a, 'm, 'w) executor"
  assumes H: "mail_hyps T P mb M" and L: "live T P mb M budget" and B: "stops T P b"
    and I: "waiting_for b mb M E"
  obtains x E' where "io_loop (run_round T P) E = Some (x, E')"
    "\<And>u. x = Done u \<Longrightarrow> mailbox (ectx E') = mb \<and> \<not> mail_closed M (world E')"
proof -
  have "\<exists>x E'. io_loop (run_round T P) E = Some (x, E')"
  proof (rule io_loop_total [where I = "waiting_for b mb M" and R = "measure (messages_before b M)"])
    show "\<exists>x G. run_round T P F = Some (x, G) \<and>
        (x = Done Again \<longrightarrow> waiting_for b mb M G \<and> (G, F) \<in> measure (messages_before b M))"
      if "waiting_for b mb M F" for F :: "('a, 'm, 'w) executor"
      using run_round_live [OF H L B that] by auto
  qed (use I in simp_all)
  then obtain x E' where run: "io_loop (run_round T P) E = Some (x, E')" by blast
  have "triple (waiting_for b mb M) (io_loop (run_round T P))
      (\<lambda>_ E. mailbox (ectx E) = mb \<and> \<not> mail_closed M (world E))"
  proof (rule triple_loop, rule tripleI)
    fix F fl G
    assume "waiting_for b mb M F" "run_round T P F = Some (Done fl, G)"
    then show "case fl of Again \<Rightarrow> waiting_for b mb M G | Leave _ \<Rightarrow> mailbox (ectx G) = mb \<and> \<not> mail_closed M (world G)"
      using run_round_live [OF H L B, of F] by (auto split: flow.split)
  qed
  with run I that show thesis by (auto simp: triple_def)
qed

text \<open>The request of an awaiting caller is such a message.\<close>

definition await_request :: "handle \<Rightarrow> 'm boxed" where
  "await_request tx = BoxConfidential (confidential_new (InternalShutdown (IntoFutureShutdown True tx)))"

lemma await_request_delivered:
  assumes "deliver_nonblocking T P (await_request tx) E = Some (Done r, E')"
  shows "state (ectx E') \<noteq> Running"
  using assms
  by (auto simp: deliver_nonblocking_def await_request_def deliver_confidential_def shutdown_handler_def
      io_simps resolve_await_def resolve_ready_def subscribe_and_stop_def set_into_future_sender_def stop_def
      split: option.splits if_splits)

lemma await_request_stops:
  assumes "well_behaved_actor T P"
  shows "stops T P (await_request tx)"
  unfolding stops_def
proof (intro allI impI)
  fix E ev E'
  assume "process_message T P (await_request tx) E = Some (Done ev, E')"
  then obtain E1 E2 E3 r1 r2 r3 r4 where
    3: "deliver_nonblocking T P (await_request tx) E2 = Some (Done r3, E3)" and
    4: "callback PostRun (post_run P) E3 = Some (Done r4, E')" and
    5: "ev = (if state (ectx E') = Running then Continue else Break)"
    unfolding process_message_def by (elim io_seq_DoneE) (auto simp: gets_run await_request_def)
  have "state (ectx E3) \<noteq> Running" by (rule await_request_delivered [OF 3])
  moreover have "state (ectx E3) \<le> state (ectx E')"
    using assms callback_log [OF _ 4] by (auto simp: well_behaved_actor_def)
  ultimately show "ev = Break" using 5 by (cases "state (ectx E3)") auto
qed

text \<open>A stopping actor comes to an end whatever its children do, if its mailbox is open and the others
  do not send to it for ever: it closes its mailbox or, at the latest eleven idle seconds after its last
  message, panics.\<close>

theorem stopping_ends:
  assumes "mail_hyps T P (mailbox (ectx E)) M" "live T P (mailbox (ectx E)) M budget"
    and "\<not> mail_closed M (world E)"
  shows "\<exists>x E'. stopping T P E = Some (x, E')"
  by (rule stopping_total [OF assms(1,2) refl assms(3)])

text \<open>C38: a stopping actor that was aborted has no such bound: its closed mailbox wins the \<open>select!\<close> in every
  round, which does not count as an idle second, so while a child lives the loop goes round for ever.\<close>

theorem stopping_aborted_diverges:
  fixes E :: "('a, 'm, 'w) executor"
  assumes "\<And>w. \<exists>w'. select_stopping T (mailbox (ectx E)) 1 w = Some (StopRecv None, w')"
    and "\<And>w. \<not> watch_is_closed T (notifier (ectx E)) w"
  shows "stopping T P E = None"
proof -
  let ?I = "\<lambda>s. mailbox (ectx (fst s)) = mailbox (ectx E) \<and> notifier (ectx (fst s)) = notifier (ectx E)"
  have "io_loop (stopping_round T P) (E\<lparr>world := w\<rparr>, 0) = None" for w
  proof (rule io_loop_diverges [where I = ?I])
    fix s :: "('a, 'm, 'w) executor \<times> nat"
    assume s: "?I s"
    obtain w' where "select_stopping T (mailbox (ectx E)) 1 (world (fst s)) = Some (StopRecv None, w')"
      using assms(1) by blast
    with s assms(2) have "stopping_round T P s = Some (Done Again, ((fst s)\<lparr>world := w'\<rparr>, snd s))"
      by (cases s) (simp add: stopping_round_def io_simps)
    with s show "\<exists>t. stopping_round T P s = Some (Done Again, t) \<and> ?I t" by fastforce
  qed simp
  then show ?thesis using assms(2) by (simp add: stopping_def io_simps)
qed


section \<open>An awaited actor ends\<close>

lemma shutdown_total:
  fixes T :: "('a, 'm, 'w) tokio"
  assumes H: "mail_hyps T P mb M" and L: "live T P mb M budget"
    and mb: "mailbox (ectx E) = mb" and op: "\<not> mail_closed M (world E)"
  shows "\<exists>x E'. shutdown T P E = Some (x, E')"
proof -
  let ?E1 = "E\<lparr>ectx := (ectx E)\<lparr>state := Stopping\<rparr>\<rparr>"
  have w: "well_behaved T (on_stopping P)" "well_behaved T (on_stopped P)"
    and u: "keeps (env_mail M) (on_stopping P)" "keeps (env_mail M) (on_stopped P)"
    using H by (simp_all add: mail_hyps_def well_behaved_actor_def mail_userD)
  obtain x2 E2 where 2: "callback OnStopping (on_stopping P) ?E1 = Some (x2, E2)"
    using live_hooks(2) [OF L] by blast
  show ?thesis
  proof (cases x2)
    case Panic
    with 2 show ?thesis by (simp add: shutdown_def io_seq_run set_state_run)
  next
    case d2: (Done u2)
    have m2: "mailbox (ectx E2) = mb" "\<not> mail_closed M (world E2)"
      using fifo_mailbox [OF callback_fifo [OF w(1) u(1) 2 [unfolded d2]]] mb op
        keepsD [OF liveD(11) [OF L] 2 [unfolded d2]] by (simp_all add: calm_run_def calm_def)
    obtain x3 E3 where 3: "stopping T P E2 = Some (x3, E3)" using stopping_total [OF H L m2] by blast
    show ?thesis
    proof (cases x3)
      case Panic
      with 2 3 d2 show ?thesis by (simp add: shutdown_def io_seq_run set_state_run)
    next
      case d3: (Done u3)
      let ?E4 = "E3\<lparr>ectx := (ectx E3)\<lparr>state := Stopped\<rparr>\<rparr>"
      have m3: "mailbox (ectx ?E4) = mb" "mail_closed M (world ?E4)"
        using fifo_mailbox [OF fifo_ifD [OF fifo.stopping_keeps H m2(1) 3 [unfolded d3]]] m2(1)
          stopping_closes [OF H m2(1) 3 [unfolded d3]] by simp_all
      obtain x5 E5 where 5: "callback OnStopped (on_stopped P) ?E4 = Some (x5, E5)"
        using live_hooks(3) [OF L] by blast
      show ?thesis
      proof (cases x5)
        case Panic
        with 2 3 5 d2 d3 show ?thesis by (simp add: shutdown_def io_seq_run set_state_run)
      next
        case d5: (Done u5)
        have f5: "fifo M ?E4 [] E5 []" by (rule callback_fifo [OF w(2) u(2) 5 [unfolded d5]]) simp
        have m5: "mailbox (ectx E5) = mb" "mail_closed M (world E5)"
          using fifo_mailbox [OF f5] fifo_closed [OF f5] m3 by simp_all
        obtain x6 E6 where 6: "executor_stop T P E5 = Some (x6, E6)"
          using executor_stop_total_aux [OF H m5 liveD(7) [OF L]] by blast
        show ?thesis
          using 2 3 5 6 d2 d3 d5 live_hooks(4) [OF L, of OnEnd E6]
          by (cases x6) (auto simp: shutdown_def io_seq_run set_state_run)
      qed
    qed
  qed
qed

text \<open>C3: an actor that is awaited ends: if the request of an awaiting caller is in its open mailbox, the run of
  the actor completes, whatever its children do and whatever other messages are in the mailbox, of which the handlers
  come to an end and do not abort the actor (\<open>live\<close>).\<close>

theorem awaited_actor_ends:
  fixes T :: "('a, 'm, 'w) tokio"
  assumes "mail_hyps T P (mailbox c) M" "live T P (mailbox c) M budget"
    and "\<not> mail_closed M w" "await_request tx \<in> set (mail_pending M w)"
  shows "\<exists>x E. run_actor T P (executor_new a c w) = Some (x, E)"
proof -
  note H = assms(1) and L = assms(2)
  have P: "well_behaved_actor T P" "well_behaved T (on_start P)" "keeps (env_mail M) (on_start P)"
    using H by (simp_all add: mail_hyps_def well_behaved_actor_def mail_userD)
  obtain x1 and E1 :: "('a, 'm, 'w) executor" where 1: "callback OnStart (on_start P) (executor_new a c w) = Some (x1, E1)"
    using live_hooks(1) [OF L] by blast
  show ?thesis
  proof (cases x1)
    case Panic
    with 1 show ?thesis by (simp add: run_actor_def io_seq_run)
  next
    case d1: (Done u1)
    have f1: "fifo M (executor_new a c w) [] E1 []" by (rule callback_fifo [OF P(2,3) 1 [unfolded d1]]) simp
    have "calls E1 = [(OnStart, state c)]"
      using callback_log [OF P(2) 1 [unfolded d1]] by (simp add: executor_new_def)
    with f1 have "waiting_for (await_request tx) (mailbox c) M E1"
      using assms(3,4) keepsD [OF liveD(10) [OF L] 1 [unfolded d1]]
      by (auto simp: waiting_for_def fifo_def executor_new_def calm_run_def calm_def)
    then obtain x2 E2 where 2: "io_loop (run_round T P) E1 = Some (x2, E2)"
      "\<And>u. x2 = Done u \<Longrightarrow> mailbox (ectx E2) = mailbox c \<and> \<not> mail_closed M (world E2)"
      using run_loop_live [OF H L await_request_stops [OF P(1)]] by blast
    show ?thesis
    proof (cases x2)
      case Panic
      with 1 2 d1 show ?thesis by (simp add: run_actor_def io_seq_run)
    next
      case d2: (Done u2)
      obtain x3 E3 where 3: "shutdown T P E2 = Some (x3, E3)"
        using shutdown_total [OF H L] 2(2) [OF d2] by blast
      have "\<exists>E4. answer_awaiter T E3 = Some (Done (), E4)"
        by (simp add: answer_awaiter_def io_simps split: option.split prod.split)
      with 1 2 3 d1 d2 show ?thesis
        by (cases x3) (auto simp: run_actor_def io_seq_run)
    qed
  qed
qed

end
