(* ===== verification/Folding.thy ===== *)
theory Folding
  imports Mail
begin

text \<open>
  What a run makes of the struct of an actor (\<open>executor.rs\<close>, \<open>envelope.rs\<close>): if every hook and handler has a
  known effect on the struct, the struct of a finished actor comes from the first one by the effects of its
  callbacks in order. An effect is a relation, so that it can say what a handler that did not panic knows;
  effects that are functions make the struct a fold. \<open>struct_effects\<close> is the contract; the actors of the
  examples and of the tests are instances.
\<close>

section \<open>Effects on the struct\<close>

text \<open>A future that only reads the struct, and a \<open>select!\<close> that runs its future on the struct.\<close>

definition same_struct :: "'a \<times> 'w \<Rightarrow> 'a \<times> 'w \<Rightarrow> bool" where
  "same_struct p q \<longleftrightarrow> fst q = fst p"

definition answers_run :: "('a, 'm, 'w) tokio \<Rightarrow> bool" where
  "answers_run T \<longleftrightarrow> (\<forall>h m. keeps same_struct m \<longrightarrow> keeps same_struct (select_answer T h m))"

text \<open>The effect of a message, by the kind of its box; the framework's own messages have none.\<close>

fun box_effect ::
  "('m \<Rightarrow> 'a \<Rightarrow> 'a \<Rightarrow> bool) \<Rightarrow> ('m \<Rightarrow> 'a \<Rightarrow> 'a \<Rightarrow> bool) \<Rightarrow> ('m \<Rightarrow> 'a \<Rightarrow> 'a \<Rightarrow> bool) \<Rightarrow>
   'm boxed \<Rightarrow> 'a \<Rightarrow> 'a \<Rightarrow> bool" where
  "box_effect us ua uy (BoxConfidential e) a a' \<longleftrightarrow> a' = a"
| "box_effect us ua uy (BoxEnvelope e) a a' \<longleftrightarrow> (case env_msg e of None \<Rightarrow> False | Some m \<Rightarrow> us m a a')"
| "box_effect us ua uy (BoxResponse r) a a' \<longleftrightarrow>
     (case env_msg (resp_msg r) of None \<Rightarrow> False | Some m \<Rightarrow> ua m a a')"
| "box_effect us ua uy (BoxAsyncResponse r) a a' \<longleftrightarrow>
     (case env_msg (async_msg r) of None \<Rightarrow> False | Some m \<Rightarrow> uy m a a')"

fun chain :: "('c \<Rightarrow> 'a \<Rightarrow> 'a \<Rightarrow> bool) \<Rightarrow> 'c list \<Rightarrow> 'a \<Rightarrow> 'a \<Rightarrow> bool" where
  "chain R [] a b \<longleftrightarrow> b = a"
| "chain R (c # cs) a b \<longleftrightarrow> (\<exists>x. R c a x \<and> chain R cs x b)"

lemma chain_append: "chain R (cs @ ds) a b \<longleftrightarrow> (\<exists>x. chain R cs a x \<and> chain R ds x b)"
  by (induction cs arbitrary: a) auto

lemma chain_fold: "chain (\<lambda>c a b. b = f c a) cs a b \<longleftrightarrow> b = fold f cs a"
  by (induction cs arbitrary: a) auto

lemma chain_mono: "chain R cs a b \<Longrightarrow> (\<And>c a b. c \<in> set cs \<Longrightarrow> R c a b \<Longrightarrow> S c a b) \<Longrightarrow> chain S cs a b"
  by (induction cs arbitrary: a) (simp, fastforce)

definition env_struct :: "('a \<Rightarrow> 'a \<Rightarrow> bool) \<Rightarrow> ('a, 'w) env \<Rightarrow> ('a, 'w) env \<Rightarrow> bool" where
  "env_struct R e e' \<longleftrightarrow> R (fst e) (fst e')"

locale struct_effects =
  fixes P :: "('a, 'm, 'w) actor_ops"
    and hook :: "'m callback \<Rightarrow> 'a \<Rightarrow> 'a \<Rightarrow> bool"
    and us ua uy :: "'m \<Rightarrow> 'a \<Rightarrow> 'a \<Rightarrow> bool"
  assumes on_start: "keeps (env_struct (hook OnStart)) (on_start P)"
    and pre_run: "keeps (env_struct (hook PreRun)) (pre_run P)"
    and post_run: "keeps (env_struct (hook PostRun)) (post_run P)"
    and on_stopping: "keeps (env_struct (hook OnStopping)) (on_stopping P)"
    and on_stopped: "keeps (env_struct (hook OnStopped)) (on_stopped P)"
    and on_end: "keeps (env_struct (hook OnEnd)) (on_end P)"
    and sends: "keeps (env_struct (us m)) (handle_send P m)"
    and asks: "keeps (env_struct (ua m)) (handle_ask P m)"
    and async_asks: "keeps (env_struct (uy m)) (handle_async_ask P m)"
    and futures: "triple (\<lambda>_. True) (handle_async_ask P m) (\<lambda>fut _. keeps same_struct fut)"
begin

fun effect :: "'m callback \<Rightarrow> 'a \<Rightarrow> 'a \<Rightarrow> bool" where
  "effect (Recv b) a a' \<longleftrightarrow> box_effect us ua uy b a a'"
| "effect OnStart a a' \<longleftrightarrow> hook OnStart a a'"
| "effect PreRun a a' \<longleftrightarrow> hook PreRun a a'"
| "effect PostRun a a' \<longleftrightarrow> hook PostRun a a'"
| "effect OnStopping a a' \<longleftrightarrow> hook OnStopping a a'"
| "effect OnStopped a a' \<longleftrightarrow> hook OnStopped a a'"
| "effect OnEnd a a' \<longleftrightarrow> hook OnEnd a a'"

definition folds :: "('a, 'm, 'w) executor \<Rightarrow> ('a, 'm, 'w) executor \<Rightarrow> bool" where
  "folds E E' \<longleftrightarrow> (\<exists>log. calls E' = calls E @ log \<and> chain effect (map fst log) (actor E) (actor E'))"

lemma folds_refl: "folds E E"
  by (simp add: folds_def)

lemma folds_trans [trans]: "folds E F \<Longrightarrow> folds F G \<Longrightarrow> folds E G"
  by (fastforce simp: folds_def chain_append)

lemma callback_folds:
  assumes "keeps (env_struct (effect cb)) h" "callback cb h E = Some (Done r, E')"
  shows "folds E E'"
proof -
  from assms(2) obtain a c w where h: "h (actor E, ectx E, world E) = Some (Done r, (a, c, w))"
    and E': "E' = E\<lparr>calls := calls E @ [(cb, state (ectx E))], actor := a, ectx := c, world := w\<rparr>"
    by (auto simp: callback_def log_call_def io_seq_run modify_run elim!: on_env_SomeE)
  then have "effect cb (actor E) a" using keepsD [OF assms(1) h] by (simp add: env_struct_def)
  with E' show ?thesis by (simp add: folds_def)
qed

lemma private_handler_effect: "keeps (env_struct (\<lambda>a b. b = a)) (private_handler T m)"
proof (cases m)
  case (InternalShutdown s)
  then show ?thesis
    by (auto simp: keeps_def env_struct_def shutdown_handler_def io_simps split: option.splits)
next
  case (InternalAnonymous c)
  then show ?thesis by (cases c) (simp_all add: keeps_def env_struct_def ret_run)
qed

lemma send_message_effect: "keeps (env_struct (box_effect us ua uy b)) (send_message T P b)"
proof (cases b)
  case (BoxConfidential e)
  show ?thesis
    using private_handler_effect
    by (fastforce simp: BoxConfidential keeps_def env_struct_def deliver_confidential_def
        confidential_unwrap_def io_simps split: option.splits res.splits)
next
  case (BoxEnvelope e)
  then show ?thesis
    using sends
    by (fastforce simp: keeps_def env_struct_def deliver_envelope_def envelope_unwrap_def io_simps
        split: option.splits res.splits)
next
  case (BoxResponse r)
  then show ?thesis
    using asks
    by (fastforce simp: keeps_def env_struct_def deliver_response_def envelope_unwrap_def io_simps
        split: option.splits res.splits ask_result.splits async_handle.splits prod.splits)
next
  case (BoxAsyncResponse r)
  then show ?thesis
    using async_asks
    by (fastforce simp: keeps_def env_struct_def deliver_async_response_def envelope_unwrap_def io_simps
        split: option.splits res.splits prod.splits)
qed


text \<open>Nothing that runs after the handler changes the struct: not the block of an answer, nor its drop.\<close>

lemma send_message_futures:
  "triple (\<lambda>_. True) (send_message T P b)
     (\<lambda>res _. \<forall>fut. resolve_fut res = Some fut \<longrightarrow> keeps same_struct (af_future fut))"
proof (cases b)
  case (BoxAsyncResponse r)
  then show ?thesis
    by (auto simp: deliver_async_response_def split: prod.split
        intro!: triple_True_bind triple_bind [OF futures] triple_ret simp: resolve_future_def)
qed (auto simp: deliver_confidential_def deliver_envelope_def deliver_response_def split: prod.split
    intro!: triple_True_bind triple_True_seq triple_ret simp: resolve_ready_def)

lemma on_world_struct: "keeps same_struct (on_world m)"
  by (auto simp: keeps_def same_struct_def on_world_run split: option.splits)

lemma resolve_await_struct:
  assumes "answers_run T" "\<forall>fut. resolve_fut res = Some fut \<longrightarrow> keeps same_struct (af_future fut)"
  shows "keeps same_struct (resolve_await T res)"
proof (cases "resolve_fut res")
  case None
  then show ?thesis by (simp add: resolve_await_def keeps_def ret_run same_struct_def)
next
  case (Some fut)
  then have "keeps same_struct (select_answer T (af_rx fut) (af_future fut))"
    using assms by (simp add: answers_run_def)
  then show ?thesis
    using Some on_world_struct
    by (fastforce simp: resolve_await_def answer_block_def keeps_def same_struct_def elim!: io_bind_DoneE)
qed

lemma resolve_drop_struct: "keeps same_struct (resolve_drop T res)"
  by (auto simp: resolve_drop_def keeps_def ret_run same_struct_def on_world_run modify_run
      split: option.split)

lemma then_in_actor:
  assumes run: "io_bind (send_message T P b) (\<lambda>res. in_actor (f res)) e = Some (Done r, e')"
    and f: "\<And>res. \<forall>fut. resolve_fut res = Some fut \<longrightarrow> keeps same_struct (af_future fut) \<Longrightarrow> keeps same_struct (f res)"
  shows "box_effect us ua uy b (fst e) (fst e')"
proof -
  from run obtain res u where s: "send_message T P b e = Some (Done res, u)" and i: "in_actor (f res) u = Some (Done r, e')"
    by (rule io_bind_DoneE)
  have "keeps same_struct (f res)" by (rule f) (rule tripleD [OF send_message_futures _ s], simp)
  then have "fst e' = fst u"
    using i by (cases u) (auto simp: in_actor_run same_struct_def split: option.splits dest!: keepsD)
  then show ?thesis using keepsD [OF send_message_effect s] by (simp add: env_struct_def)
qed

lemma deliver_effect:
  assumes T: "blocking_runs T" "answers_run T"
    and run: "(case box_scheduler P b of Blocking \<Rightarrow> deliver_blocking T P b
      | NonBlocking \<Rightarrow> deliver_nonblocking T P b) E = Some (Done r, E')"
  shows "box_effect us ua uy b (actor E) (actor E') \<and> calls E' = calls E"
proof (cases "box_scheduler P b")
  case Blocking
  with run have "on_env (io_bind (send_message T P b) (\<lambda>res. in_actor (resolve_drop T res))) E = Some (Done (), E')"
    by (intro deliver_blocking_runs [OF T(1)]) simp
  then show ?thesis
    by (rule on_env_SomeE) (auto dest!: then_in_actor [OF _ resolve_drop_struct])
next
  case NonBlocking
  with run have "on_env (io_bind (send_message T P b) (\<lambda>res. in_actor (resolve_await T res))) E = Some (Done r, E')"
    by (simp add: deliver_nonblocking_def)
  then show ?thesis
    by (rule on_env_SomeE) (auto dest!: then_in_actor [OF _ resolve_await_struct [OF T(2)]])
qed

lemma process_message_folds:
  assumes T: "blocking_runs T" "answers_run T"
  shows "keeps folds (process_message T P b)"
proof (rule keepsI)
  fix E r E'
  assume "process_message T P b E = Some (Done r, E')"
  then obtain E1 E2 E3 r1 r2 r3 r4 where
    1: "callback PreRun (pre_run P) E = Some (Done r1, E1)" and
    2: "log_call (Recv b) E1 = Some (Done r2, E2)" and
    3: "(case box_scheduler P b of Blocking \<Rightarrow> deliver_blocking T P b
          | NonBlocking \<Rightarrow> deliver_nonblocking T P b) E2 = Some (Done r3, E3)" and
    4: "callback PostRun (post_run P) E3 = Some (Done r4, E')"
    unfolding process_message_def by (elim io_seq_DoneE) (auto simp: gets_run)
  have "folds E E1" by (rule callback_folds [OF _ 1]) (use pre_run in \<open>simp add: keeps_def env_struct_def\<close>)
  also have "folds E1 E3"
    using 2 deliver_effect [OF T 3] by (auto simp: folds_def log_call_def io_simps)
  also have "folds E3 E'" by (rule callback_folds [OF _ 4]) (use post_run in \<open>simp add: keeps_def env_struct_def\<close>)
  finally show "folds E E'" .
qed

lemma folds_same: "calls E' = calls E \<Longrightarrow> actor E' = actor E \<Longrightarrow> folds E E'"
  by (simp add: folds_def)

definition folds_if :: "('a, 'm, 'w) tokio \<Rightarrow> ('a, 'm, 'w) executor \<Rightarrow> ('a, 'm, 'w) executor \<Rightarrow> bool" where
  "folds_if T E E' \<longleftrightarrow> blocking_runs T \<and> answers_run T \<longrightarrow> folds E E'"

lemma folds_ifD:
  "keeps (folds_if T) m \<Longrightarrow> blocking_runs T \<Longrightarrow> answers_run T \<Longrightarrow> m E = Some (Done r, E') \<Longrightarrow> folds E E'"
  by (auto simp: keeps_def folds_if_def)

end

sublocale struct_effects \<subseteq> folds: frame_rel folds
  by unfold_locales (rule folds_refl, rule folds_trans)

sublocale struct_effects \<subseteq> folds_if: executor_parts "folds_if T" T P for T
proof unfold_locales
  show "folds_if T E E" for E
    by (simp add: folds_if_def folds_refl)
  show "folds_if T E F \<Longrightarrow> folds_if T F G \<Longrightarrow> folds_if T E G" for E F G
    by (auto simp: folds_if_def intro: folds_trans)
  show "folds_if T E (E\<lparr>world := w\<rparr>)" for E w
    by (simp add: folds_if_def folds_same)
  show "keeps (folds_if T) (process_message T P msg)" for msg
    using process_message_folds by (auto simp: keeps_def folds_if_def)
  have "keeps folds (set_overflow n)" for n
    unfolding set_overflow_def by (rule folds.keeps_modify) (simp add: folds_same)
  moreover have "keeps folds (acquire_and_drop T sem n)" for sem n
    by (auto simp: keeps_def acquire_and_drop_def in_w_run folds_same split: option.splits)
  ultimately have "keeps folds (check_anonymous_actors T P)"
    unfolding check_anonymous_actors_def usize_sub_def
    by (intro folds.keeps_rules allI conjI impI folds.keeps_bind | simp split: if_splits)+
  then show "keeps (folds_if T) (check_anonymous_actors T P)"
    by (auto simp: keeps_def folds_if_def)
qed

context struct_effects
begin

lemma shutdown_folds:
  assumes T: "blocking_runs T" "answers_run T" and run: "shutdown T P E = Some (Done r, E')"
  shows "folds E E'"
proof -
  from run obtain E1 E2 E3 E4 E5 E6 r1 r2 r3 r4 r5 r6 where
    1: "set_state Stopping E = Some (Done r1, E1)" and
    2: "callback OnStopping (on_stopping P) E1 = Some (Done r2, E2)" and
    3: "stopping T P E2 = Some (Done r3, E3)" and
    4: "set_state Stopped E3 = Some (Done r4, E4)" and
    5: "callback OnStopped (on_stopped P) E4 = Some (Done r5, E5)" and
    6: "executor_stop T P E5 = Some (Done r6, E6)" and
    7: "callback OnEnd (on_end P) E6 = Some (Done r, E')"
    by (rule shutdown_DoneE)
  have "folds E E1" using 1 by (auto simp: set_state_run folds_def)
  also have "folds E1 E2" by (rule callback_folds [OF _ 2]) (use on_stopping in \<open>simp add: keeps_def env_struct_def\<close>)
  also have "folds E2 E3" by (rule folds_ifD [OF folds_if.stopping_keeps T 3])
  also have "folds E3 E4" using 4 by (auto simp: set_state_run folds_def)
  also have "folds E4 E5" by (rule callback_folds [OF _ 5]) (use on_stopped in \<open>simp add: keeps_def env_struct_def\<close>)
  also have "folds E5 E6" by (rule folds_ifD [OF folds_if.stop_keeps T 6])
  also have "folds E6 E'" by (rule callback_folds [OF _ 7]) (use on_end in \<open>simp add: keeps_def env_struct_def\<close>)
  finally show ?thesis .
qed

lemma start_folds: "callback OnStart (on_start P) E = Some (Done r, E') \<Longrightarrow> folds E E'"
  by (rule callback_folds) (use on_start in \<open>simp_all add: keeps_def env_struct_def\<close>)

text \<open>The struct of a finished actor.\<close>

lemma run_actor_folds:
  assumes T: "blocking_runs T" "answers_run T" and run: "run_actor T P (executor_new a c w) = Some (Done r, E)"
  shows "chain effect (map fst (calls E)) a (actor E)"
proof -
  from run obtain E1 E2 E3 r1 r2 r3 where
    1: "callback OnStart (on_start P) (executor_new a c w) = Some (Done r1, E1)" and
    2: "io_loop (run_round T P) E1 = Some (Done r2, E2)" and
    3: "shutdown T P E2 = Some (Done r3, E3)" and
    4: "answer_awaiter T E3 = Some (Done r, E)"
    by (rule run_actor_DoneE)
  have "folds (executor_new a c w) E1" by (rule start_folds [OF 1])
  also have "folds E1 E2" by (rule folds_ifD [OF folds_if.run_loop_keeps T 2])
  also have "folds E2 E3" by (rule shutdown_folds [OF T 3])
  finally have "folds (executor_new a c w) E3" .
  then have "folds (executor_new a c w) E"
    using 4 by (auto simp: answer_awaiter_def io_simps folds_def split: option.splits prod.splits)
  then show ?thesis by (auto simp: folds_def executor_new_def)
qed

lemma run_supervised_actor_folds:
  assumes T: "blocking_runs T" "answers_run T"
    and run: "run_supervised_actor T P (executor_child a c rx w) = Some (Done r, E)"
  shows "chain effect (map fst (calls E)) a (actor E)"
proof -
  from run obtain E1 E2 r1 r2 where
    1: "callback OnStart (on_start P) (executor_child a c rx w) = Some (Done r1, E1)" and
    2: "io_loop (supervised_round T P) E1 = Some (Done r2, E2)" and
    3: "shutdown T P E2 = Some (Done r, E)"
    by (rule run_supervised_DoneE)
  have "folds (executor_child a c rx w) E1" by (rule start_folds [OF 1])
  also have "folds E1 E2" by (rule folds_ifD [OF folds_if.supervised_loop_keeps T 2])
  also have "folds E2 E" by (rule shutdown_folds [OF T 3])
  finally show ?thesis by (auto simp: folds_def executor_child_def)
qed

text \<open>An actor whose hooks do nothing: only its messages count.\<close>

lemma effect_recvs:
  assumes "\<And>cb a b. hook cb a b \<Longrightarrow> b = a" "chain effect (map fst log) a b"
  shows "chain (box_effect us ua uy) (recvs log) a b"
  using assms(2)
  by (induction log arbitrary: a rule: recvs.induct) (auto dest: assms(1))

end

section \<open>The struct of a finished actor\<close>

text \<open>C19: an actor whose hooks leave its struct alone ends with the struct that its handlers make of the
  messages its mailbox accepted, applied in the order they were accepted, each once.\<close>

theorem run_actor_struct:
  assumes "struct_effects P (\<lambda>cb a a'. a' = a) us ua uy" "mail_hyps T P (mailbox c) M" "answers_run T"
    and "run_actor T P (executor_new a c w) = Some (Done (), E)"
  shows "chain (box_effect us ua uy)
    (mail_pending M w @ drop (length (mail_sent M w)) (mail_sent M (world E))) a (actor E)"
proof -
  have T: "blocking_runs T" using assms(2) by (simp add: mail_hyps_def)
  note H = struct_effects.run_actor_folds [OF assms(1) T assms(3,4)]
  have "chain (box_effect us ua uy) (recvs (calls E)) a (actor E)"
    by (rule struct_effects.effect_recvs [OF assms(1) _ H]) simp
  then show ?thesis using run_actor_mail [OF assms(2,4)] by simp
qed

end
