(* ===== verification/Defaults.thy ===== *)
theory Defaults
  imports Folding
begin

text \<open>
  What the actors of the examples share: arithmetic that panics on overflow, the \<open>unwrap\<close> of a result, and
  what is left of the hypotheses of a theorem about runs for an actor with the default hooks of \<open>actor.rs\<close>
  whose handlers at most change its struct.
\<close>

text \<open>Addition of small integers with the overflow check.\<close>

definition checked_add :: "'n::len word \<Rightarrow> 'n word \<Rightarrow> ('n word, 's) io" where
  "checked_add a b = (if uint a + uint b < 2 ^ LENGTH('n) then ret (a + b) else panic)"

lemma checked_add_run [io_simps]:
  "checked_add (a :: 'n::len word) b s =
     Some (if unat a + unat b < 2 ^ LENGTH('n) then Done (a + b) else Panic, s)"
proof -
  have "uint a + uint b < 2 ^ LENGTH('n) \<longleftrightarrow> int (unat a + unat b) < int (2 ^ LENGTH('n))" by simp
  then show ?thesis unfolding of_nat_less_iff by (simp add: checked_add_def ret_def panic_def)
qed

lemma unat_checked_add: "unat a + unat b < 2 ^ LENGTH('n) \<Longrightarrow> unat (a + b :: 'n::len word) = unat a + unat b"
  by (simp add: unat_word_ariths)

text \<open>A \<open>Duration\<close> is a number of milliseconds.\<close>

definition from_secs :: "nat \<Rightarrow> nat" where
  "from_secs n = n * 1000"

definition from_millis :: "nat \<Rightarrow> nat" where
  "from_millis n = n"

text \<open>\<open>result.unwrap()\<close> of a send, an ask and an awaited actor.\<close>

definition unwrap_result :: "'e + 'r \<Rightarrow> ('r, 's) io" where
  "unwrap_result res = (case res of Inl e \<Rightarrow> panic | Inr r \<Rightarrow> ret r)"

lemma unwrap_result_run [io_simps]:
  "unwrap_result res s = Some (case res of Inl e \<Rightarrow> Panic | Inr r \<Rightarrow> Done r, s)"
  by (simp add: unwrap_result_def ret_run panic_run split: sum.split)

text \<open>Reading and changing the struct in a handler.\<close>

definition read_self :: "('a \<Rightarrow> 'r) \<Rightarrow> ('r, ('a, 'w) env) io" where
  "read_self f = gets (\<lambda>(a, cw). f a)"

definition update_self :: "('a \<Rightarrow> 'a) \<Rightarrow> (unit, ('a, 'w) env) io" where
  "update_self f = modify (\<lambda>(a, cw). (f a, cw))"

lemma read_self_run [io_simps]: "read_self f (a, cw) = Some (Done (f a), (a, cw))"
  by (simp add: read_self_def gets_run)

lemma update_self_run [io_simps]: "update_self f (a, cw) = Some (Done (), (f a, cw))"
  by (simp add: update_self_def modify_run)

section \<open>Actors with default hooks\<close>

lemma default_hooks [simp]:
  "on_start (default_actor nm) = ret ()" "pre_run (default_actor nm) = ret ()"
  "post_run (default_actor nm) = ret ()" "on_stopping (default_actor nm) = ret ()"
  "on_stopped (default_actor nm) = ret ()" "on_end (default_actor nm) = ret ()"
  by (simp_all add: default_actor_def)

text \<open>A handler that at most changes the struct is well behaved and sends nothing.\<close>

definition struct_only :: "('r, ('a, 'w) env) io \<Rightarrow> bool" where
  "struct_only h \<longleftrightarrow> frames (\<lambda>p q. snd q = snd p) h"

interpretation same_cworld: frame_rel "\<lambda>p q. snd q = snd p"
  by unfold_locales simp_all

lemma struct_onlyI: "(\<And>e x e'. h e = Some (x, e') \<Longrightarrow> snd e' = snd e) \<Longrightarrow> struct_only h"
  by (simp add: struct_only_def frames_def)

lemma struct_onlyD: "struct_only h \<Longrightarrow> h e = Some (x, e') \<Longrightarrow> snd e' = snd e"
  unfolding struct_only_def frames_def by blast

lemma struct_only_well_behaved: "struct_only h \<Longrightarrow> well_behaved T h"
  by (auto simp: well_behaved_def dest: struct_onlyD)

lemma struct_only_mail: "struct_only h \<Longrightarrow> keeps (env_mail M) h"
  by (auto simp: keeps_def env_mail_def mail.refl dest: struct_onlyD)

lemma struct_only_bind: "struct_only m \<Longrightarrow> (\<And>r. struct_only (k r)) \<Longrightarrow> struct_only (io_bind m k)"
  unfolding struct_only_def by (rule same_cworld.frames_bind)

lemma struct_only_read: "struct_only (read_self f)"
  by (auto simp: struct_only_def frames_def read_self_run)

lemma struct_only_update: "struct_only (update_self f)"
  by (auto simp: struct_only_def frames_def update_self_run)

lemma struct_only_checked_add: "struct_only (checked_add a b)"
  by (simp add: struct_only_def frames_def checked_add_run)

lemma struct_only_ret: "struct_only (ret r)"
  by (simp add: struct_only_def same_cworld.frames_ret)

lemma struct_only_panic: "struct_only panic"
  by (simp add: struct_only_def same_cworld.frames_panic)

lemmas struct_only_rules =
  struct_only_ret struct_only_panic struct_only_bind struct_only_read struct_only_update struct_only_checked_add

text \<open>A handler that makes one call on its context.\<close>

lemma well_behaved_in_ctx:
  assumes "\<And>cw x cw'. m cw = Some (x, cw') \<Longrightarrow> ctx_api T cw cw'"
  shows "well_behaved T (in_ctx m)"
  using assms by (auto simp: well_behaved_def in_ctx_run split: option.splits)

lemma in_ctx_struct: "keeps (env_struct (\<lambda>a a'. a' = a)) (in_ctx m)"
  by (auto simp: keeps_def env_struct_def in_ctx_run split: option.splits)

lemma spawn_child_api: "spawn_child T P a cw = Some (x, cw') \<Longrightarrow> (ctx_api T)\<^sup>*\<^sup>* cw cw'"
proof -
  assume run: "spawn_child T P a cw = Some (x, cw')"
  obtain c w where cw: "cw = (c, w)" by (cases cw)
  from run [unfolded cw spawn_child_def] obtain y w1 where y: "in_world (ctx_new T P) (c, w) = Some (y, (c, w1))"
    and k: "case y of Panic \<Rightarrow> cw' = (c, w1) | Done child_ctx \<Rightarrow> spawn_with T child_ctx a (c, w1) = Some (x, cw')"
    by (auto simp: io_bind_run in_world_run split: option.splits res.splits)
  have "ctx_api T (c, w) (c, w1)" by (rule api_world)
  also have "(ctx_api T)\<^sup>*\<^sup>* (c, w1) cw'"
    using k by (cases y) (auto dest: api_spawn_with)
  finally show ?thesis by (simp add: cw)
qed

lemma well_behaved_in_ctx_star:
  assumes "\<And>cw x cw'. m cw = Some (x, cw') \<Longrightarrow> (ctx_api T)\<^sup>*\<^sup>* cw cw'"
  shows "well_behaved T (in_ctx m)"
  using assms by (auto simp: well_behaved_def in_ctx_run split: option.splits)

text \<open>The operations with which an actor makes another: they leave the mailboxes there are alone.\<close>

abbreviation mail_makes :: "('a, 'm, 'w) tokio \<Rightarrow> ('m, 'w) mail_view \<Rightarrow> bool" where
  "mail_makes T M \<equiv> makings_keep T (mail_grows M)"

lemmas mail_makes_def = makings_keep_def
lemmas mail_makesD = makings_keepD

lemma spawn_child_mail:
  assumes "mail_runtime T M" "mail_makes T M"
  shows "keeps (pair_mail M) (spawn_child T P a)"
  unfolding spawn_child_def spawn_with_def ctx_new_def
  by (intro mail_world.pair.keeps_rules in_world_mail mail.keeps_rules mail_runtimeD [OF assms(1)]
      mail_makesD [OF assms(2)])

lemma anonymous_mail: "mail_runtime T M \<Longrightarrow> keeps (pair_mail M) (anonymous T u)"
  unfolding anonymous_def
  by (intro mail_world.pair.keeps_rules in_world_mail acquire_permit_mail mail_runtimeD)

lemma anonymous_handle_mail:
  "mail_runtime T M \<Longrightarrow> keeps (pair_mail M) (anonymous_handle T u)"
  unfolding anonymous_handle_def
  by (intro mail_world.pair.keeps_rules in_world_mail acquire_permit_mail mail_runtimeD)

lemma keeps_struct_ret: "keeps (env_struct (\<lambda>a a'. a' = a)) (ret r)"
  by (simp add: keeps_def ret_run env_struct_def)

lemma keeps_struct_panic: "keeps (env_struct R) panic"
  by (simp add: keeps_def panic_run)

lemma default_struct_effects:
  assumes "\<And>m. keeps (env_struct (us m)) (hs m)" "\<And>m. keeps (env_struct (ua m)) (ha m)"
    and "\<And>m. keeps (env_struct (uy m)) (hy m)" "\<And>m. triple (\<lambda>_. True) (hy m) (\<lambda>fut _. keeps same_struct fut)"
  shows "struct_effects (with_handlers (default_actor nm) hs ha hy) (\<lambda>cb a a'. a' = a) us ua uy"
  by unfold_locales (simp_all add: keeps_struct_ret assms)

lemma default_well_behaved:
  assumes "\<And>m. well_behaved T (hs m)" "\<And>m. well_behaved T (ha m)" "\<And>m. well_behaved T (hy m)"
  shows "well_behaved_actor T (with_handlers (default_actor nm) hs ha hy)"
  by (simp add: well_behaved_actor_def well_behaved_ret assms)

lemma default_mail_user:
  assumes "\<And>m. keeps (env_mail M) (hs m)" "\<And>m. keeps (env_mail M) (ha m)" "\<And>m. keeps (env_mail M) (hy m)"
    and "\<And>m. triple (\<lambda>_. True) (hy m) (\<lambda>fut _. keeps (pair_mail M) fut)"
  shows "mail_user (with_handlers (default_actor nm) hs ha hy) M"
  by (simp add: mail_user_def mail_world.env.keeps_ret assms)

text \<open>What is left of the hypotheses once the user's code is known: the runtime.\<close>

definition mail_host :: "('a, 'm, 'w) tokio \<Rightarrow> handle \<Rightarrow> ('m, 'w) mail_view \<Rightarrow> bool" where
  "mail_host T mb M \<longleftrightarrow> blocking_runs T \<and> mail_runtime T M \<and> mpsc_receiver T mb M \<and> select_receiver T mb M"

lemma mail_host_hyps:
  "mail_host T mb M \<Longrightarrow> well_behaved_actor T P \<Longrightarrow> mail_user P M \<Longrightarrow> mail_hyps T P mb M"
  by (simp add: mail_host_def mail_hyps_def)

end
