(* ===== verification/Family.thy ===== *)
theory Family
  imports Children Defaults
begin

text \<open>
  A parent and all its children at once (\<open>Ctx::spawn_with\<close> of \<open>context.rs\<close>, the shutdown of \<open>executor.rs\<close>). What the
  tasks of a family promise each other is a relation of worlds that each of their steps keeps: a child lets go of
  its receiver only when its death is in the mailbox of the parent. The block of a child keeps it, unless the child
  panicked or was awaited, and a parent whose awaited calls keep it closes its mailbox only when the death of every child is
  in it, and has handled them all when it ends.
\<close>

section \<open>The family relation\<close>

text \<open>
  An observer of the notifier of a parent: the receivers of watch channels that were ever handed out, those of
  this notifier that are still there, and those that belong to a child, with the address of the child.
\<close>

record 'w family_view =
  issued :: "'w \<Rightarrow> handle set"
  held :: "'w \<Rightarrow> handle set"
  born :: "'w \<Rightarrow> (handle \<rightharpoonup> actor_ref)"

text \<open>The parent's message for a child that has ended, made from \<open>DeadActorResult\<close> by \<open>dead_msg\<close>.\<close>

definition death_notice :: "('a dead_actor_result \<Rightarrow> 'm) \<Rightarrow> actor_ref \<Rightarrow> 'm boxed \<Rightarrow> bool" where
  "death_notice dead_msg child b \<longleftrightarrow>
     (\<exists>a c. address c = child \<and> b = BoxEnvelope (envelope_new (dead_msg (Inr \<lparr> dead_actor = a, dead_ctx = c \<rparr>))))"

definition accounted ::
  "('m, 'w) mail_view \<Rightarrow> 'w family_view \<Rightarrow> ('a dead_actor_result \<Rightarrow> 'm) \<Rightarrow> 'w \<Rightarrow> bool" where
  "accounted M K dead_msg w \<longleftrightarrow>
     (\<forall>rx child. born K w rx = Some child \<longrightarrow> rx \<in> held K w \<or> (\<exists>b\<in>set (mail_sent M w). death_notice dead_msg child b))"

definition family_rel ::
  "('m, 'w) mail_view \<Rightarrow> 'w family_view \<Rightarrow> ('a dead_actor_result \<Rightarrow> 'm) \<Rightarrow> 'w \<Rightarrow> 'w \<Rightarrow> bool" where
  "family_rel M K dead_msg w w' \<longleftrightarrow>
     (\<exists>new. mail_sent M w' = mail_sent M w @ new) \<and> issued K w \<subseteq> issued K w' \<and> born K w \<subseteq>\<^sub>m born K w' \<and>
     (\<forall>rx\<in>issued K w. rx \<in> dom (born K w') \<longrightarrow> rx \<in> dom (born K w)) \<and>
     (accounted M K dead_msg w \<longrightarrow> accounted M K dead_msg w')"

definition not_a_child :: "'w family_view \<Rightarrow> handle \<Rightarrow> 'w \<Rightarrow> bool" where
  "not_a_child K rx w \<longleftrightarrow> rx \<in> issued K w \<and> rx \<notin> dom (born K w)"

interpretation family: kept_world "family_rel M K dead_msg" "not_a_child K" for M K dead_msg
proof
  show "family_rel M K dead_msg w w" for w
    by (simp add: family_rel_def)
  show "family_rel M K dead_msg w w''" if "family_rel M K dead_msg w w'" "family_rel M K dead_msg w' w''" for w w' w''
  proof -
    have "born K w \<subseteq>\<^sub>m born K w''" using that map_le_trans unfolding family_rel_def by blast
    moreover have "\<exists>new. mail_sent M w'' = mail_sent M w @ new" using that by (auto simp: family_rel_def)
    ultimately show ?thesis using that unfolding family_rel_def by blast
  qed
  show "not_a_child K rx w'" if "family_rel M K dead_msg w w'" "not_a_child K rx w" for w w' rx
    using that unfolding family_rel_def not_a_child_def by blast
qed

definition family_hyps ::
  "('m, 'w) mail_view \<Rightarrow> 'w family_view \<Rightarrow> ('a dead_actor_result \<Rightarrow> 'm) \<Rightarrow> ('a, 'm, 'w) tokio \<Rightarrow> ('a, 'm, 'w) actor_ops \<Rightarrow> bool" where
  "family_hyps M K dead_msg T P \<longleftrightarrow> world_hyps (family_rel M K dead_msg) (not_a_child K) T P"

lemma family_relD:
  assumes "family_rel M K dead_msg w w'"
  shows "set (mail_sent M w) \<subseteq> set (mail_sent M w')" "born K w \<subseteq>\<^sub>m born K w'"
    "accounted M K dead_msg w \<Longrightarrow> accounted M K dead_msg w'"
  using assms by (auto simp: family_rel_def)

section \<open>The operations of a watch channel\<close>

text \<open>
  What the observer sees of \<open>tokio::sync::watch\<close> with notifier \<open>n\<close>: a receiver is a new value, which lives until it is
  dropped, and the channel is closed when none is left. A child is born when its block is spawned with a receiver
  of the notifier. To close a mailbox does not touch the notifier.
\<close>

definition family_watch :: "('a, 'm, 'w) tokio \<Rightarrow> handle \<Rightarrow> ('m, 'w) mail_view \<Rightarrow> 'w family_view \<Rightarrow> bool" where
  "family_watch T n M K \<longleftrightarrow>
     (\<forall>w. watch_is_closed T n w \<longleftrightarrow> held K w = {}) \<and> (\<forall>w. dom (born K w) \<subseteq> issued K w \<and> held K w \<subseteq> issued K w) \<and>
     (\<forall>h w rx w'. watch_subscribe T h w = (rx, w') \<longrightarrow> rx \<notin> issued K w \<and> issued K w' = insert rx (issued K w) \<and>
        held K w' = (if h = n then insert rx (held K w) else held K w) \<and> born K w' = born K w \<and>
        mail_sent M w' = mail_sent M w) \<and>
     (\<forall>rx w. issued K (watch_drop_rx T rx w) = issued K w \<and> held K (watch_drop_rx T rx w) = held K w - {rx} \<and>
        born K (watch_drop_rx T rx w) = born K w \<and> mail_sent M (watch_drop_rx T rx w) = mail_sent M w) \<and>
     (\<forall>a c rx r w h w'. spawn T (SuperviseChild a c rx r) w = (h, w') \<longrightarrow> issued K w' = issued K w \<and> held K w' = held K w \<and>
        born K w' = (if rx \<in> held K w then (born K w)(rx \<mapsto> address c) else born K w) \<and> mail_sent M w' = mail_sent M w) \<and>
     (\<forall>h w. held K (mpsc_close T h w) = held K w \<and> born K (mpsc_close T h w) = born K w)"

lemma family_watchD:
  assumes "family_watch T n M K"
  shows "watch_is_closed T n w \<longleftrightarrow> held K w = {}" and "dom (born K w) \<subseteq> issued K w \<and> held K w \<subseteq> issued K w"
    and "watch_subscribe T h w = (rx, w') \<Longrightarrow> rx \<notin> issued K w \<and> issued K w' = insert rx (issued K w) \<and>
        held K w' = (if h = n then insert rx (held K w) else held K w) \<and> born K w' = born K w \<and>
        mail_sent M w' = mail_sent M w"
    and "issued K (watch_drop_rx T rx w) = issued K w" "held K (watch_drop_rx T rx w) = held K w - {rx}"
      "born K (watch_drop_rx T rx w) = born K w" "mail_sent M (watch_drop_rx T rx w) = mail_sent M w"
    and "spawn T (SuperviseChild a c rx r) w = (k, w') \<Longrightarrow> issued K w' = issued K w \<and> held K w' = held K w \<and>
        born K w' = (if rx \<in> held K w then (born K w)(rx \<mapsto> address c) else born K w) \<and> mail_sent M w' = mail_sent M w"
    and "held K (mpsc_close T h w) = held K w" "born K (mpsc_close T h w) = born K w"
  using assms unfolding family_watch_def by metis+

text \<open>The steps of the library that the relation allows: to subscribe, to drop a receiver that is no child's, to
  spawn a child, and to drop the receiver of a child whose death is in the mailbox.\<close>

lemma subscribe_family:
  assumes "family_watch T n M K" "watch_subscribe T h w = (rx, w')"
  shows "family_rel M K dead_msg w w'" "not_a_child K rx w'"
proof -
  note s = family_watchD(3) [OF assms]
  show "family_rel M K dead_msg w w'"
    using s by (auto simp: family_rel_def accounted_def split: if_splits)
  show "not_a_child K rx w'"
    using s family_watchD(2) [OF assms(1), of w] by (auto simp: not_a_child_def)
qed

lemma drop_stranger_family:
  assumes "family_watch T n M K" "not_a_child K rx w"
  shows "family_rel M K dead_msg w (watch_drop_rx T rx w)"
  using assms(2) family_watchD(4-7) [OF assms(1)]
  by (auto simp: family_rel_def accounted_def not_a_child_def)

lemma drop_dead_family:
  assumes "family_watch T n M K" "born K w rx = Some child" "\<exists>b\<in>set (mail_sent M w). death_notice dead_msg child b"
  shows "family_rel M K dead_msg w (watch_drop_rx T rx w)"
  using assms(2,3) family_watchD(4-7) [OF assms(1)]
  by (auto simp: family_rel_def accounted_def)

lemma spawn_with_run:
  assumes "family_watch T n M K" "spawn_with T child_ctx a (c, w) = Some (Done ref, (c', w'))"
  obtains rx where "rx \<notin> issued K w" "issued K w' = insert rx (issued K w)" "mail_sent M w' = mail_sent M w"
    "held K w' = (if notifier c = n then insert rx (held K w) else held K w)"
    "born K w' = (if notifier c = n then (born K w)(rx \<mapsto> address child_ctx) else born K w)"
proof -
  from assms(2) obtain rx w1 h where s: "watch_subscribe T (notifier c) w = (rx, w1)"
    and p: "spawn T (SuperviseChild a child_ctx rx (actor_ref_clone (address c))) w1 = (h, w')"
    by (auto simp: spawn_with_def io_simps split: prod.splits if_splits)
  note 1 = family_watchD(3) [OF assms(1) s] and 2 = family_watchD(8) [OF assms(1) p]
  have "rx \<notin> held K w" using 1 family_watchD(2) [OF assms(1), of w] by blast
  with 1 2 show thesis by (intro that [of rx]) (auto split: if_splits)
qed

lemma spawn_with_family:
  assumes "family_watch T n M K"
  shows "keeps (pair_rel (family_rel M K dead_msg)) (spawn_with T child_ctx a)"
proof (rule keepsI)
  fix s ref t
  assume run: "spawn_with T child_ctx a s = Some (Done ref, t)"
  obtain c w c' w' where st: "s = (c, w)" "t = (c', w')" by (cases s; cases t)
  from spawn_with_run [OF assms run [unfolded st]] obtain rx where
    rx: "rx \<notin> issued K w" "issued K w' = insert rx (issued K w)" "mail_sent M w' = mail_sent M w"
    "held K w' = (if notifier c = n then insert rx (held K w) else held K w)"
    "born K w' = (if notifier c = n then (born K w)(rx \<mapsto> address child_ctx) else born K w)" .
  have "rx \<notin> dom (born K w)" using rx(1) family_watchD(2) [OF assms, of w] by blast
  with rx(1) have "family_rel M K dead_msg w w'"
    unfolding family_rel_def accounted_def rx(2-) by (auto simp: map_le_def split: if_splits)
  then show "pair_rel (family_rel M K dead_msg) s t" by (simp add: pair_rel_def st)
qed

lemma spawn_child_family:
  assumes "family_watch T n M K" "makings_keep T (family_rel M K dead_msg)"
  shows "keeps (pair_rel (family_rel M K dead_msg)) (spawn_child T P a)"
  unfolding spawn_child_def
  by (intro family.pair.keeps_bind family.in_world_keeps family.ctx_new_keeps assms(2) spawn_with_family [OF assms(1)])

text \<open>A child is born with \<open>spawn_with\<close>, on a context whose state is \<open>Running\<close>: not while its parent is shutting down.\<close>

lemma spawn_with_births:
  assumes "family_watch T (notifier c) M K" "spawn_with T child_ctx a (c, w) = Some (Done ref, (c', w'))"
  shows "state c = Running" "\<exists>rx. rx \<in> held K w' \<and> born K w' rx = Some (address child_ctx)"
proof -
  show "state c = Running" using assms(2) by (auto simp: spawn_with_def io_simps split: if_splits)
  show "\<exists>rx. rx \<in> held K w' \<and> born K w' rx = Some (address child_ctx)"
    by (rule spawn_with_run [OF assms]) auto
qed

section \<open>The block of a child\<close>

text \<open>The receiver of an executor is its supervisor's from the beginning to the end.\<close>

lemma on_env_receiver: "on_env m E = Some (x, E') \<Longrightarrow> receiver E' = receiver E"
  by (auto simp: on_env_run split: option.splits prod.splits)

definition same_receiver :: "('a, 'm, 'w) executor \<Rightarrow> ('a, 'm, 'w) executor \<Rightarrow> bool" where
  "same_receiver E E' \<longleftrightarrow> receiver E' = receiver E"

interpretation same_receiver: frame_rel same_receiver
  by unfold_locales (simp_all add: same_receiver_def)

lemma on_env_same_receiver: "keeps same_receiver (on_env m)"
  by (auto simp: keeps_def same_receiver_def dest: on_env_receiver)

lemma callback_same_receiver: "keeps same_receiver (callback cb h)"
  unfolding callback_def log_call_def
  by (intro same_receiver.keeps_seq same_receiver.keeps_modify on_env_same_receiver) (simp add: same_receiver_def)

lemma process_same_receiver: "keeps same_receiver (process_message T P b)"
proof -
  have "keeps same_receiver (log_call (Recv b))"
    unfolding log_call_def by (rule same_receiver.keeps_modify) (simp add: same_receiver_def)
  moreover have "keeps same_receiver (case box_scheduler P b of
      Blocking \<Rightarrow> deliver_blocking T P b | NonBlocking \<Rightarrow> deliver_nonblocking T P b)"
    by (auto simp: deliver_blocking_def deliver_nonblocking_def split: scheduler.split sum.split
        intro!: same_receiver.keeps_rules on_env_same_receiver)
  ultimately show ?thesis
    unfolding process_message_def by (intro same_receiver.keeps_rules callback_same_receiver)
qed

lemma check_same_receiver: "keeps same_receiver (check_anonymous_actors T P)"
proof -
  have o: "keeps same_receiver (set_overflow n)" for n
    unfolding set_overflow_def by (rule same_receiver.keeps_modify) (simp add: same_receiver_def)
  have a: "keeps same_receiver (acquire_and_drop T sem n)" for sem n
    by (auto simp: keeps_def acquire_and_drop_def in_w_run same_receiver_def split: option.splits)
  show ?thesis
    unfolding check_anonymous_actors_def usize_sub_def
    by (intro same_receiver.keeps_rules o a allI conjI impI same_receiver.keeps_bind | simp split: if_splits)+
qed

interpretation same_receiver: executor_parts same_receiver T P for T P
  by unfold_locales (simp_all add: same_receiver_def process_same_receiver check_same_receiver)

lemma shutdown_same_receiver: "keeps same_receiver (shutdown T P)"
proof -
  have "keeps same_receiver (set_state st)" for st
    unfolding set_state_def by (rule same_receiver.keeps_modify) (simp add: same_receiver_def)
  then show ?thesis
    unfolding shutdown_def
    by (intro same_receiver.keeps_seq callback_same_receiver same_receiver.stopping_keeps same_receiver.stop_keeps)
qed

lemma run_supervised_actor_same_receiver: "keeps same_receiver (run_supervised_actor T P)"
  unfolding run_supervised_actor_def
  by (intro same_receiver.keeps_seq callback_same_receiver same_receiver.supervised_loop_keeps shutdown_same_receiver)

text \<open>The channels of its context too.\<close>

definition same_channels :: "('a, 'm, 'w) executor \<Rightarrow> ('a, 'm, 'w) executor \<Rightarrow> bool" where
  "same_channels E E' \<longleftrightarrow> address (ectx E') = address (ectx E) \<and> notifier (ectx E') = notifier (ectx E) \<and>
     mailbox (ectx E') = mailbox (ectx E)"

definition same_channels_if ::
  "('a, 'm, 'w) tokio \<Rightarrow> ('a, 'm, 'w) actor_ops \<Rightarrow> ('a, 'm, 'w) executor \<Rightarrow> ('a, 'm, 'w) executor \<Rightarrow> bool" where
  "same_channels_if T P E E' \<longleftrightarrow> blocking_runs T \<and> well_behaved_actor T P \<longrightarrow> same_channels E E'"

lemma forward_same_channels: "forward E E' \<Longrightarrow> same_channels E E'"
  by (simp add: forward_def ctx_moves_def same_channels_def)

interpretation same_channels: executor_parts "same_channels_if T P" T P for T P
proof unfold_locales
  show "keeps (same_channels_if T P) (process_message T P msg)" for msg
    using process_message_forward [of T P msg]
    by (auto simp: keeps_def same_channels_if_def dest: forward_same_channels)
  show "keeps (same_channels_if T P) (check_anonymous_actors T P)"
    using check_anonymous_actors_forward [of T P]
    by (auto simp: keeps_def same_channels_if_def dest: forward_same_channels)
qed (auto simp: same_channels_if_def same_channels_def)

declare same_channels.trans [trans]

lemma callback_same_channels: "well_behaved T h \<Longrightarrow> keeps (same_channels_if T P) (callback cb h)"
  using callback_forward [of T h cb] by (auto simp: keeps_def same_channels_if_def dest: forward_same_channels)

lemma set_state_same_channels: "keeps (same_channels_if T P) (set_state st)"
  by (auto simp: keeps_def set_state_run same_channels_if_def same_channels_def)

lemma shutdown_same_channels:
  assumes "well_behaved_actor T P"
  shows "keeps (same_channels_if T P) (shutdown T P)"
  unfolding shutdown_def
  by (intro same_channels.keeps_seq set_state_same_channels callback_same_channels same_channels.stopping_keeps
      same_channels.stop_keeps) (use assms in \<open>simp_all add: well_behaved_actor_def\<close>)

lemma run_supervised_actor_same_channels:
  assumes "well_behaved_actor T P"
  shows "keeps (same_channels_if T P) (run_supervised_actor T P)"
  unfolding run_supervised_actor_def
  by (intro same_channels.keeps_seq callback_same_channels same_channels.supervised_loop_keeps shutdown_same_channels assms)
    (use assms in \<open>simp_all add: well_behaved_actor_def\<close>)

lemma start_to_close_same_channels:
  assumes "callback OnStart (on_start P) E = Some (Done r1, E1)" "io_loop (run_round T P) E1 = Some (Done r2, E2)"
    and "set_state Stopping E2 = Some (Done r3, E3)" "callback OnStopping (on_stopping P) E3 = Some (Done r4, E4)"
    and "stopping T P E4 = Some (Done r5, E5)" "well_behaved_actor T P"
  shows "same_channels_if T P E E5"
proof -
  have w: "well_behaved T (on_start P)" "well_behaved T (on_stopping P)"
    using assms(6) by (simp_all add: well_behaved_actor_def)
  have "same_channels_if T P E E1" by (rule keepsD [OF callback_same_channels [OF w(1)] assms(1)])
  also have "same_channels_if T P E1 E2" by (rule keepsD [OF same_channels.run_loop_keeps assms(2)])
  also have "same_channels_if T P E2 E3" by (rule keepsD [OF set_state_same_channels assms(3)])
  also have "same_channels_if T P E3 E4" by (rule keepsD [OF callback_same_channels [OF w(2)] assms(4)])
  also have "same_channels_if T P E4 E5" by (rule keepsD [OF same_channels.stopping_keeps assms(5)])
  finally show ?thesis .
qed

text \<open>\<open>tokio::spawn(..).await\<close>: the result of a task that has run, from a world the caller left to one it sees.\<close>

definition joins_child :: "('a, 'm, 'w) tokio \<Rightarrow> ('w \<Rightarrow> 'w \<Rightarrow> bool) \<Rightarrow> bool" where
  "joins_child T R \<longleftrightarrow> (\<forall>m w x w'. spawn_join_child T m w = Some (Done (Inr x), w') \<longrightarrow>
     (\<exists>u v. m u = Some (Done x, v) \<and> R w u \<and> R v w'))"

lemma child_task_DoneE:
  assumes "child_task T P a c rx w = Some (Done x, w')"
  obtains E u where "run_supervised_actor T P (executor_child a c rx w) = Some (Done u, E)"
    "x = (actor E, ectx E, receiver E)" "w' = world E"
  using assms by (auto simp: child_task_def split: option.splits res.splits prod.splits)

lemma joined_child_family:
  assumes T: "family_hyps M K dead_msg T P" "well_behaved_actor T P" "joins_child T (family_rel M K dead_msg)"
    and join: "spawn_join_child T (child_task T P a c rx) w = Some (Done (Inr (a', c', rcv)), w')"
  shows "family_rel M K dead_msg w w'" "address c' = address c" "rcv = Some rx"
proof -
  have B: "blocking_runs T" using T(1) by (simp add: family_hyps_def world_hyps_def)
  from T(3) join obtain u v where "child_task T P a c rx u = Some (Done (a', c', rcv), v)"
    and w: "family_rel M K dead_msg w u" "family_rel M K dead_msg v w'"
    unfolding joins_child_def by blast
  then obtain E x where E: "run_supervised_actor T P (executor_child a c rx u) = Some (Done x, E)"
    and e: "(a', c', rcv) = (actor E, ectx E, receiver E)" "v = world E"
    by (auto elim: child_task_DoneE)
  have "family_rel M K dead_msg u v"
    using keepsD [OF family.run_supervised_actor_keeps [OF T(1) [unfolded family_hyps_def]] E] e by (simp add: exec_rel_def executor_child_def)
  with w show "family_rel M K dead_msg w w'" by (blast intro: family.trans)
  show "address c' = address c"
    using keepsD [OF run_supervised_actor_same_channels [OF T(2)] E] B T(2) e
    by (simp add: same_channels_if_def same_channels_def executor_child_def)
  show "rcv = Some rx"
    using keepsD [OF run_supervised_actor_same_receiver E] e by (simp add: same_receiver_def executor_child_def)
qed

text \<open>Was the struct of a child that has ended taken by a caller that awaits it? And the world after it was offered.\<close>

definition handed_over :: "('a, 'm, 'w) tokio \<Rightarrow> 'a \<Rightarrow> ctx \<Rightarrow> 'w \<Rightarrow> bool" where
  "handed_over T a c w \<longleftrightarrow> (case into_future_sender c of None \<Rightarrow> False
     | Some s \<Rightarrow> (case oneshot_send_actor T (into_inner s) a w of (Inl _, _) \<Rightarrow> False | (Inr _, _) \<Rightarrow> True))"

definition after_offer :: "('a, 'm, 'w) tokio \<Rightarrow> 'a \<Rightarrow> ctx \<Rightarrow> 'w \<Rightarrow> 'w" where
  "after_offer T a c w = (case into_future_sender c of None \<Rightarrow> w | Some s \<Rightarrow> snd (oneshot_send_actor T (into_inner s) a w))"

text \<open>C12: the block of a child that did not panic offers its struct to the caller that awaits it, if there is one. If
  the struct was taken the parent is not told; else the block sends the death of the child, with its address, to the mailbox of the
  parent, where it is when the send returns, and keeps what the family relies on, whatever the others do. Only then, as
  its last step, it lets go of its receiver. (\<open>child_panic_reported_late\<close> is about a child that panicked.)\<close>

theorem child_block_keeps_promise:
  assumes "family_watch T n M K" "family_hyps M K dead_msg T P" "well_behaved_actor T P"
    and "joins_child T (family_rel M K dead_msg)" "mpsc_delivers T (ref_address supervisor) M"
    and "born K w rx = Some (address c)"
    and "spawn_join_child T (child_task T P a c rx) w = Some (Done (Inr (a', c', rcv)), w1)"
    and "child_block T P dead_msg a c rx supervisor w = Some (Done (), w')"
  shows "\<exists>w2. w' = watch_drop_rx T rx w2 \<and> rx \<notin> held K w' \<and> family_rel M K dead_msg w w2 \<and>
    (if handed_over T a' c' w1 then w2 = after_offer T a' c' w1
     else (\<exists>b. mpsc_send T (ref_address supervisor) b (after_offer T a' c' w1) = Some (Inr (), w2) \<and>
         death_notice dead_msg (address c) b \<and> b \<in> set (mail_sent M w2)) \<and> family_rel M K dead_msg w w')"
proof -
  let ?R = "family_rel M K dead_msg"
  note j = joined_child_family [OF assms(2-4) assms(7)]
  have RK: "runtime_keeps T ?R (not_a_child K)" using assms(2) by (simp add: family_hyps_def world_hyps_def)
  have drop: "?R w (watch_drop_rx T rx w2)"
    if r: "?R w w2" and "\<exists>b\<in>set (mail_sent M w2). death_notice dead_msg (address c) b" for w2
  proof -
    have "born K w2 rx = Some (address c)"
      using assms(6) family_relD(2) [OF r] by (metis domI map_le_def)
    from family.trans [OF r drop_dead_family [OF assms(1) this that(2)]] show ?thesis .
  qed
  have reported: ?thesis
    if "report_dead_actor T dead_msg supervisor b d (Some rx) v = Some (Done (), w')" "address d = address c" "?R w v"
      "\<not> handed_over T a' c' w1" "after_offer T a' c' w1 = v" for b d v
  proof -
    let ?b = "BoxEnvelope (envelope_new (dead_msg (Inr \<lparr> dead_actor = b, dead_ctx = d \<rparr>)))"
    from that(1) obtain w2 where w2: "mpsc_send T (ref_address supervisor) ?b v = Some (Inr (), w2)"
      and w': "w' = watch_drop_rx T rx w2"
      by (rule report_dead_actor_DoneE)
    have told: "death_notice dead_msg (address c) ?b" "?b \<in> set (mail_sent M w2)"
      using that(2) assms(5) w2 unfolding death_notice_def mpsc_delivers_def by blast+
    have "?R w w2" by (rule family.trans [OF that(3) keeps_awaitD [OF runtime_keepsD(13) [OF RK] w2]])
    moreover from drop [OF this] told have "?R w w'" unfolding w' by blast
    ultimately show ?thesis
      using told that(4,5) w2 by (intro exI [of _ w2]) (auto simp: w' family_watchD(5) [OF assms(1)])
  qed
  show ?thesis
  proof (cases "into_future_sender c'")
    case None
    then show ?thesis using assms(7,8) j by (intro reported [of a' c' w1]) (simp_all add: child_block_def io_bind_run handed_over_def after_offer_def)
  next
    case (Some s)
    obtain sent w2 where s: "oneshot_send_actor T (into_inner s) a' w1 = (sent, w2)" by force
    have r: "?R w w2" by (rule family.trans [OF j(1) keeps_callD [OF runtime_keepsD(2) [OF RK] s]])
    show ?thesis
    proof (cases sent)
      case (Inl mine)
      then show ?thesis using assms(7,8) j(2,3) s Some r
        by (intro reported [of mine "c'\<lparr>into_future_sender := None\<rparr>" w2]) (simp_all add: child_block_def io_bind_run call_run handed_over_def after_offer_def)
    next
      case (Inr u)
      then have "w' = watch_drop_rx T rx w2"
        using assms(7,8) j(3) s Some by (simp add: child_block_def io_bind_run call_run drop_receiver_def modify_run)
      with s Some Inr r show ?thesis
        by (intro exI [of _ w2]) (simp add: handed_over_def after_offer_def family_watchD(5) [OF assms(1)])
    qed
  qed
qed

section \<open>The parent\<close>

text \<open>A run of a top level actor in two parts: until it has closed its mailbox, and from then on.\<close>

definition run_to_close :: "('a, 'm, 'w) tokio \<Rightarrow> ('a, 'm, 'w) actor_ops \<Rightarrow> (unit, ('a, 'm, 'w) executor) io" where
  "run_to_close T P =
     io_seq (callback OnStart (on_start P))
     (io_seq (io_loop (run_round T P))
     (io_seq (set_state Stopping)
     (io_seq (callback OnStopping (on_stopping P))
     (stopping T P))))"

definition run_from_close :: "('a, 'm, 'w) tokio \<Rightarrow> ('a, 'm, 'w) actor_ops \<Rightarrow> (unit, ('a, 'm, 'w) executor) io" where
  "run_from_close T P =
     io_seq (set_state Stopped)
     (io_seq (callback OnStopped (on_stopped P))
     (io_seq (executor_stop T P)
     (io_seq (callback OnEnd (on_end P))
     (answer_awaiter T))))"

lemma run_actor_at_close: "run_actor T P = io_seq (run_to_close T P) (run_from_close T P)"
  by (simp add: run_actor_def shutdown_def run_to_close_def run_from_close_def io_seq_def io_bind_assoc)

lemma run_from_close_family:
  assumes "family_hyps M K dead_msg T P" "run_from_close T P D = Some (Done u, E)"
  shows "family_rel M K dead_msg (world D) (world E)"
proof -
  note H = assms(1) [unfolded family_hyps_def]
  have T: "runtime_keeps T (family_rel M K dead_msg) (not_a_child K)" "user_keeps P (family_rel M K dead_msg)"
    using H by (simp_all add: world_hyps_def)
  have "keeps (exec_rel (family_rel M K dead_msg)) (run_from_close T P)"
    unfolding run_from_close_def
    by (intro family.exec.keeps_seq family.set_state_keeps family.callback_keeps user_keepsD(5,6) [OF T(2)]
        family.world_ifD [OF family.rounds.stop_keeps H] family.answer_awaiter_keeps [OF T(1)])
  from keepsD [OF this assms(2)] show ?thesis by (simp add: exec_rel_def)
qed

lemma run_to_close_DoneE:
  assumes "run_to_close T P E = Some (Done r, D)"
  obtains E1 E2 E3 E4 r1 r2 r3 r4 where
    "callback OnStart (on_start P) E = Some (Done r1, E1)" "io_loop (run_round T P) E1 = Some (Done r2, E2)"
    "set_state Stopping E2 = Some (Done r3, E3)" "callback OnStopping (on_stopping P) E3 = Some (Done r4, E4)"
    "stopping T P E4 = Some (Done r, D)"
  using assms unfolding run_to_close_def by (elim io_seq_DoneE) blast

lemma closed_not_running:
  assumes "blocking_runs T" "well_behaved_actor T P" "run_to_close T P E = Some (Done r, D)"
  shows "state (ectx D) \<noteq> Running"
  using assms(3)
proof (rule run_to_close_DoneE)
  fix E1 E2 E3 E4 r1 r2 r3 r4
  assume 3: "set_state Stopping E2 = Some (Done r3, E3)"
    and 4: "callback OnStopping (on_stopping P) E3 = Some (Done r4, E4)" and 5: "stopping T P E4 = Some (Done r, D)"
  have "forward E3 E4" by (rule keepsD [OF callback_forward [where T = T] 4]) (use assms(2) in \<open>simp add: well_behaved_actor_def\<close>)
  moreover have "forward E4 D" by (rule forward_ifD [OF forward_if.stopping_keeps assms(1,2) 5])
  ultimately have "state (ectx E3) \<le> state (ectx D)" by (auto simp: forward_def ctx_moves_def intro: order_trans)
  moreover have "state (ectx E3) = Stopping" using 3 by (auto simp: set_state_run)
  ultimately show ?thesis by (cases "state (ectx D)") (auto simp: less_eq_actor_state_def)
qed

lemma family_hears:
  assumes "mail_hyps T P (mailbox c) M" "family_hyps M K dead_msg T P" "family_watch T (notifier c) M K"
    and "mail_pending M w = mail_sent M w" "accounted M K dead_msg w"
    and "run_actor T P (executor_new a c w) = Some (Done (), E)"
  shows "\<exists>D. run_to_close T P (executor_new a c w) = Some (Done (), D) \<and> run_from_close T P D = Some (Done (), E) \<and>
    state (ectx D) \<noteq> Running \<and> held K (world D) = {} \<and> born K w \<subseteq>\<^sub>m born K (world D) \<and>
    (\<forall>rx child. born K (world D) rx = Some child \<longrightarrow>
       (\<exists>b\<in>set (mail_sent M (world D)) \<inter> set (recvs (calls E)). death_notice dead_msg child b))"
proof -
  let ?R = "family_rel M K dead_msg" and ?S = "executor_new a c w"
  have T: "blocking_runs T" "user_keeps P ?R" and W: "well_behaved_actor T P" and MR: "mpsc_receiver T (mailbox c) M"
    using assms(1,2) by (simp_all add: family_hyps_def world_hyps_def mail_hyps_def)
  note H = assms(2) [unfolded family_hyps_def]
  from assms(6) obtain D where D: "run_to_close T P ?S = Some (Done (), D)" and E: "run_from_close T P D = Some (Done (), E)"
    unfolding run_actor_at_close by (auto elim: io_seq_DoneE)
  from D obtain E1 E2 E3 E4 r1 r2 r3 r4 where
    1: "callback OnStart (on_start P) ?S = Some (Done r1, E1)" and 2: "io_loop (run_round T P) E1 = Some (Done r2, E2)" and
    3: "set_state Stopping E2 = Some (Done r3, E3)" and 4: "callback OnStopping (on_stopping P) E3 = Some (Done r4, E4)" and
    5: "stopping T P E4 = Some (Done (), D)"
    by (rule run_to_close_DoneE)
  have "exec_rel ?R ?S E1" by (rule keepsD [OF family.callback_keeps [OF user_keepsD(1) [OF T(2)]] 1])
  moreover have "exec_rel ?R E1 E2" by (rule keepsD [OF family.run_loop_keeps [OF H] 2])
  moreover have "exec_rel ?R E2 E3" by (rule keepsD [OF family.set_state_keeps 3])
  moreover have "exec_rel ?R E3 E4" by (rule keepsD [OF family.callback_keeps [OF user_keepsD(4) [OF T(2)]] 4])
  moreover obtain F where "exec_rel ?R E4 F" and F: "watch_is_closed T (notifier (ectx F)) (world F)"
    "D = set_world (mpsc_close T (mailbox (ectx F))) F"
    by (rule family.stopping_closing [OF H 5])
  ultimately have "exec_rel ?R ?S F" by (blast intro: family.exec.trans)
  then have wF: "?R w (world F)" by (simp add: exec_rel_def executor_new_def)
  have "same_channels ?S D"
    using start_to_close_same_channels [OF 1 2 3 4 5 W] T(1) W by (simp add: same_channels_if_def)
  then have c: "mailbox (ectx F) = mailbox c" "notifier (ectx F) = notifier c"
    by (simp_all add: same_channels_def executor_new_def F(2) set_world_def)
  have world: "world D = mpsc_close T (mailbox c) (world F)" by (simp add: F(2) set_world_def c)
  have "held K (world F) = {}" using F(1) c family_watchD(1) [OF assms(3)] by simp
  then have h: "held K (world D) = {}" "born K (world D) = born K (world F)" by (simp_all add: world family_watchD(9,10) [OF assms(3)])
  have "mail_sent M (world D) = mail_sent M (world F)" by (simp add: world mpsc_receiverD(3) [OF MR])
  moreover have "accounted M K dead_msg (world F)" using assms(5) family_relD(3) [OF wF] by blast
  ultimately have "\<forall>rx child. born K (world D) rx = Some child \<longrightarrow> (\<exists>b\<in>set (mail_sent M (world D)). death_notice dead_msg child b)"
    using h \<open>held K (world F) = {}\<close> by (auto simp: accounted_def)
  moreover have "set (mail_sent M (world D)) \<subseteq> set (recvs (calls E))"
    using family_relD(1) [OF run_from_close_family [OF assms(2) E]] run_actor_all_mail [OF assms(1,4,6)] by simp
  moreover have "state (ectx D) \<noteq> Running" by (rule closed_not_running [OF T(1) W D])
  moreover have "born K w \<subseteq>\<^sub>m born K (world D)" using family_relD(2) [OF wF] h(2) by simp
  ultimately show ?thesis using D E h(1) by blast
qed

text \<open>C11: a parent whose awaited calls all keep the family relation, as the blocks of children do that do not panic and are not
  awaited: at the point \<open>D\<close> of its run at which it has closed its mailbox it is not running any more, so no child can be
  born (\<open>spawn_with_births\<close>), none of its children has a receiver left, and each child born until then, those
  it had at its start included, has its death among the messages in the mailbox; at the end the parent has handled
  every one of these.\<close>

theorem parent_hears_of_all_children:
  assumes "mail_hyps T P (mailbox c) M" "family_hyps M K dead_msg T P" "family_watch T (notifier c) M K"
    and "mail_pending M w = mail_sent M w" "accounted M K dead_msg w"
    and "run_actor T P (executor_new a c w) = Some (Done (), E)"
  shows "\<exists>D. run_to_close T P (executor_new a c w) = Some (Done (), D) \<and> run_from_close T P D = Some (Done (), E) \<and>
    state (ectx D) \<noteq> Running \<and> held K (world D) = {} \<and> born K w \<subseteq>\<^sub>m born K (world D) \<and>
    (\<forall>rx child. born K (world D) rx = Some child \<longrightarrow>
       (\<exists>b\<in>set (mail_sent M (world D)) \<inter> set (recvs (calls E)). death_notice dead_msg child b))"
  using assms by (rule family_hears)

end
