(* ===== verification/Supervised.thy ===== *)
theory Supervised
  imports Liveness Family
begin

text \<open>
  That a supervised actor ends once its supervisor has told it to shut down (\<open>run_supervised_actor\<close> of \<open>executor.rs\<close>):
  every round of its loop sees the value of the watch channel or takes a message from the mailbox, and the
  shutdown that follows ends as that of any other actor.
\<close>

text \<open>
  The hypotheses beside those of \<open>live\<close>: \<open>told\<close> says that the value of the watch channel is \<open>Shutdown\<close>, and not yet seen. Then
  the \<open>select!\<close> resolves, and nothing takes the value back.
\<close>

definition still :: "('w \<Rightarrow> bool) \<Rightarrow> ('a, 'm, 'w) executor \<Rightarrow> ('a, 'm, 'w) executor \<Rightarrow> bool" where
  "still told E E' \<longleftrightarrow> (told (world E) \<longrightarrow> told (world E'))"

definition told_to_stop ::
  "('a, 'm, 'w) tokio \<Rightarrow> ('a, 'm, 'w) actor_ops \<Rightarrow> handle \<Rightarrow> handle \<Rightarrow> ('m, 'w) mail_view \<Rightarrow> ('w \<Rightarrow> nat) \<Rightarrow> ('w \<Rightarrow> bool) \<Rightarrow> bool" where
  "told_to_stop T P rx mb M budget told \<longleftrightarrow>
     (\<forall>w. told w \<longrightarrow> watch_borrow T rx w = Some Shutdown \<and>
        (\<exists>ev w'. select_supervised T rx mb w = Some (ev, w') \<and> calm M budget w w' \<and> told w')) \<and>
     (\<forall>w w'. select_supervised T rx mb w = Some (MailboxRecv None, w') \<longrightarrow> mail_closed M w) \<and>
     keeps (still told :: ('a, 'm, 'w) executor \<Rightarrow> _) (callback OnStart (on_start P)) \<and>
     (\<forall>b. keeps (still told) (process_message T P b)) \<and> keeps (still told) (check_anonymous_actors T P)"

lemma told_to_stopD:
  fixes T :: "('a, 'm, 'w) tokio"
  assumes "told_to_stop T P rx mb M budget told"
  shows "told w \<Longrightarrow> watch_borrow T rx w = Some Shutdown"
    and "told w \<Longrightarrow> \<exists>ev w'. select_supervised T rx mb w = Some (ev, w') \<and> calm M budget w w' \<and> told w'"
    and "select_supervised T rx mb w = Some (MailboxRecv None, w') \<Longrightarrow> mail_closed M w"
    and "keeps (still told :: ('a, 'm, 'w) executor \<Rightarrow> _) (callback OnStart (on_start P))"
    and "keeps (still told) (process_message T P b)" "keeps (still told) (check_anonymous_actors T P)"
  using assms unfolding told_to_stop_def by blast+

definition told_live :: "handle \<Rightarrow> handle \<Rightarrow> ('m, 'w) mail_view \<Rightarrow> ('w \<Rightarrow> bool) \<Rightarrow> ('a, 'm, 'w) executor \<Rightarrow> bool" where
  "told_live rx mb M told E \<longleftrightarrow>
     receiver E = Some rx \<and> mailbox (ectx E) = mb \<and> \<not> mail_closed M (world E) \<and> told (world E)"

lemma calm_pressure:
  assumes "calm M budget w w'" "mail_sent M w' = mail_sent M w @ new" "mail_pending M w' = mail_pending M w @ new"
  shows "pressure M budget w' \<le> pressure M budget w"
  using assms by (simp add: calm_def pressure_def)

lemma check_told_live:
  assumes H: "mail_hyps T P mb M" and L: "live T P mb M budget" and S: "told_to_stop T P rx mb M budget told"
    and I: "told_live rx mb M told E" and k: "check_anonymous_actors T P E = Some (Done u, F)"
  shows "told_live rx mb M told F" "pressure M budget (world F) \<le> pressure M budget (world E)"
proof -
  have c: "calm M budget (world E) (world F)"
    using keepsD [OF liveD(8) [OF L] k] by (simp add: calm_run_def)
  have "calls F = calls E" using keepsD [OF same_calls_check k] by (simp add: same_calls_def)
  then obtain new where new: "mailbox (ectx F) = mailbox (ectx E)" "mail_sent M (world F) = mail_sent M (world E) @ new"
    "mail_pending M (world F) = mail_pending M (world E) @ new"
    using check_anonymous_actors_fifo [OF H k, of "[]"] by (auto simp: fifo_def)
  show "pressure M budget (world F) \<le> pressure M budget (world E)" by (rule calm_pressure [OF c new(2,3)])
  show "told_live rx mb M told F"
    using I c new(1) keepsD [OF check_same_receiver k] keepsD [OF told_to_stopD(6) [OF S] k]
    by (simp add: told_live_def calm_def same_receiver_def still_def)
qed

lemma supervised_round_live:
  fixes T :: "('a, 'm, 'w) tokio"
  assumes H: "mail_hyps T P mb M" and L: "live T P mb M budget" and S: "told_to_stop T P rx mb M budget told"
    and I: "told_live rx mb M told E"
  shows "\<exists>x G. supervised_round T P E = Some (x, G) \<and>
    (x = Done Again \<longrightarrow> told_live rx mb M told G \<and> pressure M budget (world G) < pressure M budget (world E)) \<and>
    (\<forall>fl. x = Done fl \<longrightarrow> mailbox (ectx G) = mb \<and> \<not> mail_closed M (world G))"
proof -
  have R: "select_receiver T mb M" using H by (simp add: mail_hyps_def)
  obtain y F where k: "check_anonymous_actors T P E = Some (y, F)" using liveD(9) [OF L] by blast
  show ?thesis
  proof (cases y)
    case Panic
    with k show ?thesis by (simp add: supervised_round_def io_seq_run)
  next
    case (Done u)
    note F = check_told_live [OF H L S I k [unfolded Done]]
    then have f: "receiver F = Some rx" "mailbox (ectx F) = mb" "\<not> mail_closed M (world F)" "told (world F)"
      by (simp_all add: told_live_def)
    obtain ev w where s: "select_supervised T rx mb (world F) = Some (ev, w)"
      and c: "calm M budget (world F) w" and w: "told w"
      using told_to_stopD(2) [OF S f(4)] by blast
    have op: "\<not> mail_closed M w" using c f(3) by (simp add: calm_def)
    show ?thesis
    proof (cases ev)
      case WatchChanged
      then show ?thesis
        using k s f op Done told_to_stopD(1) [OF S w]
        by (simp add: supervised_round_def handle_supervised_message_def io_simps)
    next
      case WatchClosed
      then show ?thesis
        using k s f Done by (simp add: supervised_round_def handle_supervised_message_def io_simps)
    next
      case (MailboxRecv r)
      with s f(3) told_to_stopD(3) [OF S] obtain b where r: "r = Some b" by (cases r) auto
      obtain x G where p: "process_message T P b (F\<lparr>world := w\<rparr>) = Some (x, G)" using liveD(7) [OF L] by blast
      have run: "supervised_round T P E = Some (case x of Panic \<Rightarrow> Panic | Done event \<Rightarrow> Done (loop_flow event), G)"
        using k s f(1,2) p Done MailboxRecv r
        by (cases x) (simp_all add: supervised_round_def handle_supervised_message_def io_simps)
      show ?thesis
      proof (cases x)
        case Panic
        with run show ?thesis by simp
      next
        case x: (Done event)
        have t: "mail_takes M b (world F) w" using s MailboxRecv r by (auto intro: select_receiverD(1) [OF R])
        obtain new where new: "mailbox (ectx G) = mb" "mail_sent M (world G) = mail_sent M (world F) @ new"
          "b # mail_pending M (world G) = mail_pending M (world F) @ new"
          using take_and_process [OF H f(2) t fifo_refl _ p [unfolded x]] by auto
        have "calm M budget (world F) (world G)"
          using c keepsD [OF liveD(6) [OF L] p [unfolded x]] by (auto simp: calm_run_def intro: calm_trans)
        then have g: "\<not> mail_closed M (world G)" "budget (world G) + length new \<le> budget (world F)"
          using f(3) new(2) by (auto simp: calm_def)
        moreover have "Suc (length (mail_pending M (world G))) = length (mail_pending M (world F)) + length new"
          using arg_cong [OF new(3), of length] by simp
        ultimately have "pressure M budget (world G) < pressure M budget (world F)"
          unfolding pressure_def by linarith
        moreover have "told_live rx mb M told G"
          using keepsD [OF process_same_receiver p [unfolded x]] keepsD [OF told_to_stopD(5) [OF S] p [unfolded x]]
            new(1) g(1) f(1) w
          by (simp add: told_live_def same_receiver_def still_def)
        ultimately show ?thesis using run x F(2) new(1) g(1) by auto
      qed
    qed
  qed
qed

lemma supervised_loop_live:
  fixes T :: "('a, 'm, 'w) tokio" and E :: "('a, 'm, 'w) executor"
  assumes H: "mail_hyps T P mb M" and L: "live T P mb M budget" and S: "told_to_stop T P rx mb M budget told"
    and I: "told_live rx mb M told E"
  obtains x E' where "io_loop (supervised_round T P) E = Some (x, E')"
    "\<And>u. x = Done u \<Longrightarrow> mailbox (ectx E') = mb \<and> \<not> mail_closed M (world E')"
proof -
  have "\<exists>x E'. io_loop (supervised_round T P) E = Some (x, E')"
  proof (rule io_loop_total [where I = "told_live rx mb M told" and R = "measure (\<lambda>E. pressure M budget (world E))"])
    show "\<exists>x G. supervised_round T P F = Some (x, G) \<and>
        (x = Done Again \<longrightarrow> told_live rx mb M told G \<and> (G, F) \<in> measure (\<lambda>E. pressure M budget (world E)))"
      if "told_live rx mb M told F" for F :: "('a, 'm, 'w) executor"
      using supervised_round_live [OF H L S that] by auto
  qed (use I in simp_all)
  then obtain x E' where run: "io_loop (supervised_round T P) E = Some (x, E')" by blast
  have "triple (told_live rx mb M told) (io_loop (supervised_round T P))
      (\<lambda>_ E. mailbox (ectx E) = mb \<and> \<not> mail_closed M (world E))"
  proof (rule triple_loop, rule tripleI)
    fix F fl G
    assume "told_live rx mb M told F" "supervised_round T P F = Some (Done fl, G)"
    then show "case fl of Again \<Rightarrow> told_live rx mb M told G | Leave _ \<Rightarrow> mailbox (ectx G) = mb \<and> \<not> mail_closed M (world G)"
      using supervised_round_live [OF H L S, of F] by (auto split: flow.split)
  qed
  with run I that show thesis by (auto simp: triple_def)
qed

text \<open>C13: a supervised actor that was told to shut down ends, whatever is in its mailbox and whatever its own children
  do, if the others do not send to it for ever.\<close>

theorem told_child_ends:
  fixes T :: "('a, 'm, 'w) tokio"
  assumes "mail_hyps T P (mailbox c) M" "live T P (mailbox c) M budget"
    and "told_to_stop T P rx (mailbox c) M budget told" "told w" "\<not> mail_closed M w"
  shows "\<exists>x E. run_supervised_actor T P (executor_child a c rx w) = Some (x, E)"
proof -
  note H = assms(1) and L = assms(2)
  have P: "well_behaved T (on_start P)" "keeps (env_mail M) (on_start P)"
    using H by (simp_all add: mail_hyps_def well_behaved_actor_def mail_userD)
  obtain x1 and E1 :: "('a, 'm, 'w) executor" where
    1: "callback OnStart (on_start P) (executor_child a c rx w) = Some (x1, E1)"
    using live_hooks(1) [OF L] by blast
  show ?thesis
  proof (cases x1)
    case Panic
    with 1 show ?thesis by (simp add: run_supervised_actor_def io_seq_run)
  next
    case d1: (Done u1)
    have "mailbox (ectx E1) = mailbox c"
      using fifo_mailbox [OF callback_fifo [OF P 1 [unfolded d1], of "[]"]] by (simp add: executor_child_def)
    then have "told_live rx (mailbox c) M told E1"
      using assms(4,5) keepsD [OF liveD(10) [OF L] 1 [unfolded d1]] keepsD [OF callback_same_receiver 1 [unfolded d1]]
        keepsD [OF told_to_stopD(4) [OF assms(3)] 1 [unfolded d1]]
      by (simp add: told_live_def executor_child_def calm_run_def calm_def same_receiver_def still_def)
    then obtain x2 E2 where 2: "io_loop (supervised_round T P) E1 = Some (x2, E2)"
      "\<And>u. x2 = Done u \<Longrightarrow> mailbox (ectx E2) = mailbox c \<and> \<not> mail_closed M (world E2)"
      using supervised_loop_live [OF H L assms(3)] by blast
    show ?thesis
    proof (cases x2)
      case Panic
      with 1 2(1) d1 show ?thesis by (simp add: run_supervised_actor_def io_seq_run)
    next
      case d2: (Done u2)
      obtain x3 E3 where "shutdown T P E2 = Some (x3, E3)"
        using shutdown_total [OF H L] 2(2) [OF d2] by blast
      with 1 2(1) d1 d2 show ?thesis by (simp add: run_supervised_actor_def io_seq_run)
    qed
  qed
qed

end
