(* ===== verification/World.thy ===== *)
theory World
  imports Io
begin

text \<open>
  The world of \<open>world/mod.rs\<close> and its builder (\<open>world/builder.rs\<close>): the settings of the runtime, the
  loop of an input, the task of one connection, and waiting for all inputs.
\<close>

section \<open>WorldBuilder\<close>

text \<open>A thread name is a string or a function; functions are known by a number.\<close>

datatype thread_name = NameString string | NameFn nat

record world_builder =
  worker_threads :: "usize option"
  max_blocking_threads :: "usize option"
  thread_name :: "thread_name option"
  thread_stack_size :: "usize option"
  enable_time :: bool
  enable_io :: bool

definition world_builder_default :: world_builder where
  "world_builder_default = \<lparr> worker_threads = None, max_blocking_threads = None, thread_name = None,
     thread_stack_size = None, enable_time = False, enable_io = False \<rparr>"

definition world_builder_new :: world_builder where
  "world_builder_new = world_builder_default"

definition set_worker_threads :: "usize \<Rightarrow> world_builder \<Rightarrow> world_builder" where
  "set_worker_threads n b =
     (if n = 0 then b\<lparr>worker_threads := Some 1\<rparr> else b\<lparr>worker_threads := Some n\<rparr>)"

definition set_max_blocking_threads :: "usize \<Rightarrow> world_builder \<Rightarrow> world_builder" where
  "set_max_blocking_threads n b =
     (if n = 0 then b\<lparr>max_blocking_threads := Some 1\<rparr> else b\<lparr>max_blocking_threads := Some n\<rparr>)"

definition set_thread_name :: "string \<Rightarrow> world_builder \<Rightarrow> world_builder" where
  "set_thread_name name b = b\<lparr>thread_name := Some (NameString name)\<rparr>"

definition set_thread_name_fn :: "nat \<Rightarrow> world_builder \<Rightarrow> world_builder" where
  "set_thread_name_fn f b = b\<lparr>thread_name := Some (NameFn f)\<rparr>"

definition set_thread_stack_size :: "usize \<Rightarrow> world_builder \<Rightarrow> world_builder" where
  "set_thread_stack_size n b = b\<lparr>thread_stack_size := Some n\<rparr>"

definition set_enable_time :: "world_builder \<Rightarrow> world_builder" where
  "set_enable_time b = b\<lparr>enable_time := True\<rparr>"

definition set_enable_io :: "world_builder \<Rightarrow> world_builder" where
  "set_enable_io b = b\<lparr>enable_io := True\<rparr>"

text \<open>\<open>unwrap\<close>: the calls it makes on the builder of Tokio, in order, and the runtime that one builds.\<close>

datatype runtime_flavor = MultiThread | CurrentThread

datatype builder_call =
    WorkerThreads usize
  | MaxBlockingThreads usize
  | ThreadName thread_name
  | ThreadStackSize usize
  | EnableIo
  | EnableTime

definition builder_calls :: "world_builder \<Rightarrow> builder_call list" where
  "builder_calls b =
     (case worker_threads b of None \<Rightarrow> [] | Some n \<Rightarrow> [WorkerThreads n]) @
     (case max_blocking_threads b of None \<Rightarrow> [] | Some n \<Rightarrow> [MaxBlockingThreads n]) @
     (case thread_name b of None \<Rightarrow> [] | Some nm \<Rightarrow> [ThreadName nm]) @
     (case thread_stack_size b of None \<Rightarrow> [] | Some n \<Rightarrow> [ThreadStackSize n]) @
     (if enable_io b then [EnableIo] else []) @
     (if enable_time b then [EnableTime] else [])"

text \<open>A world: its runtime, and the components whose event loops it will run.\<close>

record 'c world_rec =
  rt :: handle
  inputs :: "'c list"

definition world_from :: "handle \<Rightarrow> 'c world_rec" where
  "world_from r = \<lparr> rt = r, inputs = [] \<rparr>"

definition builder_unwrap ::
  "(runtime_flavor \<Rightarrow> builder_call list \<Rightarrow> 'w \<Rightarrow> (io_error + handle) \<times> 'w) \<Rightarrow> runtime_flavor \<Rightarrow>
   world_builder \<Rightarrow> (io_error + 'c world_rec, 'w) io" where
  "builder_unwrap rt_build flavor b =
     io_bind (call (rt_build flavor (builder_calls b))) (\<lambda>res. case res of
         Inl err \<Rightarrow> ret (Inl err)
       | Inr r \<Rightarrow> ret (Inr (world_from r)))"

definition world_build ::
  "(runtime_flavor \<Rightarrow> builder_call list \<Rightarrow> 'w \<Rightarrow> (io_error + handle) \<times> 'w) \<Rightarrow> world_builder \<Rightarrow>
   (io_error + 'c world_rec, 'w) io" where
  "world_build rt_build b = builder_unwrap rt_build MultiThread b"

definition world_build_single_thread ::
  "(runtime_flavor \<Rightarrow> builder_call list \<Rightarrow> 'w \<Rightarrow> (io_error + handle) \<times> 'w) \<Rightarrow> world_builder \<Rightarrow>
   (io_error + 'c world_rec, 'w) io" where
  "world_build_single_thread rt_build b = builder_unwrap rt_build CurrentThread b"

text \<open>The calls a user can make on a builder.\<close>

datatype setting =
    SetWorkerThreads usize
  | SetMaxBlockingThreads usize
  | SetThreadName string
  | SetThreadNameFn nat
  | SetThreadStackSize usize
  | SetEnableTime
  | SetEnableIo

fun apply_setting :: "setting \<Rightarrow> world_builder \<Rightarrow> world_builder" where
  "apply_setting (SetWorkerThreads n) b = set_worker_threads n b"
| "apply_setting (SetMaxBlockingThreads n) b = set_max_blocking_threads n b"
| "apply_setting (SetThreadName nm) b = set_thread_name nm b"
| "apply_setting (SetThreadNameFn f) b = set_thread_name_fn f b"
| "apply_setting (SetThreadStackSize n) b = set_thread_stack_size n b"
| "apply_setting SetEnableTime b = set_enable_time b"
| "apply_setting SetEnableIo b = set_enable_io b"

text \<open>Tokio panics on a thread count of zero; a builder never holds one.\<close>

definition builder_inv :: "world_builder \<Rightarrow> bool" where
  "builder_inv b \<longleftrightarrow> worker_threads b \<noteq> Some 0 \<and> max_blocking_threads b \<noteq> Some 0"

lemma apply_setting_inv: "builder_inv b \<Longrightarrow> builder_inv (apply_setting s b)"
  by (cases s)
    (auto simp: builder_inv_def set_worker_threads_def set_max_blocking_threads_def set_thread_name_def
      set_thread_name_fn_def set_thread_stack_size_def set_enable_time_def set_enable_io_def)

lemma fold_settings_inv: "builder_inv b \<Longrightarrow> builder_inv (fold apply_setting ss b)"
  by (induction ss arbitrary: b) (simp_all add: apply_setting_inv)

lemma builder_calls_inv:
  "builder_inv b \<Longrightarrow> WorkerThreads 0 \<notin> set (builder_calls b) \<and> MaxBlockingThreads 0 \<notin> set (builder_calls b)"
  by (auto simp: builder_inv_def builder_calls_def split: option.splits)

section \<open>Inputs\<close>

text \<open>
  A component is a value \<open>'c\<close> with its \<open>accept\<close> and \<open>shutdown\<close>; the loop of an input waits for either
  a connection or the shutdown of the world, and is lost when the accepting code panics.
\<close>

datatype 'a accept_event = Accepted "io_error + reader \<times> 'a" | ShutdownRecv

record ('c, 'a, 'w) component =
  select_accept :: "handle \<Rightarrow> ('a accept_event, 'c \<times> 'w) io"
  component_shutdown :: "(unit, 'c \<times> 'w) io"

definition on_input :: "'c \<Rightarrow> 'c world_rec \<Rightarrow> 'c world_rec" where
  "on_input c wd = wd\<lparr>inputs := inputs wd @ [c]\<rparr>"

definition on_snd :: "('r, 'w) io \<Rightarrow> ('r, 'c \<times> 'w) io" where
  "on_snd = zoom snd (\<lambda>w (c, _). (c, w))"

definition input_round ::
  "('a, 'm, 'w) tokio \<Rightarrow> ('a, 'w, 'x) actor_impl_scheme \<Rightarrow> ('c, 'a, 'w) component \<Rightarrow> handle \<Rightarrow>
   (unit flow, 'c \<times> 'w) io" where
  "input_round T P K sd =
     io_bind (select_accept K sd) (\<lambda>branch. case branch of
         Accepted (Inr (rd, a)) \<Rightarrow>
           io_bind (on_snd (start T P a)) (\<lambda>connection.
           io_bind (on_snd (call (spawn T (ServeConnection (reader_inner rd) connection)))) (\<lambda>_. ret Again))
       | Accepted (Inl err) \<Rightarrow> panic
       | ShutdownRecv \<Rightarrow> ret (Leave ()))"

definition input_loop ::
  "('a, 'm, 'w) tokio \<Rightarrow> ('a, 'w, 'x) actor_impl_scheme \<Rightarrow> ('c, 'a, 'w) component \<Rightarrow> handle \<Rightarrow>
   (unit, 'c \<times> 'w) io" where
  "input_loop T P K sd = io_seq (io_loop (input_round T P K sd)) (component_shutdown K)"

text \<open>
  The task of a connection: every payload that is read is asked of the actor, whose answer is
  ignored; when nothing can be read any more the actor is awaited. \<open>rd\<close> is \<open>reader.read()\<close>.
\<close>

definition serve_round ::
  "('a, 'm, 'w) tokio \<Rightarrow> (io_error + 'm option, 'w) io \<Rightarrow> actor_ref \<Rightarrow> (unit flow, 'w) io" where
  "serve_round T rd connection =
     io_bind rd (\<lambda>res. case res of
         Inr (Some payload) \<Rightarrow> io_bind (async_ask T connection payload) (\<lambda>_. ret Again)
       | Inr None \<Rightarrow> ret (Leave ())
       | Inl err \<Rightarrow> ret (Leave ()))"

definition serve_connection ::
  "('a, 'm, 'w) tokio \<Rightarrow> (io_error + 'm option, 'w) io \<Rightarrow> actor_ref \<Rightarrow> (unit, 'w) io" where
  "serve_connection T rd connection =
     io_seq (io_loop (serve_round T rd connection))
       (io_bind (into_future T connection) (\<lambda>_. ret ()))"

section \<open>Running the world\<close>

text \<open>
  \<open>block_until_completion\<close>: the inputs get a receiver of the shutdown broadcast each and are spawned;
  a task turns Ctrl+C into that broadcast; then the inputs are joined in order, and the completion
  channel is awaited.
\<close>

record 'w signals =
  broadcast_channel :: "nat \<Rightarrow> 'w \<Rightarrow> handle \<times> 'w"
  broadcast_subscribe :: "handle \<Rightarrow> 'w \<Rightarrow> handle \<times> 'w"
  complete_channel :: "nat \<Rightarrow> 'w \<Rightarrow> handle \<times> 'w"
  complete_drop_tx :: "handle \<Rightarrow> 'w \<Rightarrow> 'w"
  complete_recv :: "handle \<Rightarrow> (unit option, 'w) fut"
  join_input :: "handle \<Rightarrow> (join_error + unit, 'w) fut"

text \<open>The block of one input: an error of its loop is logged. The loops of the code never have one.\<close>

fun spawn_inputs ::
  "('a, 'm, 'w) tokio \<Rightarrow> 'w signals \<Rightarrow> handle \<Rightarrow> nat list \<Rightarrow> (handle list, 'w) io" where
  "spawn_inputs T S notify [] = ret []"
| "spawn_inputs T S notify (i # is) =
     io_bind (call (broadcast_subscribe S notify)) (\<lambda>reciever.
     io_bind (call (spawn T (RunInput i reciever))) (\<lambda>h.
     io_bind (spawn_inputs T S notify is) (\<lambda>hs. ret (h # hs))))"

fun join_inputs :: "'w signals \<Rightarrow> handle list \<Rightarrow> (unit, 'w) io" where
  "join_inputs S [] = ret ()"
| "join_inputs S (h # hs) = io_bind (await (join_input S h)) (\<lambda>_. join_inputs S hs)"

definition block_until_completion ::
  "('a, 'm, 'w) tokio \<Rightarrow> 'w signals \<Rightarrow> 'c world_rec \<Rightarrow> (unit, 'w) io" where
  "block_until_completion T S wd =
     io_bind (call (broadcast_channel S 1)) (\<lambda>notify_shutdown.
     io_bind (call (complete_channel S 1)) (\<lambda>shutdown_complete.
     io_bind (spawn_inputs T S notify_shutdown [0..<length (inputs wd)]) (\<lambda>hs.
     io_bind (call (spawn T (NotifyShutdown notify_shutdown))) (\<lambda>_.
     io_seq (join_inputs S hs)
     (io_seq (modify (complete_drop_tx S shutdown_complete))
     (io_bind (await (complete_recv S shutdown_complete)) (\<lambda>_. ret ())))))))"

section \<open>Properties\<close>

text \<open>However a builder is configured, it never asks Tokio for zero threads, on which Tokio panics.\<close>

theorem builder_threads_positive:
  "WorkerThreads 0 \<notin> set (builder_calls (fold apply_setting ss world_builder_new)) \<and>
   MaxBlockingThreads 0 \<notin> set (builder_calls (fold apply_setting ss world_builder_new))"
  by (intro builder_calls_inv fold_settings_inv)
    (simp add: builder_inv_def world_builder_new_def world_builder_default_def)

end
