(* ===== verification/Tcp.thy ===== *)
theory Tcp
  imports Io
begin

text \<open>
  The TCP listener of \<open>io/tcp.rs\<close>: it drives the executor of its router actor by hand, and makes a
  reader task and a writer task for each stream it accepts. The sockets are in the record \<open>net\<close>;
  a socket address is a number.
\<close>

type_synonym socket_addr = nat

record 'w net =
  net_bind :: "socket_addr \<Rightarrow> (io_error + handle, 'w) fut"
  net_poll_accept :: "handle \<Rightarrow> 'w \<Rightarrow> (io_error + handle \<times> socket_addr) poll \<times> 'w"
  net_into_split :: "handle \<Rightarrow> 'w \<Rightarrow> (handle \<times> handle) \<times> 'w"
  net_shutdown_channel :: "'w \<Rightarrow> handle \<times> 'w"

text \<open>The channels of a connection: \<open>rc\<close> of the requests to read, \<open>wc\<close> of the data to write.\<close>

definition tcp_actors ::
  "('a, 'm, 'w) tokio \<Rightarrow> 'w net \<Rightarrow> ('f \<times> handle, 'w) typed \<Rightarrow> (byte list \<times> handle, 'w) typed \<Rightarrow>
   handle \<Rightarrow> ctx \<Rightarrow> (reader \<times> writer, 'w) io" where
  "tcp_actors T N rc wc stream c =
     io_bind (call (net_into_split N stream)) (\<lambda>(rd, wr).
     io_bind (call (typed_channel rc 10)) (\<lambda>reader_tx.
     io_bind (call (typed_channel wc 10)) (\<lambda>writer_tx.
     io_bind (call (net_shutdown_channel N)) (\<lambda>shutdown_tx.
     io_bind (call (watch_subscribe T (notifier c))) (\<lambda>parent_rx.
     io_bind (call (spawn T (ReaderPipe rd reader_tx parent_rx shutdown_tx))) (\<lambda>_.
     io_bind (call (watch_subscribe T (notifier c))) (\<lambda>parent_rx2.
     io_bind (call (spawn T (WriterPipe wr writer_tx parent_rx2 shutdown_tx))) (\<lambda>_.
     ret (reader_new reader_tx, writer_new writer_tx)))))))))"

record ('a, 'm) tcp_listener =
  listener_executor :: "('a, 'm) raw_executor"
  net_listener :: handle

definition tcp_listener_new ::
  "('a, 'm, 'w) tokio \<Rightarrow> 'w net \<Rightarrow> ('a, 'm, 'w) actor_ops \<Rightarrow> socket_addr \<Rightarrow> 'a \<Rightarrow>
   (io_error + ('a, 'm) tcp_listener, 'w) io" where
  "tcp_listener_new T N P addr parent =
     io_bind (await (net_bind N addr)) (\<lambda>bound. case bound of
         Inl err \<Rightarrow> ret (Inl err)
       | Inr listener \<Rightarrow>
           io_bind (ctx_new T P) (\<lambda>c. \<lambda>w.
             (case raw_start P (into_raw (executor_new parent c ()), w) of
                None \<Rightarrow> None
              | Some (Panic, (raw, w')) \<Rightarrow> Some (Panic, w')
              | Some (Done _, (raw, w')) \<Rightarrow>
                  Some (Done (Inr \<lparr> listener_executor = raw, net_listener = listener \<rparr>), w'))))"

text \<open>
  \<open>TcpAcceptFut::poll\<close>: a connection that has come in gets its tasks and is handed to the router as a
  \<open>TcpRequest\<close>; the router's answer is the actor of the connection. \<open>tcp_request\<close> makes the message.
\<close>

definition tcp_accept_poll ::
  "('a, 'm, 'w) tokio \<Rightarrow> 'w net \<Rightarrow> ('f \<times> handle, 'w) typed \<Rightarrow> (byte list \<times> handle, 'w) typed \<Rightarrow>
   ('a, 'm, 'w) actor_ops \<Rightarrow> (writer \<Rightarrow> socket_addr \<Rightarrow> 'm) \<Rightarrow> handle \<Rightarrow>
   ((io_error + reader \<times> 'm) poll, ('a, 'm) raw_executor \<times> 'w) io" where
  "tcp_accept_poll T N rc wc P tcp_request listener =
     io_bind (zoom snd (\<lambda>w (raw, _). (raw, w)) (call (net_poll_accept N listener))) (\<lambda>res. case res of
         Ready (Inr (stream, addr)) \<Rightarrow>
           io_bind (with_ctx (tcp_actors T N rc wc stream)) (\<lambda>(rd, wr).
           io_bind (raw_ask P (tcp_request wr addr)) (\<lambda>act.
           ret (Ready (Inr (rd, act)))))
       | Ready (Inl err) \<Rightarrow> ret (Ready (Inl err))
       | Pending \<Rightarrow> ret Pending)"

definition tcp_listener_shutdown ::
  "('a, 'm, 'w) tokio \<Rightarrow> ('a, 'm, 'w) actor_ops \<Rightarrow> (unit, ('a, 'm) raw_executor \<times> 'w) io" where
  "tcp_listener_shutdown T P = raw_shutdown T P"

end
