(* ===== verification/Tcp_World.thy ===== *)
theory Tcp_World
  imports World Tcp Defaults
begin

text \<open>
  The rest of \<open>world/mod.rs\<close>: making a world, running a future on it, and a TCP listener as one of its
  components. \<open>block_on\<close> is \<open>Runtime::block_on\<close>, which runs a future on the calling thread.
\<close>

definition world_new :: "('w \<Rightarrow> (io_error + handle) \<times> 'w) \<Rightarrow> (io_error + 'c world_rec, 'w) io" where
  "world_new rt_new =
     io_bind (call rt_new) (\<lambda>res. case res of
         Inl err \<Rightarrow> ret (Inl err)
       | Inr r \<Rightarrow> ret (Inr \<lparr> rt = r, inputs = [] \<rparr>))"

definition with_state ::
  "(handle \<Rightarrow> ('r, 'w) io \<Rightarrow> ('r, 'w) io) \<Rightarrow> 'c world_rec \<Rightarrow> ('r, 'w) io \<Rightarrow> ('r, 'w) io" where
  "with_state block_on wd f = block_on (rt wd) f"

definition tcp_component ::
  "(handle \<Rightarrow> (io_error + ('a, 'm) tcp_listener, 'w) io \<Rightarrow> (io_error + ('a, 'm) tcp_listener, 'w) io) \<Rightarrow>
   ('a, 'm, 'w) tokio \<Rightarrow> 'w net \<Rightarrow> ('a, 'm, 'w) actor_ops \<Rightarrow> 'c world_rec \<Rightarrow> socket_addr \<Rightarrow> 'a \<Rightarrow>
   (io_error + ('a, 'm) tcp_listener, 'w) io" where
  "tcp_component block_on T N P wd addr act = block_on (rt wd) (tcp_listener_new T N P addr act)"

text \<open>
  \<open>component.accept()\<close> in the \<open>select!\<close> of an input. Each time the task is woken (\<open>wake\<close>, which may
  never happen again) the \<open>select!\<close> looks at one branch first: the shutdown channel has something, or the
  listener is polled; a poll that is pending waits for the next time. The answer of the router to a
  \<open>TcpRequest\<close> is the struct of the connection: \<open>conn_of\<close> reads it.
\<close>

datatype wake = WakeShutdown | WakeAccept

definition accept_round ::
  "('a, 'm, 'w) tokio \<Rightarrow> 'w net \<Rightarrow> ('f \<times> handle, 'w) typed \<Rightarrow> (byte list \<times> handle, 'w) typed \<Rightarrow>
   ('a, 'm, 'w) actor_ops \<Rightarrow> (writer \<Rightarrow> socket_addr \<Rightarrow> 'm) \<Rightarrow> ('m \<Rightarrow> 'a) \<Rightarrow> (wake, 'w) fut \<Rightarrow> handle \<Rightarrow>
   ('a accept_event flow, ('a, 'm) raw_executor \<times> 'w) io" where
  "accept_round T N rc wc P tcp_request conn_of wk listener =
     io_bind (on_snd (await wk)) (\<lambda>w. case w of
         WakeShutdown \<Rightarrow> ret (Leave ShutdownRecv)
       | WakeAccept \<Rightarrow>
           io_bind (tcp_accept_poll T N rc wc P tcp_request listener) (\<lambda>p. ret (case p of
               Pending \<Rightarrow> Again
             | Ready (Inl err) \<Rightarrow> Leave (Accepted (Inl err))
             | Ready (Inr (rd, act)) \<Rightarrow> Leave (Accepted (Inr (rd, conn_of act))))))"

definition tcp_accept ::
  "('a, 'm, 'w) tokio \<Rightarrow> 'w net \<Rightarrow> ('f \<times> handle, 'w) typed \<Rightarrow> (byte list \<times> handle, 'w) typed \<Rightarrow>
   ('a, 'm, 'w) actor_ops \<Rightarrow> (writer \<Rightarrow> socket_addr \<Rightarrow> 'm) \<Rightarrow> ('m \<Rightarrow> 'a) \<Rightarrow> (wake, 'w) fut \<Rightarrow> handle \<Rightarrow>
   ('a accept_event, ('a, 'm) raw_executor \<times> 'w) io" where
  "tcp_accept T N rc wc P tcp_request conn_of wk listener =
     io_loop (accept_round T N rc wc P tcp_request conn_of wk listener)"

text \<open>The listener as a component; \<open>wk\<close> waits for the shutdown receiver or the listener.\<close>

definition tcp_listener_component ::
  "('a, 'm, 'w) tokio \<Rightarrow> 'w net \<Rightarrow> ('f \<times> handle, 'w) typed \<Rightarrow> (byte list \<times> handle, 'w) typed \<Rightarrow>
   ('a, 'm, 'w) actor_ops \<Rightarrow> (writer \<Rightarrow> socket_addr \<Rightarrow> 'm) \<Rightarrow> ('m \<Rightarrow> 'a) \<Rightarrow> (handle \<Rightarrow> (wake, 'w) fut) \<Rightarrow>
   handle \<Rightarrow> (('a, 'm) raw_executor, 'a, 'w) component" where
  "tcp_listener_component T N rc wc P tcp_request conn_of wk listener =
     \<lparr> select_accept = (\<lambda>sd. tcp_accept T N rc wc P tcp_request conn_of (wk sd) listener),
       component_shutdown = tcp_listener_shutdown T P \<rparr>"

section \<open>An input serves connections until the shutdown\<close>

text \<open>
  \<open>accepts\<close>: the connections an input took, each with the reader and the actor it was started with, the
  address of that actor, and the task that serves it.
\<close>

record 'a connection =
  conn_reader :: reader
  conn_struct :: 'a
  conn_ref :: actor_ref
  conn_task :: handle

inductive accepts ::
  "('a, 'm, 'w) tokio \<Rightarrow> ('a, 'w, 'x) actor_impl_scheme \<Rightarrow> ('c, 'a, 'w) component \<Rightarrow> handle \<Rightarrow>
   'c \<times> 'w \<Rightarrow> 'a connection list \<Rightarrow> 'c \<times> 'w \<Rightarrow> bool" for T P K sd where
  none: "accepts T P K sd s [] s"
| one: "accepts T P K sd s cs (c, w) \<Longrightarrow> select_accept K sd (c, w) = Some (Done (Accepted (Inr (rd, a))), (c1, w1)) \<Longrightarrow>
    start T P a w1 = Some (Done ref, w2) \<Longrightarrow>
    spawn T (ServeConnection (reader_inner rd) ref) w2 = (h, w3) \<Longrightarrow>
    accepts T P K sd s (cs @ [\<lparr> conn_reader = rd, conn_struct = a, conn_ref = ref, conn_task = h \<rparr>]) (c1, w3)"

text \<open>A round of the loop takes one more connection or is the last.\<close>

lemma input_round_cases:
  assumes "input_round T P K sd (c, w) = Some (Done fl, t)"
  obtains rd a c1 w1 ref w2 h w3 where "fl = Again" "t = (c1, w3)"
    "select_accept K sd (c, w) = Some (Done (Accepted (Inr (rd, a))), (c1, w1))" "start T P a w1 = Some (Done ref, w2)"
    "spawn T (ServeConnection (reader_inner rd) ref) w2 = (h, w3)"
  | "fl = Leave ()" "select_accept K sd (c, w) = Some (Done ShutdownRecv, t)"
  using assms
  by (auto simp: input_round_def io_simps on_snd_def split: option.splits accept_event.splits
      sum.splits prod.splits res.splits)

lemma accepts_step:
  assumes "accepts T P K sd s conns u" "input_round T P K sd u = Some (Done fl, v)"
  shows "case fl of Again \<Rightarrow> \<exists>conns. accepts T P K sd s conns v
    | Leave _ \<Rightarrow> \<exists>conns u. accepts T P K sd s conns u \<and> select_accept K sd u = Some (Done ShutdownRecv, v)"
proof (cases u)
  case (Pair c w)
  from assms(2) [unfolded Pair] show ?thesis
  proof (rule input_round_cases)
    fix rd a c1 w1 ref w2 h w3
    assume "fl = Again" "v = (c1, w3)" "select_accept K sd (c, w) = Some (Done (Accepted (Inr (rd, a))), (c1, w1))"
      "start T P a w1 = Some (Done ref, w2)" "spawn T (ServeConnection (reader_inner rd) ref) w2 = (h, w3)"
    then show ?thesis using accepts.one [OF assms(1) [unfolded Pair], of rd a c1 w1 ref w2 h w3] by auto
  next
    assume "fl = Leave ()" "select_accept K sd (c, w) = Some (Done ShutdownRecv, v)"
    then show ?thesis using assms(1) unfolding Pair by auto
  qed
qed

text \<open>The connections that were taken are behind the loop.\<close>

lemma accepts_loop:
  assumes "accepts T P K sd s conns u"
  shows "io_loop (input_round T P K sd) s = io_loop (input_round T P K sd) u"
  using assms
proof (induction rule: accepts.induct)
  case (one s cs c w rd a c1 w1 ref w2 h w3)
  then have "input_round T P K sd (c, w) = Some (Done Again, (c1, w3))"
    by (simp add: input_round_def io_simps on_snd_def)
  then show ?case using one.IH by (simp add: io_loop.simps [of _ "(c, w)"])
qed simp

text \<open>C24: an input whose loop ends has started every connection it accepted, in order, with a task that
  serves it, has then been told to shut down, and has shut its component down.\<close>

theorem input_serves_all:
  assumes "input_loop T P K sd s = Some (Done (), t)"
  shows "\<exists>conns u v. accepts T P K sd s conns u \<and> select_accept K sd u = Some (Done ShutdownRecv, v) \<and>
    component_shutdown K v = Some (Done (), t)"
proof -
  from assms obtain v where loop: "io_loop (input_round T P K sd) s = Some (Done (), v)"
    and sd: "component_shutdown K v = Some (Done (), t)"
    unfolding input_loop_def by (rule io_seq_DoneE) auto
  have "triple (\<lambda>u. \<exists>conns. accepts T P K sd s conns u) (io_loop (input_round T P K sd))
    (\<lambda>_ v. \<exists>conns u. accepts T P K sd s conns u \<and> select_accept K sd u = Some (Done ShutdownRecv, v))"
    by (rule triple_loop, rule tripleI) (blast intro: accepts_step)
  from tripleD [OF this _ loop] sd show ?thesis using accepts.none by blast
qed

text \<open>C39: one failed \<open>accept\<close> panics the input, whatever it has served before: it takes no further
  connections, and its component, with the router in it, is not shut down.\<close>

theorem accept_error_panics:
  assumes "accepts T P K sd s conns u" "select_accept K sd u = Some (Done (Accepted (Inl err)), v)"
  shows "input_loop T P K sd s = Some (Panic, v)"
proof -
  have "input_round T P K sd u = Some (Panic, v)"
    using assms(2) by (simp add: input_round_def io_simps)
  then have "io_loop (input_round T P K sd) s = Some (Panic, v)"
    using accepts_loop [OF assms(1)] by (simp add: io_loop.simps [of _ u])
  then show ?thesis by (simp add: input_loop_def io_simps)
qed

section \<open>The world waits for its inputs\<close>

text \<open>
  \<open>ended h w\<close>: in the world \<open>w\<close> the task \<open>h\<close> has ended. An awaited join handle says so, and what has ended
  stays so.
\<close>

definition joins :: "'w signals \<Rightarrow> (handle \<Rightarrow> 'w \<Rightarrow> bool) \<Rightarrow> bool" where
  "joins S ended \<longleftrightarrow>
     (\<forall>h w r w'. join_input S h w = Some (r, w') \<longrightarrow> ended h w') \<and>
     (\<forall>k h w r w'. join_input S h w = Some (r, w') \<longrightarrow> ended k w \<longrightarrow> ended k w') \<and>
     (\<forall>k h w. ended k w \<longrightarrow> ended k (complete_drop_tx S h w)) \<and>
     (\<forall>k h w r w'. complete_recv S h w = Some (r, w') \<longrightarrow> ended k w \<longrightarrow> ended k w')"

lemma joinsD:
  assumes "joins S ended"
  shows "join_input S h w = Some (r, w') \<Longrightarrow> ended h w'"
    and "join_input S h w = Some (r, w') \<Longrightarrow> ended k w \<Longrightarrow> ended k w'"
    and "ended k w \<Longrightarrow> ended k (complete_drop_tx S h w)"
    and "complete_recv S h w = Some (u, w') \<Longrightarrow> ended k w \<Longrightarrow> ended k w'"
  using assms unfolding joins_def by blast+

lemma join_inputs_ended:
  assumes "joins S ended" "join_inputs S hs w = Some (Done (), w')"
  shows "(\<forall>h\<in>set hs. ended h w') \<and> (\<forall>k. ended k w \<longrightarrow> ended k w')"
  using assms(2)
proof (induction hs arbitrary: w)
  case (Cons h hs)
  from Cons.prems obtain r v where "join_input S h w = Some (r, v)" "join_inputs S hs v = Some (Done (), w')"
    by (auto simp: io_simps split: option.splits prod.splits)
  then show ?case using Cons.IH joinsD(1,2) [OF assms(1)] by auto
qed (simp add: ret_run)

lemma spawn_inputs_length: "spawn_inputs T S n is w = Some (Done hs, w') \<Longrightarrow> length hs = length is"
  by (induction "is" arbitrary: w hs) (auto simp: io_simps split: option.splits res.splits prod.splits)

text \<open>\<open>block_until_completion\<close> spawns one task for each input and returns only when all of them have ended,
  in whatever order they do.\<close>

theorem completion_joins_all:
  assumes "joins S ended" "block_until_completion T S wd w = Some (Done (), w')"
  shows "\<exists>notify hs u v. spawn_inputs T S notify [0..<length (inputs wd)] u = Some (Done hs, v) \<and>
    length hs = length (inputs wd) \<and> (\<forall>h\<in>set hs. ended h w')"
proof -
  from assms(2) obtain notify done_tx hs u v x y where
    s: "spawn_inputs T S notify [0..<length (inputs wd)] u = Some (Done hs, v)" and
    j: "join_inputs S hs x = Some (Done (), y)" and
    r: "\<exists>r. complete_recv S done_tx (complete_drop_tx S done_tx y) = Some (r, w')"
    by (auto simp: block_until_completion_def io_simps split: option.splits res.splits prod.splits) blast
  have "\<forall>h\<in>set hs. ended h w'"
    using join_inputs_ended [OF assms(1) j] r joinsD(3,4) [OF assms(1)] by blast
  with s spawn_inputs_length [OF s] show ?thesis by auto
qed

end
