(* ===== verification/Tcp_Examples.thy ===== *)
theory Tcp_Examples
  imports Tcp_World "HOL-Library.Sublist"
begin

text \<open>
  The actors of the four worlds under \<open>examples/\<close> that listen on TCP: an echo, one with shared state, a
  broadcaster, and an HTTP server. Each example has one type of its actor structs and one of its messages
  and answers. What is printed is left out; what a \<open>println!\<close> unwraps is not. A socket address is what
  \<open>resolve\<close> makes of its text; the parser and the request type of the HTTP crates are parameters.
\<close>

section \<open>tcp_world.rs\<close>

text \<open>\<open>String::from_utf8\<close>: the well-formed byte sequences of the Unicode standard.\<close>

definition byte_in :: "nat \<Rightarrow> nat \<Rightarrow> byte \<Rightarrow> bool" where
  "byte_in lo hi b \<longleftrightarrow> lo \<le> unat b \<and> unat b \<le> hi"

definition continuation :: "byte \<Rightarrow> bool" where
  "continuation b \<longleftrightarrow> byte_in 0x80 0xBF b"

fun second_byte :: "byte \<Rightarrow> byte \<Rightarrow> bool" where
  "second_byte b c \<longleftrightarrow>
     (if unat b = 0xE0 then byte_in 0xA0 0xBF c
      else if unat b = 0xED then byte_in 0x80 0x9F c
      else if unat b = 0xF0 then byte_in 0x90 0xBF c
      else if unat b = 0xF4 then byte_in 0x80 0x8F c
      else continuation c)"

function valid_utf8 :: "byte list \<Rightarrow> bool" where
  "valid_utf8 [] = True"
| "valid_utf8 (b # bs) =
     (if unat b \<le> 0x7F then valid_utf8 bs
      else if byte_in 0xC2 0xDF b then (case bs of c # r \<Rightarrow> continuation c \<and> valid_utf8 r | _ \<Rightarrow> False)
      else if byte_in 0xE0 0xEF b then
        (case bs of c # d # r \<Rightarrow> second_byte b c \<and> continuation d \<and> valid_utf8 r | _ \<Rightarrow> False)
      else if byte_in 0xF0 0xF4 b then
        (case bs of c # d # e # r \<Rightarrow> second_byte b c \<and> continuation d \<and> continuation e \<and> valid_utf8 r
         | _ \<Rightarrow> False)
      else False)"
  by pat_completeness auto
termination by (relation "measure length") auto

lemma valid_utf8_ascii: "\<forall>b\<in>set bs. unat b \<le> 0x7F \<Longrightarrow> valid_utf8 bs"
  by (induction bs) simp_all

datatype echo_actor = EchoConnection (echo_writer: writer) | EchoRouter

datatype echo_message =
  EchoData "byte list" | EchoRequest writer socket_addr | EchoConn (echo_conn: echo_actor) | EchoUnit

fun echo_connection_handle ::
  "(byte list \<times> handle, 'w) typed \<Rightarrow> (unit, 'w) results \<Rightarrow> echo_message \<Rightarrow>
   ((echo_message, echo_actor \<times> 'w) io, (echo_actor, 'w) env) io" where
  "echo_connection_handle wc A (EchoData msg) =
     io_bind (if valid_utf8 msg then ret () else panic) (\<lambda>_.
     io_bind (read_self echo_writer) (\<lambda>writer.
     ret (on_world (io_bind (writer_write wc A writer msg) (\<lambda>_. ret EchoUnit)))))"
| "echo_connection_handle wc A _ = panic"

definition echo_data_recv :: "read_frame \<Rightarrow> (echo_message option, byte list) io" where
  "echo_data_recv f = io_bind (to_vec f) (\<lambda>v. ret (Some (EchoData v)))"

fun echo_router_handle :: "echo_message \<Rightarrow> (echo_message ask_result, (echo_actor, 'w) env) io" where
  "echo_router_handle (EchoRequest wr addr) = ret (Reply (EchoConn (EchoConnection wr)))"
| "echo_router_handle _ = panic"

definition echo_connection_ops ::
  "(byte list \<times> handle, 'w) typed \<Rightarrow> (unit, 'w) results \<Rightarrow> (echo_actor, echo_message, 'w) actor_ops" where
  "echo_connection_ops wc A =
     with_handlers (default_actor ''Connection'') (\<lambda>_. panic) (\<lambda>_. panic) (echo_connection_handle wc A)"

definition echo_router_ops :: "(echo_actor, echo_message, 'w) actor_ops" where
  "echo_router_ops = with_handlers (default_actor ''Router'') (\<lambda>_. panic) echo_router_handle (\<lambda>_. panic)"

text \<open>
  A \<open>main\<close>: make the world, its components, and wait. \<open>T\<close>, \<open>N\<close> and \<open>S\<close> are the runtime, the sockets and
  the signals; the parameters of the two runtime calls are at the type of their results.
\<close>

definition echo_main ::
  "('w \<Rightarrow> (io_error + handle) \<times> 'w) \<Rightarrow>
   (handle \<Rightarrow> (io_error + (echo_actor, echo_message) tcp_listener, 'w) io \<Rightarrow>
     (io_error + (echo_actor, echo_message) tcp_listener, 'w) io) \<Rightarrow>
   (echo_actor, echo_message, 'w) tokio \<Rightarrow> 'w net \<Rightarrow> 'w signals \<Rightarrow> (string \<Rightarrow> socket_addr) \<Rightarrow> (unit, 'w) io" where
  "echo_main rt_new block_on T N S resolve =
     io_bind (io_bind (world_new rt_new) unwrap_result) (\<lambda>world.
     io_bind (io_bind (tcp_component block_on T N echo_router_ops world (resolve ''127.0.0.1:8080'') EchoRouter)
       unwrap_result) (\<lambda>tcp_input.
     block_until_completion T S (on_input tcp_input world)))"

section \<open>stateful_tcp_world.rs\<close>

text \<open>The shared state is an \<open>Arc<()>\<close>, a value of the unit type.\<close>

datatype stateful_actor =
    StConnection (st_state: unit) (st_write: writer)
  | StRouter (st_router_state: unit)
  | State unit

datatype stateful_message =
    StData "byte list"
  | StRequest writer socket_addr
  | StConn (st_conn: stateful_actor)
  | StDead "stateful_actor dead_actor_result"
  | StUnit

fun stateful_connection_handle ::
  "(byte list \<times> handle, 'w) typed \<Rightarrow> (unit, 'w) results \<Rightarrow> stateful_message \<Rightarrow>
   ((stateful_message, stateful_actor \<times> 'w) io, (stateful_actor, 'w) env) io" where
  "stateful_connection_handle wc A (StData message) =
     io_bind (read_self st_write) (\<lambda>writer.
     ret (on_world (io_bind (writer_write wc A writer message) (\<lambda>_. ret StUnit))))"
| "stateful_connection_handle wc A _ = panic"

definition stateful_router_new :: "unit \<Rightarrow> stateful_actor" where
  "stateful_router_new s = StRouter s"

fun stateful_router_handle ::
  "stateful_message \<Rightarrow> (stateful_message ask_result, (stateful_actor, 'w) env) io" where
  "stateful_router_handle (StRequest wr addr) =
     io_bind (read_self st_router_state) (\<lambda>state. ret (Reply (StConn (StConnection state wr))))"
| "stateful_router_handle _ = panic"

fun stateful_router_dead :: "stateful_message \<Rightarrow> (unit, (stateful_actor, 'w) env) io" where
  "stateful_router_dead (StDead _) = ret ()"
| "stateful_router_dead _ = panic"

text \<open>\<open>Handler<()>\<close> of \<open>State\<close> stops the actor.\<close>

fun state_handle :: "stateful_message \<Rightarrow> (unit, (stateful_actor, 'w) env) io" where
  "state_handle StUnit = in_ctx (modify (\<lambda>(c, w). (stop c, w)))"
| "state_handle _ = panic"

definition state_ops :: "(stateful_actor, stateful_message, 'w) actor_ops" where
  "state_ops = with_handlers (default_actor ''State'') state_handle (\<lambda>_. panic) (\<lambda>_. panic)"

definition stateful_router_ops :: "(stateful_actor, stateful_message, 'w) actor_ops" where
  "stateful_router_ops =
     with_handlers (default_actor ''Router'') stateful_router_dead stateful_router_handle (\<lambda>_. panic)"

definition stateful_connection_ops ::
  "(byte list \<times> handle, 'w) typed \<Rightarrow> (unit, 'w) results \<Rightarrow>
   (stateful_actor, stateful_message, 'w) actor_ops" where
  "stateful_connection_ops wc A =
     with_handlers (default_actor ''Connection'') (\<lambda>_. panic) (\<lambda>_. panic) (stateful_connection_handle wc A)"

definition compute_state :: "(stateful_actor, stateful_message, 'w) tokio \<Rightarrow> (stateful_actor, 'w) io" where
  "compute_state T =
     io_bind (start T (state_ops :: (stateful_actor, stateful_message, 'w) actor_ops) (State ())) (\<lambda>address.
     io_bind (send T address StUnit) (\<lambda>_.
     io_bind (wait_for_completion T address) unwrap_result))"

definition stateful_data_recv :: "read_frame \<Rightarrow> (stateful_message option, byte list) io" where
  "stateful_data_recv f = io_bind (to_vec f) (\<lambda>v. ret (Some (StData v)))"

definition stateful_main ::
  "('w \<Rightarrow> (io_error + handle) \<times> 'w) \<Rightarrow> (handle \<Rightarrow> (stateful_actor, 'w) io \<Rightarrow> (stateful_actor, 'w) io) \<Rightarrow>
   (handle \<Rightarrow> (io_error + (stateful_actor, stateful_message) tcp_listener, 'w) io \<Rightarrow>
     (io_error + (stateful_actor, stateful_message) tcp_listener, 'w) io) \<Rightarrow>
   (stateful_actor, stateful_message, 'w) tokio \<Rightarrow> 'w net \<Rightarrow> 'w signals \<Rightarrow> (string \<Rightarrow> socket_addr) \<Rightarrow>
   (unit, 'w) io" where
  "stateful_main rt_new block_on_state block_on T N S resolve =
     io_bind (io_bind (world_new rt_new) unwrap_result) (\<lambda>world.
     io_bind (with_state block_on_state world (compute_state T)) (\<lambda>state.
     (case state of State arc \<Rightarrow>
       io_bind (io_bind (tcp_component block_on T N stateful_router_ops world
         (resolve ''127.0.0.1:8080'') (stateful_router_new arc)) unwrap_result) (\<lambda>tcp1.
       io_bind (io_bind (tcp_component block_on T N stateful_router_ops world
         (resolve ''127.0.0.1:8081'') (stateful_router_new arc)) unwrap_result) (\<lambda>tcp2.
       block_until_completion T S (on_input tcp2 (on_input tcp1 world))))
     | _ \<Rightarrow> panic)))"

section \<open>multi_tcp_world.rs\<close>

datatype multi_actor =
    Broadcaster (bc_map: "usize \<rightharpoonup> writer")
  | MultiConnection (conn_id: usize) (conn_broadcaster: actor_ref)
  | MultiRouter (router_counter: usize) (router_broadcaster: "actor_ref option")

datatype multi_message =
    Insert usize writer
  | Broadcast "byte list"
  | Remove usize
  | MultiData "byte list"
  | MultiRequest writer socket_addr
  | MultiConn (multi_conn: multi_actor)
  | DeadBroadcaster "multi_actor dead_actor_result"
  | DeadConnection "multi_actor dead_actor_result"
  | MultiUnit

text \<open>The block of a broadcast: the writers one after the other, their results ignored.\<close>

fun broadcast_block ::
  "(byte list \<times> handle, 'w) typed \<Rightarrow> (unit, 'w) results \<Rightarrow> writer list \<Rightarrow> byte list \<Rightarrow> (unit, 'w) io" where
  "broadcast_block wc A [] message = ret ()"
| "broadcast_block wc A (wr # rest) message =
     io_bind (writer_write wc A wr message) (\<lambda>_. broadcast_block wc A rest message)"

text \<open>\<open>vals\<close> is \<open>HashMap::values\<close>: the values in an unspecified order.\<close>

fun broadcaster_handle ::
  "(multi_actor, multi_message, 'w) tokio \<Rightarrow> (byte list \<times> handle, 'w) typed \<Rightarrow> (unit, 'w) results \<Rightarrow>
   ((usize \<rightharpoonup> writer) \<Rightarrow> writer list) \<Rightarrow> multi_message \<Rightarrow> (unit, (multi_actor, 'w) env) io" where
  "broadcaster_handle T wc A vals (Insert i wr) =
     update_self (\<lambda>self. Broadcaster ((bc_map self)(i \<mapsto> wr)))"
| "broadcaster_handle T wc A vals (Broadcast message) =
     io_bind (read_self (vals \<circ> bc_map)) (\<lambda>addresses.
     io_bind (in_ctx (anonymous_task T (broadcast_block wc A addresses message))) (\<lambda>_. ret ()))"
| "broadcaster_handle T wc A vals (Remove i) =
     update_self (\<lambda>self. Broadcaster ((bc_map self)(i := None)))"
| "broadcaster_handle T wc A vals _ = panic"

definition broadcaster_ops ::
  "(multi_actor, multi_message, 'w) tokio \<Rightarrow> (byte list \<times> handle, 'w) typed \<Rightarrow> (unit, 'w) results \<Rightarrow>
   ((usize \<rightharpoonup> writer) \<Rightarrow> writer list) \<Rightarrow> (multi_actor, multi_message, 'w) actor_ops" where
  "broadcaster_ops T wc A vals =
     with_handlers (default_actor ''Broadcaster'') (broadcaster_handle T wc A vals) (\<lambda>_. panic) (\<lambda>_. panic)"

text \<open>\<open>broadcaster.send_async(m).await.unwrap()\<close>.\<close>

definition tell :: "(multi_actor, multi_message, 'w) tokio \<Rightarrow> actor_ref \<Rightarrow> multi_message \<Rightarrow> (unit, 'w) io" where
  "tell T b m = io_bind (send_async T b m) unwrap_result"

fun multi_connection_handle ::
  "(multi_actor, multi_message, 'w) tokio \<Rightarrow> multi_message \<Rightarrow>
   ((multi_message, multi_actor \<times> 'w) io, (multi_actor, 'w) env) io" where
  "multi_connection_handle T (MultiData message) =
     io_bind (read_self conn_broadcaster) (\<lambda>broadcaster.
     ret (on_world (io_bind (tell T broadcaster (Broadcast message)) (\<lambda>_. ret MultiUnit))))"
| "multi_connection_handle T _ = panic"

definition multi_router_on_start ::
  "(multi_actor, multi_message, 'w) tokio \<Rightarrow> (multi_actor, multi_message, 'w) actor_ops \<Rightarrow>
   (unit, (multi_actor, 'w) env) io" where
  "multi_router_on_start T B =
     io_bind (in_ctx (spawn_child T B (Broadcaster Map.empty))) (\<lambda>addr.
     update_self (\<lambda>self. MultiRouter (router_counter self) (Some addr)))"

fun multi_router_handle ::
  "(multi_actor, multi_message, 'w) tokio \<Rightarrow> multi_message \<Rightarrow>
   (multi_message ask_result, (multi_actor, 'w) env) io" where
  "multi_router_handle T (MultiRequest wr addr) =
     io_bind (read_self router_counter) (\<lambda>counter.
     io_bind (io_bind (read_self router_broadcaster) unwrap) (\<lambda>broadcaster.
     io_bind (in_ctx (anonymous_task T (tell T broadcaster (Insert counter wr)))) (\<lambda>_.
     io_bind (checked_add counter 1) (\<lambda>k.
     io_bind (update_self (\<lambda>self. MultiRouter k (router_broadcaster self))) (\<lambda>_.
     ret (Reply (MultiConn (MultiConnection counter broadcaster))))))))"
| "multi_router_handle T _ = panic"

fun multi_router_dead ::
  "(multi_actor, multi_message, 'w) tokio \<Rightarrow> multi_message \<Rightarrow> (unit, (multi_actor, 'w) env) io" where
  "multi_router_dead T (DeadBroadcaster dead) = ret ()"
| "multi_router_dead T (DeadConnection (Inr conn)) =
     io_bind (io_bind (read_self router_broadcaster) unwrap) (\<lambda>broadcaster.
     io_bind (in_ctx (anonymous_task T (tell T broadcaster (Remove (conn_id (dead_actor conn)))))) (\<lambda>_.
     ret ()))"
| "multi_router_dead T (DeadConnection (Inl err)) = ret ()"
| "multi_router_dead T _ = panic"

definition multi_router_ops ::
  "(multi_actor, multi_message, 'w) tokio \<Rightarrow> (multi_actor, multi_message, 'w) actor_ops \<Rightarrow>
   (multi_actor, multi_message, 'w) actor_ops" where
  "multi_router_ops T B =
     with_handlers ((default_actor ''Router'')\<lparr>on_start := multi_router_on_start T B\<rparr>)
       (multi_router_dead T) (multi_router_handle T) (\<lambda>_. panic)"

definition multi_data_recv :: "read_frame \<Rightarrow> (multi_message option, byte list) io" where
  "multi_data_recv f = io_bind (to_vec f) (\<lambda>v. ret (Some (MultiData v)))"

definition multi_main ::
  "('w \<Rightarrow> (io_error + handle) \<times> 'w) \<Rightarrow>
   (handle \<Rightarrow> (io_error + (multi_actor, multi_message) tcp_listener, 'w) io \<Rightarrow>
     (io_error + (multi_actor, multi_message) tcp_listener, 'w) io) \<Rightarrow>
   (multi_actor, multi_message, 'w) tokio \<Rightarrow> (byte list \<times> handle, 'w) typed \<Rightarrow> (unit, 'w) results \<Rightarrow>
   ((usize \<rightharpoonup> writer) \<Rightarrow> writer list) \<Rightarrow> 'w net \<Rightarrow> 'w signals \<Rightarrow> (string \<Rightarrow> socket_addr) \<Rightarrow> (unit, 'w) io" where
  "multi_main rt_new block_on T wc A vals N S resolve =
     io_bind (io_bind (world_new rt_new) unwrap_result) (\<lambda>world.
     io_bind (io_bind (tcp_component block_on T N (multi_router_ops T (broadcaster_ops T wc A vals)) world
       (resolve ''127.0.0.1:8080'') (MultiRouter 0 None)) unwrap_result) (\<lambda>tcp_input.
     block_until_completion T S (on_input tcp_input world)))"

section \<open>http_world.rs\<close>

text \<open>What the example uses of the crates \<open>httparse\<close> and \<open>http\<close>; \<open>'q\<close> is \<open>http::Request<()>\<close>.\<close>

datatype http_status = Complete nat | Partial

record parsed_request =
  req_method :: "string option"
  req_path :: "string option"
  req_headers :: "(string \<times> byte list) list"

record 'q http_lib =
  parse_request :: "byte list \<Rightarrow> string + http_status \<times> parsed_request"
  build_request :: "string \<Rightarrow> string \<Rightarrow> (string \<times> byte list) list \<Rightarrow> string + 'q"
  debug_host :: "'q \<Rightarrow> string"

datatype http_actor = HttpConnection (http_writer: writer) | HttpRouter

datatype 'q http_message =
  HttpData 'q | HttpRequest writer socket_addr | HttpConn (http_conn: http_actor) | HttpUnit

definition into_bytes :: "string \<Rightarrow> byte list" where
  "into_bytes s = map of_char s"

definition http_page :: "string \<Rightarrow> string" where
  "http_page host =
     ''HTTP/1.1 200 OK'' @ [CHR 0x0D, CHR 0x0A] @ ''Content-Type:text/html'' @
     [CHR 0x0D, CHR 0x0A, CHR 0x0D, CHR 0x0A] @ ''<h1>'' @ host @ ''</h1>''"

fun http_connection_handle ::
  "'q http_lib \<Rightarrow> (byte list \<times> handle, 'w) typed \<Rightarrow> (unit, 'w) results \<Rightarrow> 'q http_message \<Rightarrow>
   (('q http_message, http_actor \<times> 'w) io, (http_actor, 'w) env) io" where
  "http_connection_handle L wc A (HttpData req) =
     io_bind (read_self http_writer) (\<lambda>writer.
     ret (on_world (io_bind (writer_write wc A writer (into_bytes (http_page (debug_host L req))))
       (\<lambda>_. ret HttpUnit))))"
| "http_connection_handle L wc A _ = panic"

text \<open>\<open>Data::recv\<close> keeps all bytes of the request so far and parses them again with every frame.\<close>

definition http_data_recv :: "'q http_lib \<Rightarrow> read_frame \<Rightarrow> ('q option, byte list) io" where
  "http_data_recv L f =
     io_bind (as_slice f) (\<lambda>bytes.
     io_bind (modify (\<lambda>data. data @ bytes)) (\<lambda>_.
     io_bind (gets (\<lambda>data. parse_request L data)) (\<lambda>parsed.
     io_bind (unwrap_result parsed) (\<lambda>(status, request). case status of
         Complete _ \<Rightarrow>
           io_bind (unwrap (req_method request)) (\<lambda>m.
           io_bind (unwrap (req_path request)) (\<lambda>p.
           io_bind (unwrap_result (build_request L m p (req_headers request))) (\<lambda>r. ret (Some r))))
       | Partial \<Rightarrow> ret None))))"

fun http_router_handle :: "'q http_message \<Rightarrow> ('q http_message ask_result, (http_actor, 'w) env) io" where
  "http_router_handle (HttpRequest wr addr) = ret (Reply (HttpConn (HttpConnection wr)))"
| "http_router_handle _ = panic"

definition http_connection_ops ::
  "'q http_lib \<Rightarrow> (byte list \<times> handle, 'w) typed \<Rightarrow> (unit, 'w) results \<Rightarrow>
   (http_actor, 'q http_message, 'w) actor_ops" where
  "http_connection_ops L wc A =
     with_handlers (default_actor ''Connection'') (\<lambda>_. panic) (\<lambda>_. panic) (http_connection_handle L wc A)"

definition http_router_ops :: "(http_actor, 'q http_message, 'w) actor_ops" where
  "http_router_ops = with_handlers (default_actor ''Router'') (\<lambda>_. panic) http_router_handle (\<lambda>_. panic)"

definition http_main ::
  "('w \<Rightarrow> (io_error + handle) \<times> 'w) \<Rightarrow>
   (handle \<Rightarrow> (io_error + (http_actor, 'q http_message) tcp_listener, 'w) io \<Rightarrow>
     (io_error + (http_actor, 'q http_message) tcp_listener, 'w) io) \<Rightarrow>
   (http_actor, 'q http_message, 'w) tokio \<Rightarrow> 'w net \<Rightarrow> 'w signals \<Rightarrow> (string \<Rightarrow> socket_addr) \<Rightarrow>
   (unit, 'w) io" where
  "http_main rt_new block_on T N S resolve =
     io_bind (io_bind (world_new rt_new) unwrap_result) (\<lambda>world.
     io_bind (io_bind (tcp_component block_on T N http_router_ops world (resolve ''127.0.0.1:8080'') HttpRouter)
       unwrap_result) (\<lambda>tcp_input.
     block_until_completion T S (on_input tcp_input world)))"

section \<open>The table of the broadcaster\<close>

fun table_step :: "multi_message \<Rightarrow> (usize \<rightharpoonup> writer) \<Rightarrow> (usize \<rightharpoonup> writer)" where
  "table_step (Insert i wr) t = t(i \<mapsto> wr)"
| "table_step (Remove i) t = t(i := None)"
| "table_step _ t = t"

fun box_table :: "multi_message boxed \<Rightarrow> (usize \<rightharpoonup> writer) \<Rightarrow> (usize \<rightharpoonup> writer)" where
  "box_table (BoxEnvelope (Envelope (Some m))) t = table_step m t"
| "box_table _ t = t"

definition updates :: "multi_message \<Rightarrow> multi_actor \<Rightarrow> multi_actor \<Rightarrow> bool" where
  "updates m a a' \<longleftrightarrow> (\<forall>t. a = Broadcaster t \<longrightarrow> a' = Broadcaster (table_step m t))"

lemma broadcaster_effect: "keeps (env_struct (updates m)) (broadcaster_handle T wc A vals m)"
  by (cases m) (auto simp: keeps_def env_struct_def updates_def io_simps split: option.splits res.splits)

interpretation broadcaster: struct_effects
  "broadcaster_ops T wc A vals" "\<lambda>cb a a'. a' = a" updates "\<lambda>_ _ _. False" "\<lambda>_ _ _. False" for T wc A vals
  unfolding broadcaster_ops_def
  by (intro default_struct_effects broadcaster_effect keeps_struct_panic triple_panic)

lemma broadcaster_well_behaved: "well_behaved_actor T (broadcaster_ops T wc A vals)"
  unfolding broadcaster_ops_def
proof (rule default_well_behaved)
  fix m
  show "well_behaved T (broadcaster_handle T wc A vals m)"
    by (cases m) (auto simp: struct_only_well_behaved struct_only_rules
        intro!: well_behaved_bind well_behaved_ret well_behaved_in_ctx api_anonymous_task)
qed (simp_all add: well_behaved_panic)

lemma broadcaster_mail_user: "mail_runtime T M \<Longrightarrow> mail_user (broadcaster_ops T wc A vals) M"
  unfolding broadcaster_ops_def
proof (rule default_mail_user)
  fix m
  assume T: "mail_runtime T M"
  show "keeps (env_mail M) (broadcaster_handle T wc A vals m)"
    by (cases m) (auto simp: struct_only_mail struct_only_rules mail_world.env.keeps_ret
        intro!: mail_world.env.keeps_bind in_ctx_mail anonymous_task_mail [OF T])
qed (simp_all add: struct_only_mail struct_only_panic triple_panic)

lemma broadcaster_chain:
  "chain (box_effect updates (\<lambda>_ _ _. False) (\<lambda>_ _ _. False)) bs (Broadcaster t) a' \<Longrightarrow>
     a' = Broadcaster (fold box_table bs t)"
proof (induction bs arbitrary: t)
  case (Cons b bs)
  then show ?case
    by (cases "(b, t)" rule: box_table.cases) (auto simp: updates_def split: option.splits)
qed simp

text \<open>C31: the broadcaster of \<open>multi_tcp_world.rs\<close>, a child of the router, ends with the table that the
  insertions and removals its mailbox accepted make, in their order: an id has the writer of its last insertion
  unless a removal came after it, and broadcasts change nothing.\<close>

theorem broadcaster_table:
  assumes "mail_host T (mailbox c) M" "answers_run T" "mail_pending M w = mail_sent M w"
    and "run_supervised_actor T (broadcaster_ops T wc A vals)
      (executor_child (Broadcaster Map.empty) c rx w) = Some (Done (), E)"
  shows "actor E = Broadcaster (fold box_table (mail_sent M (world E)) Map.empty)"
proof -
  have "chain broadcaster.effect (map fst (calls E)) (Broadcaster Map.empty) (actor E)"
    using assms(1) by (intro broadcaster.run_supervised_actor_folds [OF _ assms(2,4)]) (simp add: mail_host_def)
  then have "chain (box_effect updates (\<lambda>_ _ _. False) (\<lambda>_ _ _. False)) (recvs (calls E))
      (Broadcaster Map.empty) (actor E)"
    by (rule broadcaster.effect_recvs [rotated]) simp
  from broadcaster_chain [OF this] show ?thesis
    using run_supervised_actor_all_mail
        [OF mail_host_hyps [OF assms(1) broadcaster_well_behaved broadcaster_mail_user] assms(3,4)]
      assms(1) by (simp add: mail_host_def)
qed

section \<open>The ids of the connections\<close>

text \<open>The router of a listener that has given out \<open>n\<close> as its next id.\<close>

definition routing :: "usize \<Rightarrow> actor_ref \<Rightarrow> (multi_actor, multi_message) raw_executor \<times> 'w \<Rightarrow> bool" where
  "routing n b s \<longleftrightarrow> (\<exists>X. fst s = Some X \<and> actor X = MultiRouter n (Some b))"

lemma in_executor_routing:
  assumes "\<And>E r E'. m E = Some (Done r, E') \<Longrightarrow> actor E = MultiRouter n (Some b) \<Longrightarrow> Q r (actor E')"
  shows "triple (routing n b) (in_executor m) (\<lambda>r s. \<exists>X. fst s = Some X \<and> Q r (actor X))"
proof (rule tripleI)
  fix s r t
  assume "routing n b s" and run: "in_executor m s = Some (Done r, t)"
  then obtain X w where s: "s = (Some X, w)" and X: "actor X = MultiRouter n (Some b)"
    by (cases s) (auto simp: routing_def)
  from run [unfolded s in_executor_Some] obtain E' where
    E': "m (at_world w X) = Some (Done r, E')" "t = (Some (at_world () E'), world E')"
    by (auto split: option.splits)
  with assms [OF E'(1)] X show "\<exists>X. fst t = Some X \<and> Q r (actor X)"
    by (simp add: at_world_def)
qed

lemma with_ctx_routing: "triple (routing n b) (with_ctx f) (\<lambda>_. routing n b)"
  unfolding with_ctx_def
  by (rule triple_post [OF in_executor_routing [where Q = "\<lambda>_ a. a = MultiRouter n (Some b)"]])
    (auto simp: io_simps in_w_run routing_def split: option.splits)

lemma raw_ask_routing:
  "triple (routing n b) (raw_ask (multi_router_ops T B) (MultiRequest wr addr))
    (\<lambda>m s. m = MultiConn (MultiConnection n b) \<and> unat n + 1 < 2 ^ 64 \<and> routing (n + 1) b s)"
  unfolding raw_ask_def
  by (rule triple_post [OF in_executor_routing [where n = n and b = b and
        Q = "\<lambda>m a. m = MultiConn (MultiConnection n b) \<and> unat n + 1 < 2 ^ 64 \<and> a = MultiRouter (n + 1) (Some b)"]])
    (auto simp: multi_router_ops_def on_env_run io_simps routing_def
      split: option.splits res.splits if_splits ask_result.splits)

text \<open>What an accepted connection does to the router, and what else the listener does not do to it.\<close>

definition next_id :: "usize \<Rightarrow> actor_ref \<Rightarrow> multi_actor accept_event \<Rightarrow> (multi_actor, multi_message) raw_executor \<times> 'w \<Rightarrow> bool" where
  "next_id n b ev s \<longleftrightarrow> (case ev of
       Accepted (Inr (rd, a)) \<Rightarrow> a = MultiConnection n b \<and> unat n + 1 < 2 ^ 64 \<and> routing (n + 1) b s
     | _ \<Rightarrow> routing n b s)"

lemma on_world_routing: "triple (routing n b) (zoom snd (\<lambda>w (raw, _). (raw, w)) m) (\<lambda>_. routing n b)"
  by (auto simp: triple_def zoom_run routing_def split: option.splits)

lemma tcp_accept_poll_routing:
  "triple (routing n b) (tcp_accept_poll T N rc wc (multi_router_ops T B) MultiRequest listener)
    (\<lambda>p s. case p of
       Ready (Inr (rd, m)) \<Rightarrow> m = MultiConn (MultiConnection n b) \<and> unat n + 1 < 2 ^ 64 \<and> routing (n + 1) b s
     | _ \<Rightarrow> routing n b s)"
  unfolding tcp_accept_poll_def
proof (rule triple_bind [OF on_world_routing], goal_cases)
  case (1 res)
  show ?case
  proof (cases res)
    case (Ready x)
    then show ?thesis
      by (cases x) (auto intro!: triple_bind [OF with_ctx_routing] triple_bind [OF raw_ask_routing] triple_ret
          split: prod.split)
  qed (auto intro: triple_ret)
qed

lemma tcp_accept_routing:
  "triple (routing n b) (tcp_accept T N rc wc (multi_router_ops T B) MultiRequest multi_conn wk listener)
    (next_id n b)"
  unfolding tcp_accept_def
proof (rule triple_loop)
  have poll: "triple (routing n b)
     (io_bind (tcp_accept_poll T N rc wc (multi_router_ops T B) MultiRequest listener) (\<lambda>p. ret (case p of
         Pending \<Rightarrow> Again
       | Ready (Inl err) \<Rightarrow> Leave (Accepted (Inl err))
       | Ready (Inr (rd, act)) \<Rightarrow> Leave (Accepted (Inr (rd, multi_conn act))))))
     (\<lambda>fl s. case fl of Again \<Rightarrow> routing n b s | Leave ev \<Rightarrow> next_id n b ev s)"
    by (rule triple_bind [OF tcp_accept_poll_routing])
      (auto intro!: triple_ret simp: next_id_def split: poll.splits sum.splits prod.splits)
  show "triple (routing n b) (accept_round T N rc wc (multi_router_ops T B) MultiRequest multi_conn wk listener)
    (\<lambda>fl s. case fl of Again \<Rightarrow> routing n b s | Leave ev \<Rightarrow> next_id n b ev s)"
    unfolding accept_round_def on_snd_def
    by (rule triple_bind [OF on_world_routing])
      (auto intro!: poll triple_ret simp: next_id_def split: wake.split)
qed

text \<open>C25: the connections that the listener of \<open>multi_tcp_world.rs\<close> accepts get consecutive ids, starting at the
  counter of the router, so that no two are equal, and all know the same broadcaster; a counter that would
  wrap is a panic before.\<close>

theorem multi_connection_ids:
  assumes "accepts T P (tcp_listener_component T N rc wc (multi_router_ops T B) MultiRequest multi_conn wk listener)
      sd (Some X, w) conns s"
    and "actor X = MultiRouter n (Some b)"
  shows "map conn_struct conns = map (\<lambda>i. MultiConnection (of_nat (unat n + i)) b) [0..<length conns] \<and>
    unat n + length conns < 2 ^ 64 \<and> distinct (map (conn_id \<circ> conn_struct) conns)"
proof -
  have "map conn_struct conns = map (\<lambda>i. MultiConnection (of_nat (unat n + i)) b) [0..<length conns] \<and>
    unat n + length conns < 2 ^ 64 \<and> routing (n + of_nat (length conns)) b s"
    using assms(1)
  proof (induction s0 \<equiv> "(Some X, w)" conns s rule: accepts.induct)
    case none
    then show ?case using assms(2) unsigned_less [of n] by (simp add: routing_def)
  next
    case (one cs c w rd a c1 w1 ref w2 h w3)
    let ?n = "n + of_nat (length cs)"
    have "next_id ?n b (Accepted (Inr (rd, a))) (c1, w1)"
      using one by (intro tripleD [OF tcp_accept_routing]) (auto simp: tcp_listener_component_def)
    moreover have "unat ?n = unat n + length cs"
      using one by (simp add: unat_word_ariths unat_of_nat take_bit_eq_mod)
    ultimately show ?case
      using one by (auto simp: next_id_def routing_def add.assoc [symmetric])
  qed
  then have "map conn_struct conns = map (\<lambda>i. MultiConnection (of_nat (unat n + i)) b) [0..<length conns]"
    and len: "unat n + length conns < 2 ^ 64" by simp_all
  moreover have "x = y" if "(of_nat x :: usize) = of_nat y" "x < length conns" "y < length conns" for x y
    using inj_onD [OF inj_on_word_of_nat [where 'a = 64] that(1)] that(2,3) len by simp
  ultimately show ?thesis
    by (auto simp: distinct_map inj_on_def simp flip: map_map)
qed

section \<open>A request that comes in pieces\<close>

text \<open>The frames of one request: as the reader task does, until there is a result.\<close>

fun recv_all :: "('f \<Rightarrow> ('o option, 'p) io) \<Rightarrow> 'f list \<Rightarrow> ('o option, 'p) io" where
  "recv_all recv [] = ret None"
| "recv_all recv (f # fs) =
     io_bind (recv f) (\<lambda>obj. case obj of Some r \<Rightarrow> ret (Some r) | None \<Rightarrow> recv_all recv fs)"

definition holds :: "read_frame \<Rightarrow> byte list \<Rightarrow> bool" where
  "holds f bs \<longleftrightarrow> unat (read f) \<le> length (buffer f) \<and> take (unat (read f)) (buffer f) = bs"

text \<open>\<open>httparse\<close> answers \<open>Partial\<close> as long as the request is not complete.\<close>

definition partial_before :: "'q http_lib \<Rightarrow> byte list \<Rightarrow> bool" where
  "partial_before L bs \<longleftrightarrow> (\<forall>p. strict_prefix p bs \<longrightarrow> (\<exists>r. parse_request L p = Inr (Partial, r)))"

text \<open>What \<open>recv\<close> makes of the bytes it has so far.\<close>

definition http_result :: "'q http_lib \<Rightarrow> byte list \<Rightarrow> 'q option res" where
  "http_result L data = (case parse_request L data of
       Inl e \<Rightarrow> Panic
     | Inr (Partial, r) \<Rightarrow> Done None
     | Inr (Complete _, r) \<Rightarrow>
         (case (req_method r, req_path r) of
            (Some m, Some p) \<Rightarrow>
              (case build_request L m p (req_headers r) of Inl e \<Rightarrow> Panic | Inr q \<Rightarrow> Done (Some q))
          | _ \<Rightarrow> Panic))"

lemma http_data_recv_holds:
  "holds f bs \<Longrightarrow> http_data_recv L f data = Some (http_result L (data @ bs), data @ bs)"
  by (auto simp: http_data_recv_def http_result_def holds_def as_slice_def io_simps unwrap_def
      split: sum.split http_status.split option.split)

lemma recv_all_http:
  assumes "list_all2 holds fs chunks" "chunks \<noteq> []" "partial_before L (data @ concat chunks)"
  shows "recv_all (http_data_recv L) fs data =
    Some (http_result L (data @ concat chunks), data @ concat chunks)"
  using assms
proof (induction fs chunks arbitrary: data rule: list_all2_induct)
  case (Cons f fs c cs)
  show ?case
  proof (cases "cs = []")
    case True
    with Cons.hyps show ?thesis
      by (auto simp: io_simps http_data_recv_holds split: res.split option.split)
  next
    case False
    with Cons have IH: "recv_all (http_data_recv L) fs (data @ c) =
        Some (http_result L (data @ concat (c # cs)), data @ concat (c # cs))"
      by simp
    show ?thesis
    proof (cases "concat cs = []")
      case True
      then have c: "concat (c # cs) = c" by simp
      show ?thesis
        using IH Cons.hyps(1) unfolding c
        by (auto simp: io_simps http_data_recv_holds split: res.split option.split)
    next
      case False
      then have "strict_prefix (data @ c) (data @ concat (c # cs))" by (simp add: strict_prefix_def)
      with Cons.prems(2) have "http_result L (data @ c) = Done None"
        by (auto simp: partial_before_def http_result_def)
      with IH Cons.hyps(1) show ?thesis by (simp add: io_simps http_data_recv_holds)
    qed
  qed
qed simp

text \<open>C29: how the bytes of a request are cut into frames does not matter to the HTTP server: the receiver has the
  same result after the frames as after one frame with all the bytes.\<close>

theorem http_chunking:
  assumes "list_all2 holds fs chunks" "chunks \<noteq> []" "partial_before L (concat chunks)" "holds g (concat chunks)"
  shows "recv_all (http_data_recv L) fs [] = http_data_recv L g []"
  using recv_all_http [of fs chunks L "[]"] assms by (simp add: http_data_recv_holds)

text \<open>The echo: what is not UTF-8 is a panic, everything else is written back as it came; the answer does not
  say whether it could be written.\<close>

lemma echo_connection_run:
  "echo_connection_handle wc A (EchoData msg) (EchoConnection wr, c, w) =
    (if valid_utf8 msg then Some (Done (on_world (io_bind (writer_write wc A wr msg) (\<lambda>_. ret EchoUnit))),
       (EchoConnection wr, c, w))
     else Some (Panic, (EchoConnection wr, c, w)))"
  by (simp add: io_simps)

text \<open>The actor that \<open>compute_state\<close> awaits: its one message stops it.\<close>

lemma state_handle_stops:
  "state_handle StUnit (State u, c, w) = Some (Done (), (State u, stop c, w))"
  by (simp add: io_simps)

end
