(* ===== verification/Answers.thy ===== *)
theory Answers
  imports Folding Defaults
begin

text \<open>
  That requests are answered (\<open>executor.rs\<close>, \<open>envelope.rs\<close>): the answers that a finished actor has sent, one for each
  request that its mailbox accepted, through the sender that came with it, in order, with the reply that its handler gave
  for the struct of that moment. \<open>answering\<close> is the contract of the actors that answer at once.
\<close>

section \<open>Relations that look at the world\<close>

text \<open>
  A relation of executor states that a message keeps, and that a step of the runtime keeps which moves the world along
  \<open>N\<close>, is kept by the loops of an actor.
\<close>

locale executor_steps = frame_rel R
  for R :: "('a, 'm, 'w) executor \<Rightarrow> ('a, 'm, 'w) executor \<Rightarrow> bool" +
  fixes T :: "('a, 'm, 'w) tokio" and P :: "('a, 'm, 'w) actor_ops" and N :: "'w \<Rightarrow> 'w \<Rightarrow> bool"
  assumes process: "keeps R (process_message T P msg)"
    and check: "keeps R (check_anonymous_actors T P)"
    and step: "N (world E) w \<Longrightarrow> R E (E\<lparr>world := w\<rparr>)"
    and takings: "takings_keep T N"
    and notified: "N w (watch_send T h v w)"
begin

lemma in_w_steps: "keeps N m \<Longrightarrow> keeps R (in_w m)"
  using step by (auto simp: keeps_def in_w_run split: option.splits)

lemma run_round_steps: "keeps R (run_round T P)"
  unfolding run_round_def
  by (intro keeps_rules in_w_steps takings_keepD(1) [OF takings])
    (auto split: option.split intro!: keeps_rules check process)

lemma drain_round_steps: "keeps R (drain_round T P)"
  unfolding drain_round_def
  by (intro keeps_rules in_w_steps takings_keepD(2) [OF takings])
    (auto split: option.split intro!: keeps_rules process)

lemma supervised_round_steps: "keeps R (supervised_round T P)"
  unfolding supervised_round_def handle_supervised_message_def unwrap_def
  by (intro keeps_rules check)
    (auto split: option.split supervised_event.split supervisor_message.split
      intro!: keeps_rules in_w_steps takings_keepD(4) [OF takings] process)

lemma close_steps: "R E (set_world (mpsc_close T (mailbox (ectx E))) E)"
  unfolding set_world_def by (rule step) (rule keeps_modifyD [OF takings_keepD(3) [OF takings]])

lemma stopping_round_steps: "keeps (on_fst R) (stopping_round T P)"
proof -
  have s: "R E (E\<lparr>world := w\<rparr>)" if "select_stopping T mb 1 (world E) = Some (ev, w)" for E mb ev w
    by (rule step) (rule keeps_awaitD [OF takings_keepD(5) [OF takings] that])
  have p: "process_message T P msg E = Some (Done r, F) \<Longrightarrow> R E F" for msg E r F
    using process by (auto simp: keeps_def)
  have c: "R E F \<Longrightarrow> R E (F\<lparr>world := mpsc_close T (mailbox (ectx F)) (world F)\<rparr>)" for E F
    using trans [OF _ close_steps] by (simp add: set_world_def)
  show ?thesis
    unfolding stopping_round_def
    by (auto simp: keeps_def on_fst_def io_simps
        intro: s trans [OF s p] c [OF s, simplified] c [OF trans [OF s p]]
        split: option.splits prod.splits res.splits stopping_event.splits if_splits)
qed

end

sublocale executor_steps \<subseteq> executor_rounds
  by unfold_locales
    (simp_all add: run_round_steps drain_round_steps supervised_round_steps stopping_round_steps
      close_steps [unfolded set_world_def] set_world_def step notified)

section \<open>Answers\<close>

text \<open>
  An observer of the answers: \<open>given w\<close> lists what was sent through the senders that came with the requests of the
  mailbox; they are the actor's own, so that nobody else answers through them. A send through one of them is seen, and
  no other operation of the runtime is an answer.
\<close>

definition same_answers :: "('w \<Rightarrow> (handle \<times> 'm) list) \<Rightarrow> 'w \<Rightarrow> 'w \<Rightarrow> bool" where
  "same_answers given w w' \<longleftrightarrow> given w' = given w"

interpretation same_answers: frame_rel "same_answers given" for given
  by unfold_locales (simp_all add: same_answers_def)

definition answer_runtime :: "('a, 'm, 'w) tokio \<Rightarrow> ('w \<Rightarrow> (handle \<times> 'm) list) \<Rightarrow> bool" where
  "answer_runtime T given \<longleftrightarrow>
     (\<forall>h m w r w'. oneshot_send T h m w = (r, w') \<longrightarrow> given w' = given w @ [(h, m)]) \<and>
     (\<forall>h a. keeps (same_answers given) (call (oneshot_send_actor T h a))) \<and>
     (\<forall>h w. given (oneshot_drop_tx T h w) = given w) \<and> (\<forall>h w. given (watch_drop_rx T h w) = given w) \<and>
     (\<forall>h v w. given (watch_send T h v w) = given w) \<and> (\<forall>h w. given (permit_drop T h w) = given w) \<and>
     (\<forall>h. keeps (same_answers given) (call (watch_subscribe T h))) \<and>
     (\<forall>h. keeps (same_answers given) (call (watch_borrow_and_update T h))) \<and>
     (\<forall>h n. keeps (same_answers given) (await (sem_acquire_many T h n))) \<and>
     (\<forall>h b. keeps (same_answers given) (await (mpsc_send T h b))) \<and> takings_keep T (same_answers given)"

lemma answer_runtimeD:
  assumes "answer_runtime T given"
  shows "oneshot_send T h m w = (r, w') \<Longrightarrow> given w' = given w @ [(h, m)]"
    and "keeps (same_answers given) (call (oneshot_send_actor T h a))"
    and "given (oneshot_drop_tx T h w) = given w" "given (watch_drop_rx T h w) = given w"
    and "given (watch_send T h v w) = given w" "given (permit_drop T h w) = given w"
    and "keeps (same_answers given) (call (watch_subscribe T h))"
    and "keeps (same_answers given) (call (watch_borrow_and_update T h))"
    and "keeps (same_answers given) (await (sem_acquire_many T h n))"
    and "keeps (same_answers given) (await (mpsc_send T h b))" "takings_keep T (same_answers given)"
  using assms unfolding answer_runtime_def by (simp_all del: split_paired_All)

definition answer_host :: "('a, 'm, 'w) tokio \<Rightarrow> ('w \<Rightarrow> (handle \<times> 'm) list) \<Rightarrow> bool" where
  "answer_host T given \<longleftrightarrow> blocking_runs T \<and> answer_runtime T given"

lemma answer_hostD:
  "answer_host T given \<Longrightarrow> blocking_runs T" "answer_host T given \<Longrightarrow> answer_runtime T given"
  by (simp_all add: answer_host_def)

lemma acquire_many_answers:
  "sem_acquire_many T h n w = Some (r, w') \<Longrightarrow> answer_host T given \<Longrightarrow> given w' = given w"
  using keeps_awaitD [OF answer_runtimeD(9) [OF answer_hostD(2)]] by (auto simp: same_answers_def)

lemma send_actor_answers:
  "oneshot_send_actor T h a w = (r, w') \<Longrightarrow> answer_host T given \<Longrightarrow> given w' = given w"
  using keeps_callD [OF answer_runtimeD(2) [OF answer_hostD(2)]] by (auto simp: same_answers_def)

definition answers_env ::
  "('w \<Rightarrow> (handle \<times> 'm) list) \<Rightarrow> ('a \<Rightarrow> 'a \<Rightarrow> bool) \<Rightarrow> ('a, 'w) env \<Rightarrow> ('a, 'w) env \<Rightarrow> bool" where
  "answers_env given R e e' \<longleftrightarrow> R (fst e) (fst e') \<and> given (snd (snd e')) = given (snd (snd e))"

text \<open>
  What a message does to the struct and to the answers: an \<open>Ask\<close> is answered through its sender; an \<open>AsyncAsk\<close> too,
  if its future was not cancelled; other messages are not answered.
\<close>

fun box_answer ::
  "('m \<Rightarrow> 'a \<Rightarrow> 'a \<Rightarrow> bool) \<Rightarrow> ('m \<Rightarrow> 'a \<Rightarrow> 'm \<Rightarrow> 'a \<Rightarrow> bool) \<Rightarrow> ('m \<Rightarrow> 'a \<Rightarrow> 'm option \<Rightarrow> 'a \<Rightarrow> bool) \<Rightarrow>
   'm boxed \<Rightarrow> 'a \<times> (handle \<times> 'm) list \<Rightarrow> 'a \<times> (handle \<times> 'm) list \<Rightarrow> bool" where
  "box_answer us ua uy (BoxConfidential e) p q \<longleftrightarrow> q = p"
| "box_answer us ua uy (BoxEnvelope e) p q \<longleftrightarrow>
     (\<exists>m. env_msg e = Some m \<and> us m (fst p) (fst q) \<and> snd q = snd p)"
| "box_answer us ua uy (BoxResponse r) p q \<longleftrightarrow>
     (\<exists>m tx v. env_msg (resp_msg r) = Some m \<and> resp_tx r = Some tx \<and> ua m (fst p) v (fst q) \<and> snd q = snd p @ [(tx, v)])"
| "box_answer us ua uy (BoxAsyncResponse r) p q \<longleftrightarrow>
     (\<exists>m tx reply. env_msg (async_msg r) = Some m \<and> async_tx r = Some tx \<and> uy m (fst p) reply (fst q) \<and>
        snd q = snd p @ (case reply of Some v \<Rightarrow> [(tx, v)] | None \<Rightarrow> []))"

locale answering =
  fixes T :: "('a, 'm, 'w) tokio" and P :: "('a, 'm, 'w) actor_ops" and given :: "'w \<Rightarrow> (handle \<times> 'm) list"
    and us :: "'m \<Rightarrow> 'a \<Rightarrow> 'a \<Rightarrow> bool" and ua :: "'m \<Rightarrow> 'a \<Rightarrow> 'm \<Rightarrow> 'a \<Rightarrow> bool"
    and uy :: "'m \<Rightarrow> 'a \<Rightarrow> 'm option \<Rightarrow> 'a \<Rightarrow> bool"
  assumes hooks: "hook \<in> {on_start P, pre_run P, post_run P, on_stopping P, on_stopped P, on_end P} \<Longrightarrow>
      keeps (answers_env given (\<lambda>a a'. a' = a)) hook"
    and sends: "keeps (answers_env given (us m)) (handle_send P m)"
    and asks: "handle_ask P m e = Some (Done res, e') \<Longrightarrow>
      \<exists>v. res = Reply v \<and> answers_env given (\<lambda>a. ua m a v) e e'"
    and async_asks: "io_bind (handle_async_ask P m) (\<lambda>fut. in_actor (select_answer T rx fut)) e = Some (Done reply, e') \<Longrightarrow>
      answers_env given (\<lambda>a. uy m a reply) e e'"
    and scheduled: "scheduler_async_ask P m = NonBlocking"
begin

lemma private_answers:
  assumes runtime: "answer_runtime T given"
  shows "keeps (answers_env given (\<lambda>a a'. a' = a)) (private_handler T m)"
proof (cases m)
  case (InternalShutdown s)
  then show ?thesis
    by (auto simp: keeps_def answers_env_def shutdown_handler_def io_simps subscribe_and_stop_def subscribe_and_wait_def
        set_into_future_sender_def answer_runtimeD [OF runtime] split: option.splits if_splits)
next
  case (InternalAnonymous c)
  then show ?thesis by (cases c) (simp_all add: keeps_def answers_env_def ret_run)
qed

lemma internal_send_answers:
  assumes runtime: "answer_runtime T given"
  shows "internal_send_async T r m w = Some (Done x, w') \<Longrightarrow> given w' = given w"
  using keepsD [OF answer_runtimeD(10) [OF runtime], of "ref_address r" "BoxConfidential (confidential_new m)" w]
  by (auto simp: internal_send_async_def io_simps same_answers_def envelope_unwrap_def
      split: option.splits res.splits sum.splits prod.splits)

text \<open>The block of an answer, from the handler that made its future to its end.\<close>

lemma answer_block_answers:
  assumes runtime: "answer_runtime T given" and run: "answer_block T af (a, w) = Some (Done u, (a', w'))"
  obtains reply w1 where "select_answer T (af_rx af) (af_future af) (a, w) = Some (Done reply, (a', w1))"
    "given w' = given w1 @ (case reply of Some v \<Rightarrow> [(af_tx af, v)] | None \<Rightarrow> [])"
proof -
  from run obtain reply s where s: "select_answer T (af_rx af) (af_future af) (a, w) = Some (Done reply, s)"
    and b: "on_world (case reply of
         None \<Rightarrow>
           io_bind (internal_send_async T (af_supervisor af) (InternalAnonymous CancelCancel))
             (\<lambda>_. modify (oneshot_drop_tx T (af_tx af) \<circ> watch_drop_rx T (af_rx af)))
       | Some response \<Rightarrow>
           io_bind (call (oneshot_send T (af_tx af) response))
             (\<lambda>_. modify (watch_drop_rx T (af_rx af)))) s = Some (Done u, (a', w'))"
    unfolding answer_block_def by (rule io_bind_DoneE)
  obtain a1 w1 where s1: "s = (a1, w1)" by (cases s)
  have "a1 = a' \<and> given w' = given w1 @ (case reply of Some v \<Rightarrow> [(af_tx af, v)] | None \<Rightarrow> [])"
    using b internal_send_answers [OF runtime] unfolding s1
    by (cases reply)
      (auto simp: io_simps answer_runtimeD(3,4) [OF runtime] dest: answer_runtimeD(1) [OF runtime]
        split: option.splits res.splits prod.splits)
  with s s1 that show thesis by auto
qed

definition answer_step :: "'m boxed \<Rightarrow> ('a, 'w) env \<Rightarrow> ('a, 'w) env \<Rightarrow> bool" where
  "answer_step b e e' \<longleftrightarrow> box_answer us ua uy b (fst e, given (snd (snd e))) (fst e', given (snd (snd e')))"

lemma send_ready_answers:
  assumes "\<And>r. b \<noteq> BoxAsyncResponse r" "send_message T P b e = Some (Done res, e')"
    and runtime: "answer_runtime T given"
  shows "resolve_fut res = None \<and> answer_step b e e'"
proof (cases b)
  case (BoxConfidential c)
  then obtain m u v where "private_handler T m e = Some (Done v, e')" "res = resolve_ready"
    using assms(2)
    by (auto simp: deliver_confidential_def confidential_unwrap_def io_simps split: option.splits res.splits)
  with keepsD [OF private_answers [OF runtime] this(1)] BoxConfidential show ?thesis
    by (cases e; cases e') (simp add: answers_env_def answer_step_def resolve_ready_def)
next
  case (BoxEnvelope c)
  then obtain m v where "env_msg c = Some m" "handle_send P m e = Some (Done v, e')" "res = resolve_ready"
    using assms(2) by (auto simp: deliver_envelope_def envelope_unwrap_def io_simps split: option.splits res.splits)
  with keepsD [OF sends this(2)] BoxEnvelope show ?thesis
    by (simp add: answers_env_def answer_step_def resolve_ready_def)
next
  case (BoxResponse r)
  obtain ea ec ew where e: "e = (ea, ec, ew)" by (cases e)
  from BoxResponse obtain m tx a e1 u where m: "env_msg (resp_msg r) = Some m" "resp_tx r = Some tx"
    "handle_ask P m e = Some (Done a, e1)" "res = resolve_ready" and
    r: "(case a of
         Reply response \<Rightarrow> in_ctx (in_world (io_bind (call (oneshot_send T tx response)) (\<lambda>_. ret ())))
       | Task (AsyncHandle future) \<Rightarrow> io_bind (in_ctx (anonymous_task T (reply_block T future tx (ctx_address ec))))
           (\<lambda>_. ret ())) e1 = Some (Done u, e')"
    using assms(2)
    by (auto simp: e deliver_response_def envelope_unwrap_def unwrap_def io_bind_run io_seq_run gets_run ret_run
        panic_run split: option.splits res.splits)
  from asks [OF m(3)] obtain v where v: "a = Reply v" "answers_env given (\<lambda>a. ua m a v) e e1" by blast
  obtain x c w where e1: "e1 = (x, c, w)" by (cases e1)
  obtain s w' where s: "oneshot_send T tx v w = (s, w')" by force
  with r v(1) e1 have "e' = (x, c, w')" by (simp add: io_simps)
  with v(2) e1 m answer_runtimeD(1) [OF runtime s] BoxResponse show ?thesis
    by (auto simp: answers_env_def answer_step_def resolve_ready_def)
qed (use assms(1) in blast)

lemma async_answers:
  assumes runtime: "answer_runtime T given"
    and run: "io_bind (send_message T P (BoxAsyncResponse r)) (\<lambda>res. in_actor (resolve_await T res)) e = Some (Done u, e')"
  shows "answer_step (BoxAsyncResponse r) e e'"
proof -
  obtain a c w where e: "e = (a, c, w)" by (cases e)
  obtain rx w1 where s: "watch_subscribe T (notifier c) w = (rx, w1)" by force
  obtain k w2 where k: "watch_borrow_and_update T rx w1 = (k, w2)" by force
  from run s k obtain m tx fut e2 where m: "env_msg (async_msg r) = Some m" "async_tx r = Some tx"
    "handle_async_ask P m (a, c, w2) = Some (Done fut, e2)"
    "in_actor (answer_block T \<lparr>af_rx = rx, af_supervisor = ctx_address c, af_tx = tx, af_future = fut\<rparr>) e2 = Some (Done u, e')"
    unfolding e
    by (auto simp: deliver_async_response_def envelope_unwrap_def unwrap_def io_bind_run io_seq_run gets_run ret_run
        panic_run in_ctx_run in_world_run call_run resolve_await_def resolve_future_def split: option.splits res.splits)
  obtain a2 c2 v2 where e2: "e2 = (a2, c2, v2)" by (cases e2)
  from m(4) e2 obtain a3 w3 where e': "e' = (a3, c2, w3)"
    and b: "answer_block T \<lparr>af_rx = rx, af_supervisor = ctx_address c, af_tx = tx, af_future = fut\<rparr> (a2, v2) = Some (Done u, (a3, w3))"
    by (auto simp: in_actor_run split: option.splits prod.splits)
  from runtime b obtain reply v3 where f: "select_answer T rx fut (a2, v2) = Some (Done reply, (a3, v3))"
    and g: "given w3 = given v3 @ (case reply of Some v \<Rightarrow> [(tx, v)] | None \<Rightarrow> [])"
    by (rule answer_block_answers) (auto split: option.splits)
  have "io_bind (handle_async_ask P m) (\<lambda>fut. in_actor (select_answer T rx fut)) (a, c, w2) = Some (Done reply, (a3, c2, v3))"
    using m(3) f e2 by (simp add: io_bind_run in_actor_run)
  note h = async_asks [OF this]
  have "given w2 = given w"
    using keepsD [OF answer_runtimeD(7) [OF runtime], of "notifier c" w] keepsD [OF answer_runtimeD(8) [OF runtime], of rx w1] s k
    by (simp add: call_run same_answers_def)
  with h g m e e' show ?thesis
    by (auto simp: answers_env_def answer_step_def)
qed

lemma deliver_answers:
  assumes blocking: "blocking_runs T" and runtime: "answer_runtime T given" and deliver: "(case box_scheduler P b of Blocking \<Rightarrow> deliver_blocking T P b
      | NonBlocking \<Rightarrow> deliver_nonblocking T P b) E = Some (Done r, E')"
  shows "box_answer us ua uy b (actor E, given (world E)) (actor E', given (world E')) \<and> calls E' = calls E"
proof -
  obtain f where f: "\<And>res. resolve_fut res = None \<Longrightarrow> f res = ret ()"
    and run: "on_env (io_bind (send_message T P b) (\<lambda>res. in_actor (f res))) E = Some (Done (), E')"
    and async: "\<And>r. b = BoxAsyncResponse r \<Longrightarrow> f = resolve_await T"
  proof (cases "box_scheduler P b")
    case Blocking
    then have "b \<noteq> BoxAsyncResponse r" for r using scheduled by (auto split: option.splits)
    moreover have "on_env (io_bind (send_message T P b) (\<lambda>res. in_actor (resolve_drop T res))) E = Some (Done (), E')"
      using Blocking deliver by (intro deliver_blocking_runs [OF blocking]) simp
    ultimately show thesis by (intro that [of "resolve_drop T"]) (blast | simp add: resolve_drop_def)+
  next
    case NonBlocking
    with deliver show thesis
      by (intro that [of "resolve_await T"]) (auto simp: resolve_await_def deliver_nonblocking_def)
  qed
  from run obtain a c w where m: "io_bind (send_message T P b) (\<lambda>res. in_actor (f res)) (actor E, ectx E, world E) =
      Some (Done (), (a, c, w))" and E': "E' = E\<lparr>actor := a, ectx := c, world := w\<rparr>"
    by (rule on_env_SomeE)
  have "answer_step b (actor E, ectx E, world E) (a, c, w)"
  proof (cases "\<exists>r. b = BoxAsyncResponse r")
    case True
    with m async async_answers [OF runtime] show ?thesis by auto
  next
    case False
    from m obtain res e where s: "send_message T P b (actor E, ectx E, world E) = Some (Done res, e)"
      and i: "in_actor (f res) e = Some (Done (), (a, c, w))" by (rule io_bind_DoneE)
    note s' = send_ready_answers [OF _ s runtime]
    have "f res = ret ()" using f s' False by blast
    with i have "e = (a, c, w)" by (cases e) (simp add: in_actor_run ret_run)
    with s' False show ?thesis by blast
  qed
  with E' show ?thesis by (simp add: answer_step_def)
qed

text \<open>Every message and every hook of a run adds its part.\<close>

fun answer_effect :: "'m callback \<Rightarrow> 'a \<times> (handle \<times> 'm) list \<Rightarrow> 'a \<times> (handle \<times> 'm) list \<Rightarrow> bool" where
  "answer_effect (Recv b) p q \<longleftrightarrow> box_answer us ua uy b p q"
| "answer_effect OnStart p q \<longleftrightarrow> q = p"
| "answer_effect PreRun p q \<longleftrightarrow> q = p"
| "answer_effect PostRun p q \<longleftrightarrow> q = p"
| "answer_effect OnStopping p q \<longleftrightarrow> q = p"
| "answer_effect OnStopped p q \<longleftrightarrow> q = p"
| "answer_effect OnEnd p q \<longleftrightarrow> q = p"

definition answers :: "('a, 'm, 'w) executor \<Rightarrow> ('a, 'm, 'w) executor \<Rightarrow> bool" where
  "answers E E' \<longleftrightarrow> answer_host T given \<longrightarrow> (\<exists>log. calls E' = calls E @ log \<and>
     chain answer_effect (map fst log) (actor E, given (world E)) (actor E', given (world E')))"

lemma answers_refl: "answers E E"
  by (simp add: answers_def)

lemma answers_trans [trans]: "answers E F \<Longrightarrow> answers F G \<Longrightarrow> answers E G"
  by (fastforce simp: answers_def chain_append)

lemma answers_same:
  "calls E' = calls E \<Longrightarrow> actor E' = actor E \<Longrightarrow> (answer_host T given \<Longrightarrow> given (world E') = given (world E)) \<Longrightarrow> answers E E'"
  by (simp add: answers_def)

lemma callback_answers:
  assumes "h \<in> {on_start P, pre_run P, post_run P, on_stopping P, on_stopped P, on_end P}" "\<And>b. cb \<noteq> Recv b"
    and "callback cb h E = Some (Done r, E')"
  shows "answers E E'"
proof -
  from assms(3) obtain a c w where h: "h (actor E, ectx E, world E) = Some (Done r, (a, c, w))"
    and E': "E' = E\<lparr>calls := calls E @ [(cb, state (ectx E))], actor := a, ectx := c, world := w\<rparr>"
    by (auto simp: callback_def log_call_def io_seq_run modify_run elim!: on_env_SomeE)
  have "a = actor E \<and> given w = given (world E)"
    using keepsD [OF hooks [OF assms(1)] h] by (simp add: answers_env_def)
  with E' assms(2) show ?thesis by (cases cb) (auto simp: answers_def)
qed

lemma process_message_answers: "keeps answers (process_message T P b)"
proof (rule keepsI)
  fix E r E'
  assume "process_message T P b E = Some (Done r, E')"
  then obtain E1 E2 E3 r1 r2 r3 r4 where
    1: "callback PreRun (pre_run P) E = Some (Done r1, E1)" and
    2: "log_call (Recv b) E1 = Some (Done r2, E2)" and
    3: "(case box_scheduler P b of Blocking \<Rightarrow> deliver_blocking T P b
          | NonBlocking \<Rightarrow> deliver_nonblocking T P b) E2 = Some (Done r3, E3)" and
    4: "callback PostRun (post_run P) E3 = Some (Done r4, E')"
    unfolding process_message_def by (elim io_seq_DoneE) (auto simp: gets_run)
  have "answers E E1" by (rule callback_answers [OF _ _ 1]) simp_all
  also have "answers E1 E3"
    using 2 deliver_answers [OF _ _ 3] by (auto simp: answers_def answer_host_def log_call_def io_simps)
  also have "answers E3 E'" by (rule callback_answers [OF _ _ 4]) simp_all
  finally show "answers E E'" .
qed

end

sublocale answering \<subseteq> answers: frame_rel answers
  by unfold_locales (rule answers_refl, rule answers_trans)

context answering
begin

lemma check_answers: "keeps answers (check_anonymous_actors T P)"
proof -
  have "keeps answers (set_overflow n)" for n
    by (auto simp: keeps_def set_overflow_def modify_run answers_same)
  moreover have "keeps answers (acquire_and_drop T sem n)" for sem n
    by (auto simp: keeps_def acquire_and_drop_def in_w_run io_simps answer_runtimeD(6) [OF answer_hostD(2)]
        intro!: answers_same dest: acquire_many_answers split: option.splits sum.splits res.splits prod.splits)
  ultimately show ?thesis
    unfolding check_anonymous_actors_def usize_sub_def
    by (intro answers.keeps_rules allI conjI impI answers.keeps_bind | simp split: if_splits)+
qed

end

sublocale answering \<subseteq> steps: executor_steps answers T P "\<lambda>w w'. answer_host T given \<longrightarrow> given w' = given w"
proof unfold_locales
  show "keeps answers (process_message T P msg)" for msg by (rule process_message_answers)
  show "keeps answers (check_anonymous_actors T P)" by (rule check_answers)
  show "answers E (E\<lparr>world := w\<rparr>)" if "answer_host T given \<longrightarrow> given w = given (world E)" for E w
    using that by (simp add: answers_same)
  show "takings_keep T (\<lambda>w w'. answer_host T given \<longrightarrow> given w' = given w)"
    using answer_runtimeD(11) [of T given]
    by (auto simp: answer_host_def takings_keep_def keeps_def same_answers_def)
  show "answer_host T given \<longrightarrow> given (watch_send T h v w) = given w" for w h v
    by (simp add: answer_host_def answer_runtimeD(5))
qed

context answering
begin

lemma shutdown_answers:
  assumes "shutdown T P E = Some (Done r, E')"
  shows "answers E E'"
proof -
  from assms obtain E1 E2 E3 E4 E5 E6 r1 r2 r3 r4 r5 r6 where
    1: "set_state Stopping E = Some (Done r1, E1)" and
    2: "callback OnStopping (on_stopping P) E1 = Some (Done r2, E2)" and
    3: "stopping T P E2 = Some (Done r3, E3)" and
    4: "set_state Stopped E3 = Some (Done r4, E4)" and
    5: "callback OnStopped (on_stopped P) E4 = Some (Done r5, E5)" and
    6: "executor_stop T P E5 = Some (Done r6, E6)" and
    7: "callback OnEnd (on_end P) E6 = Some (Done r, E')"
    by (rule shutdown_DoneE)
  have "answers E E1" using 1 by (auto simp: set_state_run intro: answers_same)
  also have "answers E1 E2" by (rule callback_answers [OF _ _ 2]) simp_all
  also have "answers E2 E3" by (rule keepsD [OF steps.stopping_keeps 3])
  also have "answers E3 E4" using 4 by (auto simp: set_state_run intro: answers_same)
  also have "answers E4 E5" by (rule callback_answers [OF _ _ 5]) simp_all
  also have "answers E5 E6" by (rule keepsD [OF steps.stop_keeps 6])
  also have "answers E6 E'" by (rule callback_answers [OF _ _ 7]) simp_all
  finally show ?thesis .
qed

lemma run_actor_answers_all:
  assumes "run_actor T P E = Some (Done r, E')"
  shows "answers E E'"
proof -
  from assms obtain E1 E2 E3 r1 r2 r3 where
    1: "callback OnStart (on_start P) E = Some (Done r1, E1)" and
    2: "io_loop (run_round T P) E1 = Some (Done r2, E2)" and
    3: "shutdown T P E2 = Some (Done r3, E3)" and
    4: "answer_awaiter T E3 = Some (Done r, E')"
    by (rule run_actor_DoneE)
  have "answers E E1" by (rule callback_answers [OF _ _ 1]) simp_all
  also have "answers E1 E2" by (rule keepsD [OF steps.run_loop_keeps 2])
  also have "answers E2 E3" by (rule shutdown_answers [OF 3])
  also have "answers E3 E'"
  proof (cases "into_future_sender (ectx E3)")
    case None
    with 4 show ?thesis by (auto simp: answer_awaiter_def io_simps intro!: answers_same)
  next
    case (Some s)
    obtain x w where o: "oneshot_send_actor T (into_inner s) (actor E3) (world E3) = (x, w)" by force
    with 4 Some show ?thesis
      by (auto simp: answer_awaiter_def io_simps send_actor_answers [OF o] intro!: answers_same)
  qed
  finally show ?thesis .
qed

lemma run_supervised_actor_answers_all:
  assumes "run_supervised_actor T P E = Some (Done r, E')"
  shows "answers E E'"
proof -
  from assms obtain E1 E2 r1 r2 where
    1: "callback OnStart (on_start P) E = Some (Done r1, E1)" and
    2: "io_loop (supervised_round T P) E1 = Some (Done r2, E2)" and
    3: "shutdown T P E2 = Some (Done r, E')"
    by (rule run_supervised_DoneE)
  have "answers E E1" by (rule callback_answers [OF _ _ 1]) simp_all
  also have "answers E1 E2" by (rule keepsD [OF steps.supervised_loop_keeps 2])
  also have "answers E2 E'" by (rule shutdown_answers [OF 3])
  finally show ?thesis .
qed

lemma effect_messages:
  "chain answer_effect (map fst log) p q \<Longrightarrow> chain (box_answer us ua uy) (recvs log) p q"
  by (induction log arbitrary: p rule: recvs.induct) auto

lemma run_actor_answer_chain:
  assumes "answer_host T given" "run_actor T P (executor_new a c w) = Some (Done r, E)"
  shows "chain (box_answer us ua uy) (recvs (calls E)) (a, given w) (actor E, given (world E))"
  using run_actor_answers_all [OF assms(2)] assms(1) effect_messages by (auto simp: answers_def executor_new_def)

lemma run_supervised_answer_chain:
  assumes "answer_host T given" "run_supervised_actor T P (executor_child a c rx w) = Some (Done r, E)"
  shows "chain (box_answer us ua uy) (recvs (calls E)) (a, given w) (actor E, given (world E))"
  using run_supervised_actor_answers_all [OF assms(2)] assms(1) effect_messages
  by (auto simp: answers_def executor_child_def)

end

section \<open>What a finished actor has answered\<close>

text \<open>The answers to one message: none, or one through the sender that came with it.\<close>

fun answered_by :: "'m boxed \<Rightarrow> (handle \<times> 'm) list \<Rightarrow> bool" where
  "answered_by (BoxConfidential e) ans \<longleftrightarrow> ans = []"
| "answered_by (BoxEnvelope e) ans \<longleftrightarrow> ans = []"
| "answered_by (BoxResponse r) ans \<longleftrightarrow> (\<exists>tx v. resp_tx r = Some tx \<and> ans = [(tx, v)])"
| "answered_by (BoxAsyncResponse r) ans \<longleftrightarrow> (\<exists>tx. async_tx r = Some tx \<and> (ans = [] \<or> (\<exists>v. ans = [(tx, v)])))"

lemma box_answer_answered:
  assumes "box_answer us ua uy b p q"
  shows "\<exists>ans. answered_by b ans \<and> snd q = snd p @ ans"
  using assms by (cases b) (auto split: option.splits)

lemma chain_answered:
  "chain (box_answer us ua uy) bs p q \<Longrightarrow> \<exists>ans. list_all2 answered_by bs ans \<and> snd q = snd p @ concat ans"
proof (induction bs arbitrary: p)
  case (Cons b bs)
  then obtain x where x: "box_answer us ua uy b p x" "chain (box_answer us ua uy) bs x q" by auto
  from box_answer_answered [OF x(1)] Cons.IH [OF x(2)] obtain a as where
    "answered_by b a" "snd x = snd p @ a" "list_all2 answered_by bs as" "snd q = snd x @ concat as" by blast
  then show ?case by (intro exI [of _ "a # as"]) simp
qed simp

text \<open>C6: an actor that answers at once has answered, when it is finished, the messages its mailbox accepted, in the order
  they were accepted: each \<open>Ask\<close> exactly once, through the sender that came with it, with the reply of its handler for the
  struct that the messages before it have made; each \<open>AsyncAsk\<close> the same, or, if it was cancelled, not at all; and
  nothing else.\<close>

theorem run_actor_answers:
  assumes "answering T P given us ua uy" "answer_host T given" "mail_hyps T P (mailbox c) M"
    and "run_actor T P (executor_new a c w) = Some (Done (), E)"
  shows "let accepted = mail_pending M w @ drop (length (mail_sent M w)) (mail_sent M (world E)) in
    chain (box_answer us ua uy) accepted (a, given w) (actor E, given (world E)) \<and>
    (\<exists>ans. list_all2 answered_by accepted ans \<and> given (world E) = given w @ concat ans)"
proof -
  have "chain (box_answer us ua uy) (recvs (calls E)) (a, given w) (actor E, given (world E))"
    by (rule answering.run_actor_answer_chain [OF assms(1,2,4)])
  with chain_answered [OF this] show ?thesis
    using run_actor_mail [OF assms(3,4)] by simp
qed

section \<open>From the question to the reply\<close>

fun senders :: "'m boxed \<Rightarrow> handle set" where
  "senders (BoxConfidential e) = {}"
| "senders (BoxEnvelope e) = {}"
| "senders (BoxResponse r) = set_option (resp_tx r)"
| "senders (BoxAsyncResponse r) = set_option (async_tx r)"

text \<open>An answer comes from the handling of one message.\<close>

lemma answer_origin:
  assumes "chain (box_answer us ua uy) bs p q" "x \<in> set (snd q)" "x \<notin> set (snd p)"
  obtains before b after p1 q1 where "bs = before @ b # after" "chain (box_answer us ua uy) before p p1"
    "box_answer us ua uy b p1 q1" "x \<notin> set (snd p1)" "x \<in> set (snd q1)"
  using assms
proof (induction bs arbitrary: p thesis)
  case (Cons b bs)
  then obtain p1 where p1: "box_answer us ua uy b p p1" "chain (box_answer us ua uy) bs p1 q" by auto
  show ?case
  proof (cases "x \<in> set (snd p1)")
    case True
    with p1(1) Cons.prems(4) show ?thesis by (intro Cons.prems(1) [of "[]" b bs p p1]) simp_all
  next
    case False
    obtain before b' after p2 q2 where "bs = before @ b' # after" "chain (box_answer us ua uy) before p1 p2"
      "box_answer us ua uy b' p2 q2" "x \<notin> set (snd p2)" "x \<in> set (snd q2)"
      using Cons.IH [OF _ p1(2) Cons.prems(3) False] by blast
    with p1(1) show ?thesis by (cases p1) (intro Cons.prems(1) [of "b # before" b' after p2 q2]; auto)
  qed
qed simp

lemma new_answer:
  assumes "box_answer us ua uy b p q" "(tx, v) \<notin> set (snd p)" "(tx, v) \<in> set (snd q)"
  shows "tx \<in> senders b \<and> (\<forall>r m. b = BoxResponse r \<longrightarrow> env_msg (resp_msg r) = Some m \<longrightarrow> ua m (fst p) v (fst q))"
  using assms by (cases b) (auto split: option.splits)

text \<open>A caller that got an answer sent its question with a sender of its own, and received it through the other end.\<close>

lemma ask_answered:
  assumes "ask U r m s = Some (Done (Inr v), s')"
  obtains u where "oneshot_recv U (fst (oneshot_channel U s)) u = Some (Inr v, s')"
proof -
  from assms obtain tx u0 u where "oneshot_channel U s = (tx, u0)" "await_answer U tx u = Some (Done (Inr v), s')"
    by (auto simp: ask_def io_simps split: prod.splits option.splits res.splits sum.splits)
  with that show thesis
    by (auto simp: await_answer_def io_simps split: option.splits sum.splits)
qed

lemma async_ask_answered:
  assumes "async_ask U r m s = Some (Done (Inr v), s')"
  obtains u where "oneshot_recv U (fst (oneshot_channel U s)) u = Some (Inr v, s')"
proof -
  from assms obtain tx u0 u where "oneshot_channel U s = (tx, u0)" "await_answer U tx u = Some (Done (Inr v), s')"
    by (auto simp: async_ask_def io_simps split: prod.splits option.splits res.splits sum.splits)
  with that show thesis
    by (auto simp: await_answer_def io_simps split: option.splits sum.splits)
qed

text \<open>An answer through a sender that came with one question only is the answer to that question.\<close>

lemma answer_of_question:
  assumes "answering T P given us ua uy" "answer_host T given" "mail_hyps T P (mailbox c) M"
    and "run_actor T P (executor_new a c w) = Some (Done (), E)"
    and "msgs = mail_pending M w @ drop (length (mail_sent M w)) (mail_sent M (world E))"
    and "(tx, v) \<in> set (given (world E))" "\<And>x. (tx, x) \<notin> set (given w)"
    and "\<And>b. b \<in> set msgs \<Longrightarrow> tx \<in> senders b \<Longrightarrow> b = question"
  obtains before after p q where "msgs = before @ question # after"
    "chain (box_answer us ua uy) before (a, given w) p" "box_answer us ua uy question p q"
    "(tx, v) \<notin> set (snd p)" "(tx, v) \<in> set (snd q)"
proof -
  have "chain (box_answer us ua uy) msgs (a, given w) (actor E, given (world E))"
    using answering.run_actor_answer_chain [OF assms(1,2,4)] run_actor_mail [OF assms(3,4)] assms(5) by simp
  then obtain before b after p q where b: "msgs = before @ b # after"
    "chain (box_answer us ua uy) before (a, given w) p" "box_answer us ua uy b p q"
    "(tx, v) \<notin> set (snd p)" "(tx, v) \<in> set (snd q)"
    by (rule answer_origin [where x = "(tx, v)"]) (use assms(6,7) in auto)
  with new_answer [OF b(3-5)] assms(8) have "b = question" by simp
  with b that show thesis by blast
qed

text \<open>C5: what \<open>ask\<close> returns to a caller is the reply of the actor's handler to the caller's own question, given for the struct
  that the messages accepted before that question have made, in the order in which they were accepted.\<close>

theorem ask_gets_reply:
  assumes "answering T P given us ua uy" "answer_host T given" "mail_hyps T P (mailbox c) M"
    and "run_actor T P (executor_new a c w) = Some (Done (), E)"
    and "\<And>h u x u'. oneshot_recv U h u = Some (Inr x, u') \<Longrightarrow> (h, x) \<in> set (given u')"
    and "ask U r m s = Some (Done (Inr v), s')" "set (given s') \<subseteq> set (given (world E))"
    and "msgs = mail_pending M w @ drop (length (mail_sent M w)) (mail_sent M (world E))"
    and "question = BoxResponse (response_new (envelope_new m) (fst (oneshot_channel U s)))"
    and "\<And>x. (fst (oneshot_channel U s), x) \<notin> set (given w)"
    and "\<And>b. b \<in> set msgs \<Longrightarrow> fst (oneshot_channel U s) \<in> senders b \<Longrightarrow> b = question"
  shows "\<exists>before after a1 g1 a2. msgs = before @ question # after \<and>
    chain (box_answer us ua uy) before (a, given w) (a1, g1) \<and> ua m a1 v a2"
proof -
  obtain u where "oneshot_recv U (fst (oneshot_channel U s)) u = Some (Inr v, s')" using assms(6) by (rule ask_answered)
  then have "(fst (oneshot_channel U s), v) \<in> set (given (world E))" using assms(5,7) by blast
  from answer_of_question [OF assms(1-4,8) this assms(10,11)] obtain before after p q where
    b: "msgs = before @ question # after" "chain (box_answer us ua uy) before (a, given w) p" "box_answer us ua uy question p q"
    "(fst (oneshot_channel U s), v) \<notin> set (snd p)" "(fst (oneshot_channel U s), v) \<in> set (snd q)" .
  have "ua m (fst p) v (fst q)" using b(3-5) assms(9) by (auto simp: response_new_def envelope_new_def)
  with b(1,2) show ?thesis by (cases p) auto
qed

text \<open>The same of \<open>async_ask\<close>, whose reply is what the future of the handler has computed.\<close>

theorem async_ask_gets_reply:
  assumes "answering T P given us ua uy" "answer_host T given" "mail_hyps T P (mailbox c) M"
    and "run_actor T P (executor_new a c w) = Some (Done (), E)"
    and "\<And>h u x u'. oneshot_recv U h u = Some (Inr x, u') \<Longrightarrow> (h, x) \<in> set (given u')"
    and "async_ask U r m s = Some (Done (Inr v), s')" "set (given s') \<subseteq> set (given (world E))"
    and "msgs = mail_pending M w @ drop (length (mail_sent M w)) (mail_sent M (world E))"
    and "question = BoxAsyncResponse (async_response_new (envelope_new m) (fst (oneshot_channel U s)))"
    and "\<And>x. (fst (oneshot_channel U s), x) \<notin> set (given w)"
    and "\<And>b. b \<in> set msgs \<Longrightarrow> fst (oneshot_channel U s) \<in> senders b \<Longrightarrow> b = question"
  shows "\<exists>before after a1 g1 a2. msgs = before @ question # after \<and>
    chain (box_answer us ua uy) before (a, given w) (a1, g1) \<and> uy m a1 (Some v) a2"
proof -
  obtain u where "oneshot_recv U (fst (oneshot_channel U s)) u = Some (Inr v, s')" using assms(6) by (rule async_ask_answered)
  then have "(fst (oneshot_channel U s), v) \<in> set (given (world E))" using assms(5,7) by blast
  from answer_of_question [OF assms(1-4,8) this assms(10,11)] obtain before after p q where
    b: "msgs = before @ question # after" "chain (box_answer us ua uy) before (a, given w) p" "box_answer us ua uy question p q"
    "(fst (oneshot_channel U s), v) \<notin> set (snd p)" "(fst (oneshot_channel U s), v) \<in> set (snd q)" .
  have "uy m (fst p) (Some v) (fst q)" using b(3-5) assms(9) by (auto simp: async_response_new_def envelope_new_def split: option.splits)
  with b(1,2) show ?thesis by (cases p) auto
qed

end
