(* ===== verification/Examples.thy ===== *)
theory Examples
  imports Answers
begin

text \<open>
  The actors of \<open>examples/ping-pong.rs\<close> and \<open>examples/add.rs\<close> with their \<open>main\<close>s. They
  show how the traits of \<open>actor.rs\<close> are used, and their runs are instances of what is proved of all runs.
  A handler that is not implemented for a type of messages cannot be called; here it panics. Printing is left out.
\<close>

section \<open>Ping pong\<close>

type_synonym u8 = "8 word"

record ping_pong =
  counter :: u8

datatype msg = Ping | Pong

fun msg_next :: "msg \<Rightarrow> msg" where
  "msg_next Ping = Pong"
| "msg_next Pong = Ping"

definition ping_pong_handle :: "msg \<Rightarrow> (msg ask_result, (ping_pong, 'w) env) io" where
  "ping_pong_handle message =
     io_bind (read_self counter) (\<lambda>n.
     io_bind (checked_add n 1) (\<lambda>k.
     io_bind (update_self (\<lambda>self. self\<lparr>counter := k\<rparr>)) (\<lambda>_.
     ret (Reply (msg_next message)))))"

definition ping_pong_ops :: "(ping_pong, msg, 'w) actor_ops" where
  "ping_pong_ops = with_handlers (default_actor ''PingPong'') (\<lambda>_. panic) ping_pong_handle (\<lambda>_. panic)"

fun ask_times :: "('a, msg, 'w) tokio \<Rightarrow> actor_ref \<Rightarrow> nat \<Rightarrow> msg \<Rightarrow> (msg, 'w) io" where
  "ask_times T handle 0 message = ret message"
| "ask_times T handle (Suc n) message =
     io_bind (ask T handle message) (\<lambda>res. io_bind (unwrap_result res) (ask_times T handle n))"

definition ping_pong_main :: "(ping_pong, msg, 'w) tokio \<Rightarrow> (unit, 'w) io" where
  "ping_pong_main T =
     io_bind (start T (ping_pong_ops :: (ping_pong, msg, 'w) actor_ops) \<lparr> counter = 0 \<rparr>) (\<lambda>handle.
     io_bind (ask_times T handle 10 Ping) (\<lambda>_.
     io_bind (into_future T handle) (\<lambda>res.
     io_bind (unwrap_result res) (\<lambda>actor.
     io_assert (counter actor = 10)))))"

text \<open>What the handlers do to the struct.\<close>

definition counts :: "msg \<Rightarrow> ping_pong \<Rightarrow> ping_pong \<Rightarrow> bool" where
  "counts m a a' \<longleftrightarrow> unat (counter a') = unat (counter a) + 1"

interpretation ping_pong: struct_effects
  "ping_pong_ops :: (ping_pong, msg, 'w) actor_ops" "\<lambda>cb a a'. a' = a" "\<lambda>_ _ _. False" counts "\<lambda>_ _ _. False"
  unfolding ping_pong_ops_def
  by (rule default_struct_effects)
    (auto simp: keeps_struct_panic ping_pong_handle_def keeps_def io_simps env_struct_def counts_def
      unat_checked_add triple_panic split: if_splits)

lemma ping_pong_struct_only: "struct_only (ping_pong_handle m)"
  unfolding ping_pong_handle_def by (intro struct_only_rules)

lemma ping_pong_hyps:
  assumes "mail_host T mb M"
  shows "mail_hyps T (ping_pong_ops :: (ping_pong, msg, 'w) actor_ops) mb M"
  unfolding ping_pong_ops_def
  by (intro mail_host_hyps [OF assms] default_well_behaved default_mail_user triple_panic
      struct_only_well_behaved struct_only_mail ping_pong_struct_only struct_only_panic)

text \<open>The asks among the messages.\<close>

fun is_ask :: "'m boxed \<Rightarrow> bool" where
  "is_ask (BoxResponse r) = True"
| "is_ask (BoxConfidential e) = False"
| "is_ask (BoxEnvelope e) = False"
| "is_ask (BoxAsyncResponse r) = False"

lemma ping_pong_chain:
  "chain (box_effect (\<lambda>_ _ _. False) counts (\<lambda>_ _ _. False)) bs a a' \<Longrightarrow>
     unat (counter a') = unat (counter a) + length (filter is_ask bs)"
proof (induction bs arbitrary: a)
  case (Cons b bs)
  then show ?case by (cases b) (auto simp: counts_def split: option.splits)
qed simp

text \<open>Its answers: a ping for a pong, a pong for a ping, through the sender of the question.\<close>

interpretation ping_pong_answers: answering
  T "ping_pong_ops :: (ping_pong, msg, 'w) actor_ops" given
  "\<lambda>_ _ _. False" "\<lambda>m a v a'. v = msg_next m \<and> counts m a a'" "\<lambda>_ _ _ _. False" for T given
  unfolding ping_pong_ops_def
  by unfold_locales
    (auto simp: keeps_def ret_run panic_run answers_env_def ping_pong_handle_def io_simps counts_def unat_checked_add
      default_scheduler_def split: if_splits)

fun ping_ponged :: "msg boxed \<Rightarrow> (handle \<times> msg) list \<Rightarrow> bool" where
  "ping_ponged (BoxResponse r) ans \<longleftrightarrow>
     (\<exists>m tx. env_msg (resp_msg r) = Some m \<and> resp_tx r = Some tx \<and> ans = [(tx, msg_next m)])"
| "ping_ponged (BoxConfidential e) ans \<longleftrightarrow> ans = []"
| "ping_ponged (BoxEnvelope e) ans \<longleftrightarrow> ans = []"
| "ping_ponged (BoxAsyncResponse r) ans \<longleftrightarrow> ans = []"

lemma ping_ponged_chain:
  "chain (box_answer (\<lambda>_ _ _. False) (\<lambda>m a v a'. v = msg_next m \<and> counts m a a') (\<lambda>_ _ _ _. False)) bs p q \<Longrightarrow>
    \<exists>ans. list_all2 ping_ponged bs ans \<and> snd q = snd p @ concat ans"
proof (induction bs arbitrary: p)
  case (Cons b bs)
  then obtain x where x: "box_answer (\<lambda>_ _ _. False) (\<lambda>m a v a'. v = msg_next m \<and> counts m a a') (\<lambda>_ _ _ _. False) b p x"
    "\<exists>as. list_all2 ping_ponged bs as \<and> snd q = snd x @ concat as" by auto
  have "\<exists>a. ping_ponged b a \<and> snd x = snd p @ a" using x(1) by (cases b) auto
  then obtain a where "ping_ponged b a" "snd x = snd p @ a" by blast
  moreover obtain as where "list_all2 ping_ponged bs as" "snd q = snd x @ concat as" using x(2) by blast
  ultimately show ?case by (intro exI [of _ "a # as"]) simp
qed simp

lemma ping_pong_answered:
  assumes "answer_host T given" "run_actor T ping_pong_ops (executor_new a c w) = Some (Done (), E)"
  shows "\<exists>ans. list_all2 ping_ponged (recvs (calls E)) ans \<and> given (world E) = given w @ concat ans"
  using ping_ponged_chain [OF ping_pong_answers.run_actor_answer_chain [OF assms]] by simp

text \<open>The ping-pong actor counts: after any finished run its counter is the number of asks its mailbox
  accepted; a count beyond 255 would have been a panic.\<close>

theorem ping_pong_counts:
  assumes "mail_host T (mailbox c) M" "answers_run T" "mail_pending M w = mail_sent M w"
    and "run_actor T ping_pong_ops (executor_new \<lparr> counter = 0 \<rparr> c w) = Some (Done (), E)"
  shows "unat (counter (actor E)) = length (filter is_ask (mail_sent M (world E)))"
proof -
  have "chain ping_pong.effect (map fst (calls E)) \<lparr> counter = 0 \<rparr> (actor E)"
    using assms(1) by (intro ping_pong.run_actor_folds [OF _ assms(2,4)]) (simp add: mail_host_def)
  then have "chain (box_effect (\<lambda>_ _ _. False) counts (\<lambda>_ _ _. False)) (recvs (calls E)) \<lparr> counter = 0 \<rparr> (actor E)"
    by (rule ping_pong.effect_recvs [rotated]) simp
  from ping_pong_chain [OF this] show ?thesis
    by (simp add: run_actor_all_mail [OF ping_pong_hyps [OF assms(1)] assms(3,4)])
qed

section \<open>The counter of add.rs\<close>

text \<open>The message types \<open>Add\<close>, \<open>Sleep\<close> and \<open>Sum\<close>, and the results \<open>()\<close> and \<open>Counter\<close>.\<close>

record counter_actor =
  inner :: u32

datatype counter_msg = Add u32 | Sleep "64 word" | Sum | UnitReply | CounterReply counter_actor

definition add_inner :: "u32 \<Rightarrow> (unit, (counter_actor, 'w) env) io" where
  "add_inner n =
     io_bind (read_self inner) (\<lambda>m.
     io_bind (checked_add m n) (\<lambda>k.
     update_self (\<lambda>self. self\<lparr>inner := k\<rparr>)))"

fun counter_send :: "counter_msg \<Rightarrow> (unit, (counter_actor, 'w) env) io" where
  "counter_send (Add n) = add_inner n"
| "counter_send _ = panic"

fun counter_ask ::
  "(counter_actor, counter_msg, 'w) tokio \<Rightarrow> counter_msg \<Rightarrow> (counter_msg ask_result, (counter_actor, 'w) env) io" where
  "counter_ask T (Add n) = io_bind (add_inner n) (\<lambda>_. ret (Reply UnitReply))"
| "counter_ask T (Sleep time) =
     io_bind (in_ctx (anonymous_handle T (io_bind (await (sleep T (from_secs (unat time)))) (\<lambda>_. ret UnitReply))))
       (\<lambda>handle. ret (Task handle))"
| "counter_ask T Sum = io_bind (read_self inner) (\<lambda>m. ret (Reply (CounterReply \<lparr> inner = m \<rparr>)))"
| "counter_ask T _ = panic"

fun counter_async_ask ::
  "counter_msg \<Rightarrow> ((counter_msg, counter_actor \<times> 'w) io, (counter_actor, 'w) env) io" where
  "counter_async_ask (Add n) = io_bind (add_inner n) (\<lambda>_. ret (ret UnitReply))"
| "counter_async_ask _ = panic"

definition counter_ops ::
  "(counter_actor, counter_msg, 'w) tokio \<Rightarrow> (counter_actor, counter_msg, 'w) actor_ops" where
  "counter_ops T = with_handlers (default_actor ''Counter'') counter_send (counter_ask T) counter_async_ask"

definition counter_main :: "(counter_actor, counter_msg, 'w) tokio \<Rightarrow> (unit, 'w) io" where
  "counter_main T =
     io_bind (start T (counter_ops T) \<lparr> inner = 0 \<rparr>) (\<lambda>addr.
     io_bind (send_async T addr (Add 10)) (\<lambda>sent.
     io_bind (unwrap_result sent) (\<lambda>_.
     io_bind (ask T addr (Add 10)) (\<lambda>asked.
     io_bind (unwrap_result asked) (\<lambda>_.
     io_bind (async_ask T addr (Add 10)) (\<lambda>asked.
     io_bind (unwrap_result asked) (\<lambda>_.
     io_bind (ask T addr Sum) (\<lambda>asked.
     io_bind (unwrap_result asked) (\<lambda>counter.
     io_bind (ask T addr (Sleep 3)) (\<lambda>asked.
     io_bind (unwrap_result asked) (\<lambda>_. ret ())))))))))))"

text \<open>What a message adds.\<close>

definition adds :: "nat \<Rightarrow> counter_actor \<Rightarrow> counter_actor \<Rightarrow> bool" where
  "adds n a a' \<longleftrightarrow> unat (inner a') = unat (inner a) + n"

fun amount :: "counter_msg \<Rightarrow> nat" where
  "amount (Add n) = unat n"
| "amount (Sleep t) = 0"
| "amount Sum = 0"
| "amount UnitReply = 0"
| "amount (CounterReply c) = 0"

fun box_amount :: "counter_msg boxed \<Rightarrow> nat" where
  "box_amount (BoxConfidential e) = 0"
| "box_amount (BoxEnvelope e) = (case env_msg e of None \<Rightarrow> 0 | Some m \<Rightarrow> amount m)"
| "box_amount (BoxResponse r) = (case env_msg (resp_msg r) of None \<Rightarrow> 0 | Some m \<Rightarrow> amount m)"
| "box_amount (BoxAsyncResponse r) = (case env_msg (async_msg r) of None \<Rightarrow> 0 | Some m \<Rightarrow> amount m)"

lemma add_inner_run [io_simps]:
  "add_inner n (a, cw) =
    (if unat (inner a) + unat n < 2 ^ 32 then Some (Done (), (a\<lparr>inner := inner a + n\<rparr>, cw)) else Some (Panic, (a, cw)))"
  by (simp add: add_inner_def io_simps)

lemma add_inner_struct_only: "struct_only (add_inner n)"
  unfolding add_inner_def by (intro struct_only_rules)

lemma counter_send_effect: "keeps (env_struct (adds (amount m))) (counter_send m)"
  by (cases m) (auto simp: keeps_def env_struct_def adds_def io_simps unat_checked_add split: if_splits)

lemma counter_ask_effect: "keeps (env_struct (adds (amount m))) (counter_ask T m)"
  by (cases m)
    (auto simp: keeps_def env_struct_def adds_def io_simps unat_checked_add split: if_splits option.splits res.splits)

lemma counter_async_ask_effect: "keeps (env_struct (adds (amount m))) (counter_async_ask m)"
  by (cases m) (auto simp: keeps_def env_struct_def adds_def io_simps unat_checked_add split: if_splits)

lemma counter_async_ask_future:
  "triple (\<lambda>_. True) (counter_async_ask m) (\<lambda>fut _. fut = ret UnitReply)"
  by (cases m) (auto simp: triple_def io_simps split: if_splits)

interpretation counter: struct_effects
  "counter_ops T :: (counter_actor, counter_msg, 'w) actor_ops" "\<lambda>cb a a'. a' = a"
  "\<lambda>m. adds (amount m)" "\<lambda>m. adds (amount m)" "\<lambda>m. adds (amount m)" for T
  unfolding counter_ops_def
  by (intro default_struct_effects counter_send_effect counter_ask_effect counter_async_ask_effect
      triple_post [OF counter_async_ask_future]) (simp add: keeps_def ret_run same_struct_def)

lemma counter_well_behaved: "well_behaved_actor T (counter_ops T)"
  unfolding counter_ops_def
proof (rule default_well_behaved)
  fix m
  show "well_behaved T (counter_send m)"
    by (cases m) (simp_all add: struct_only_well_behaved add_inner_struct_only struct_only_panic)
  show "well_behaved T (counter_async_ask m)"
    by (cases m) (simp_all add: struct_only_well_behaved struct_only_rules add_inner_struct_only)
  show "well_behaved T (counter_ask T m)"
    by (cases m) (simp_all add: struct_only_well_behaved struct_only_rules add_inner_struct_only
        well_behaved_bind well_behaved_in_ctx api_anonymous_handle well_behaved_ret)
qed

lemma counter_mail_user: "mail_runtime T M \<Longrightarrow> mail_user (counter_ops T) M"
  unfolding counter_ops_def
proof (rule default_mail_user)
  fix m
  assume T: "mail_runtime T M"
  show "keeps (env_mail M) (counter_send m)"
    by (cases m) (simp_all add: struct_only_mail add_inner_struct_only struct_only_panic)
  show "keeps (env_mail M) (counter_async_ask m)"
    by (cases m) (simp_all add: struct_only_mail struct_only_rules add_inner_struct_only)
  show "keeps (env_mail M) (counter_ask T m)"
    by (cases m) (simp_all add: struct_only_mail struct_only_rules add_inner_struct_only
        mail_world.env.keeps_bind in_ctx_mail anonymous_handle_mail [OF T] mail_world.env.keeps_ret)
  show "triple (\<lambda>_. True) (counter_async_ask m) (\<lambda>fut _. keeps (pair_mail M) fut)"
    by (rule triple_post [OF counter_async_ask_future]) (simp add: mail_world.pair.keeps_ret)
qed

lemma counter_chain:
  "chain (box_effect (\<lambda>m. adds (amount m)) (\<lambda>m. adds (amount m)) (\<lambda>m. adds (amount m))) bs a a' \<Longrightarrow>
     unat (inner a') = unat (inner a) + sum_list (map box_amount bs)"
proof (induction bs arbitrary: a)
  case (Cons b bs)
  then show ?case by (cases b) (auto simp: adds_def split: option.splits)
qed simp

text \<open>C30: the counter of \<open>examples/add.rs\<close> ends with the exact sum of the amounts that were sent, asked and
  asked asynchronously and that its mailbox accepted: no message is lost or counted twice, the sum never
  wraps, and \<open>Sleep\<close> and \<open>Sum\<close> add nothing.\<close>

theorem counter_sum:
  assumes "mail_host T (mailbox c) M" "answers_run T" "mail_pending M w = mail_sent M w"
    and "run_actor T (counter_ops T) (executor_new \<lparr> inner = 0 \<rparr> c w) = Some (Done (), E)"
  shows "unat (inner (actor E)) = sum_list (map box_amount (mail_sent M (world E)))"
proof -
  have "chain counter.effect (map fst (calls E)) \<lparr> inner = 0 \<rparr> (actor E)"
    using assms(1) by (intro counter.run_actor_folds [OF _ assms(2,4)]) (simp add: mail_host_def)
  then have "chain (box_effect (\<lambda>m. adds (amount m)) (\<lambda>m. adds (amount m)) (\<lambda>m. adds (amount m)))
      (recvs (calls E)) \<lparr> inner = 0 \<rparr> (actor E)"
    by (rule counter.effect_recvs [rotated]) simp
  from counter_chain [OF this] show ?thesis
    using run_actor_all_mail [OF mail_host_hyps [OF assms(1) counter_well_behaved counter_mail_user] assms(3,4)]
      assms(1) by (simp add: mail_host_def)
qed

end
