(* ===== verification/Debug.thy ===== *)
theory Debug
  imports Defaults
begin

text \<open>
  The actor of the tests of \<open>context.rs\<close>, which records its own life cycle and messages, with its
  expectations and its tests. What it records is the log of the callbacks of the model (\<open>calls\<close>), so the tests
  are statements about that log.
\<close>

section \<open>The debuggable actor\<close>

datatype actor_lifecycle = LcStart | LcPreRun | LcPostRun | LcStopping | LcStopped | LcEnd

datatype test_result = TestOk usize | TestPanic | TestCancel

datatype test_message =
    Normal
  | SpawnChild usize "test_message option"
  | SpawnAnonymous "64 word" usize
  | SpawnAnonymousTask "64 word"
  | DespawnAnonymous usize
  | Despawn test_result
  | StopNow
  | AbortNow
  | PanicNow

datatype test_inner = ParentActor | ChildActor (child_inner: usize)

record debuggable =
  dbg_state :: "actor_lifecycle list"
  dbg_messages :: "test_message list"
  dbg_inner :: test_inner

definition debuggable_default :: "test_inner \<Rightarrow> debuggable" where
  "debuggable_default i = \<lparr> dbg_state = [], dbg_messages = [], dbg_inner = i \<rparr>"

definition push_state :: "actor_lifecycle \<Rightarrow> debuggable \<Rightarrow> debuggable" where
  "push_state s a = a\<lparr>dbg_state := dbg_state a @ [s]\<rparr>"

definition push_message :: "test_message \<Rightarrow> debuggable \<Rightarrow> debuggable" where
  "push_message m a = a\<lparr>dbg_messages := dbg_messages a @ [m]\<rparr>"

definition shift_state :: "(actor_lifecycle option, debuggable) io" where
  "shift_state = call (\<lambda>a. case dbg_state a of [] \<Rightarrow> (None, a) | s # r \<Rightarrow> (Some s, a\<lparr>dbg_state := r\<rparr>))"

definition shift_message :: "(test_message option, debuggable) io" where
  "shift_message =
     call (\<lambda>a. case dbg_messages a of [] \<Rightarrow> (None, a) | m # r \<Rightarrow> (Some m, a\<lparr>dbg_messages := r\<rparr>))"

definition expect_state :: "actor_lifecycle \<Rightarrow> (unit, debuggable) io" where
  "expect_state s = io_bind shift_state (\<lambda>x. io_assert (x = Some s))"

definition expect_message :: "test_message \<Rightarrow> (unit, debuggable) io" where
  "expect_message msg =
     io_seq (expect_state LcPreRun)
     (io_seq (io_bind shift_message (\<lambda>x. io_assert (x = Some msg)))
     (expect_state LcPostRun))"

definition expect_system_message :: "(unit, debuggable) io" where
  "expect_system_message = io_seq (expect_state LcPreRun) (expect_state LcPostRun)"

definition expect_start :: "(unit, debuggable) io" where
  "expect_start = expect_state LcStart"

definition expect_stopping :: "(unit, debuggable) io" where
  "expect_stopping = expect_state LcStopping"

definition expect_stopped :: "(unit, debuggable) io" where
  "expect_stopped = expect_state LcStopped"

definition expect_end :: "(unit, debuggable) io" where
  "expect_end = expect_state LcEnd"

definition expect_stopped_event_in_state :: "(unit, debuggable) io" where
  "expect_stopped_event_in_state =
     io_bind (gets dbg_state) (\<lambda>xs.
     if LcStopped \<in> set xs then modify (\<lambda>a. a\<lparr>dbg_state := remove1 LcStopped xs\<rparr>) else panic)"

definition expect_empty :: "(unit, debuggable) io" where
  "expect_empty =
     io_seq (io_bind shift_message (\<lambda>x. io_assert (x = None)))
     (io_bind shift_state (\<lambda>x. io_assert (x = None)))"

section \<open>Its handlers\<close>

datatype debug_message = Test test_message | DeadChild "debuggable dead_actor_result"

definition debug_actor :: "(debuggable, 'w) actor_impl" where
  "debug_actor = (default_actor ''DebuggableActor'')\<lparr>
     on_start := update_self (push_state LcStart), pre_run := update_self (push_state LcPreRun),
     post_run := update_self (push_state LcPostRun), on_stopping := update_self (push_state LcStopping),
     on_stopped := update_self (push_state LcStopped), on_end := update_self (push_state LcEnd) \<rparr>"

definition spawn_test_child ::
  "(debuggable, debug_message, 'w) tokio \<Rightarrow> usize \<Rightarrow> test_message option \<Rightarrow> (unit, 'w cworld) io" where
  "spawn_test_child T num opt =
     io_bind (spawn_child T (debug_actor :: (debuggable, 'w) actor_impl) (debuggable_default (ChildActor num)))
       (\<lambda>addr. case opt of
           Some msg \<Rightarrow> in_world (try_send T addr (Test msg))
         | None \<Rightarrow> ret ())"

definition test_handle ::
  "(debuggable, debug_message, 'w) tokio \<Rightarrow> test_message \<Rightarrow> (unit, (debuggable, 'w) env) io" where
  "test_handle T message =
     io_bind (update_self (push_message message)) (\<lambda>_.
     case message of
       Normal \<Rightarrow> ret ()
     | SpawnChild num opt \<Rightarrow> in_ctx (spawn_test_child T num opt)
     | SpawnAnonymous time num \<Rightarrow>
         in_ctx (io_bind (anonymous T (io_bind (await (sleep T (from_millis (unat time))))
           (\<lambda>_. ret (Test (DespawnAnonymous num))))) (\<lambda>_. ret ()))
     | SpawnAnonymousTask time \<Rightarrow>
         in_ctx (io_bind (anonymous_task T (await (sleep T (from_millis (unat time))))) (\<lambda>_. ret ()))
     | StopNow \<Rightarrow> in_ctx (modify (\<lambda>(c, w). (stop c, w)))
     | AbortNow \<Rightarrow> in_ctx (modify (abort T))
     | PanicNow \<Rightarrow> panic
     | _ \<Rightarrow> ret ())"

fun despawned :: "debuggable dead_actor_result \<Rightarrow> test_message" where
  "despawned (Inr a) = Despawn (TestOk (child_inner (dbg_inner (dead_actor a))))"
| "despawned (Inl (ChildPanic _)) = Despawn TestPanic"
| "despawned (Inl (ChildCancelled _)) = Despawn TestCancel"

definition dead_child_handle :: "debuggable dead_actor_result \<Rightarrow> (unit, (debuggable, 'w) env) io" where
  "dead_child_handle message = update_self (push_message (despawned message))"

fun debug_handle ::
  "(debuggable, debug_message, 'w) tokio \<Rightarrow> debug_message \<Rightarrow> (unit, (debuggable, 'w) env) io" where
  "debug_handle T (Test m) = test_handle T m"
| "debug_handle T (DeadChild d) = dead_child_handle d"

definition debug_ops ::
  "(debuggable, debug_message, 'w) tokio \<Rightarrow> (debuggable, debug_message, 'w) actor_ops" where
  "debug_ops T = with_handlers debug_actor (debug_handle T) (\<lambda>_. panic) (\<lambda>_. panic)"

section \<open>What it records\<close>

fun lifecycle :: "debug_message callback \<Rightarrow> actor_lifecycle list" where
  "lifecycle (Recv b) = []"
| "lifecycle OnStart = [LcStart]"
| "lifecycle PreRun = [LcPreRun]"
| "lifecycle PostRun = [LcPostRun]"
| "lifecycle OnStopping = [LcStopping]"
| "lifecycle OnStopped = [LcStopped]"
| "lifecycle OnEnd = [LcEnd]"

fun noted :: "debug_message \<Rightarrow> test_message" where
  "noted (Test m) = m"
| "noted (DeadChild d) = despawned d"

fun box_noted :: "debug_message boxed \<Rightarrow> test_message list" where
  "box_noted (BoxEnvelope (Envelope (Some m))) = [noted m]"
| "box_noted _ = []"

fun callback_noted :: "debug_message callback \<Rightarrow> test_message list" where
  "callback_noted (Recv b) = box_noted b"
| "callback_noted _ = []"

definition records :: "debug_message callback \<Rightarrow> debuggable \<Rightarrow> debuggable \<Rightarrow> bool" where
  "records cb a a' \<longleftrightarrow>
     dbg_state a' = dbg_state a @ lifecycle cb \<and> dbg_messages a' = dbg_messages a @ callback_noted cb \<and>
     dbg_inner a' = dbg_inner a"

definition notes_msg :: "debug_message \<Rightarrow> debuggable \<Rightarrow> debuggable \<Rightarrow> bool" where
  "notes_msg m a a' \<longleftrightarrow> records (Recv (BoxEnvelope (Envelope (Some m)))) a a'"

lemma keeps_update: "(\<And>a. R a (f a)) \<Longrightarrow> keeps (env_struct R) (update_self f)"
  by (auto simp: keeps_def env_struct_def update_self_run)

lemma debug_handle_effect: "keeps (env_struct (notes_msg m)) (debug_handle T m)"
proof (cases m)
  case (Test t)
  then show ?thesis
    by (cases t) (auto simp: test_handle_def keeps_def env_struct_def notes_msg_def records_def push_message_def
        io_simps split: option.splits)
next
  case (DeadChild d)
  then show ?thesis
    by (auto simp: dead_child_handle_def notes_msg_def records_def push_message_def intro: keeps_update)
qed

interpretation debug: struct_effects "debug_ops T" records notes_msg "\<lambda>_ _ _. False" "\<lambda>_ _ _. False" for T
  by unfold_locales
    (auto simp: debug_ops_def debug_actor_def records_def push_state_def keeps_struct_panic triple_panic
      intro: keeps_update debug_handle_effect)

lemma debug_effect_records:
  assumes "debug.effect cb a a'"
  shows "records cb a a'"
proof (cases cb)
  case (Recv b)
  with assms show ?thesis
    by (cases b rule: box_noted.cases) (auto simp: records_def notes_msg_def split: option.splits)
qed (use assms in simp_all)

lemma debug_chain:
  "chain debug.effect cbs a a' \<Longrightarrow>
     dbg_state a' = dbg_state a @ concat (map lifecycle cbs) \<and>
     dbg_messages a' = dbg_messages a @ concat (map callback_noted cbs) \<and> dbg_inner a' = dbg_inner a"
proof (induction cbs arbitrary: a)
  case (Cons cb cbs)
  then obtain x where "debug.effect cb a x" "chain debug.effect cbs x a'" by auto
  with Cons.IH show ?case using debug_effect_records by (fastforce simp: records_def)
qed simp

lemma callback_noted_recvs: "concat (map callback_noted (map fst log)) = concat (map box_noted (recvs log))"
  by (induction log rule: recvs.induct) simp_all

lemma debug_handle_well_behaved: "well_behaved T (debug_handle T m)"
proof (cases m)
  case (Test t)
  have "well_behaved T (in_ctx (modify (\<lambda>(c, w). (stop c, w))))"
    by (rule well_behaved_in_ctx) (auto simp: modify_run api_stop)
  moreover have "well_behaved T (in_ctx (modify (abort T)))"
    by (rule well_behaved_in_ctx) (auto simp: modify_run api_abort)
  moreover have "well_behaved T (in_ctx (spawn_test_child T num opt))" for num opt
  proof (rule well_behaved_in_ctx_star)
    fix cw x cw'
    assume run: "spawn_test_child T num opt cw = Some (x, cw')"
    then obtain y c1 w1 where s: "spawn_child T (debug_actor :: (debuggable, 'a) actor_impl)
        (debuggable_default (ChildActor num)) cw = Some (y, (c1, w1))"
      by (auto simp: spawn_test_child_def io_bind_run split: option.splits)
    have "(ctx_api T)\<^sup>*\<^sup>* cw (c1, w1)" by (rule spawn_child_api [OF s])
    moreover from run s have "fst cw' = c1"
      by (auto simp: spawn_test_child_def io_simps split: option.splits res.splits)
    then have "ctx_api T (c1, w1) cw'" by (cases cw') (auto intro: api_world)
    ultimately show "(ctx_api T)\<^sup>*\<^sup>* cw cw'" by simp
  qed
  moreover have "well_behaved T (in_ctx (io_bind (anonymous T f) (\<lambda>_. ret ())))" for f
    by (rule well_behaved_in_ctx)
      (auto simp: io_simps split: option.splits res.splits intro: api_anonymous)
  moreover have "well_behaved T (in_ctx (io_bind (anonymous_task T f) (\<lambda>_. ret ())))" for f
    by (rule well_behaved_in_ctx)
      (auto simp: io_simps split: option.splits res.splits intro: api_anonymous_task)
  ultimately show ?thesis
    unfolding Test debug_handle.simps test_handle_def
    by (cases t)
      (simp_all add: well_behaved_bind struct_only_well_behaved struct_only_update struct_only_panic struct_only_ret)
qed (simp add: dead_child_handle_def struct_only_well_behaved struct_only_update)

lemma debug_well_behaved: "well_behaved_actor T (debug_ops T)"
  by (simp add: well_behaved_actor_def debug_ops_def debug_actor_def debug_handle_well_behaved
      struct_only_well_behaved struct_only_update well_behaved_panic)

lemma debug_handle_mail:
  assumes "mail_runtime T M" "mail_makes T M" "\<And>h w. mail_grows M w (mpsc_close T h w)"
  shows "keeps (env_mail M) (debug_handle T m)"
proof (cases m)
  case (Test t)
  have stop: "keeps (pair_mail M) (modify (\<lambda>(c, w). (stop c, w)))"
    by (rule mail_world.pair.keeps_modify) (auto simp: pair_mail_def mail.refl)
  have abort: "keeps (pair_mail M) (modify (abort T))"
    by (rule mail_world.pair.keeps_modify) (auto simp: pair_mail_def abort_def mail.refl assms(3) split: prod.split)
  have child: "keeps (pair_mail M) (spawn_test_child T num opt)" for num opt
    unfolding spawn_test_child_def try_send_def
    by (auto intro!: mail_world.pair.keeps_rules spawn_child_mail [OF assms(1,2)] in_world_mail mail.keeps_rules
        mail_makesD [OF assms(2)] split: option.split)
  show ?thesis
    unfolding Test debug_handle.simps test_handle_def
    by (cases t)
      (auto simp: struct_only_mail struct_only_update struct_only_panic struct_only_ret
        intro!: mail_world.env.keeps_bind in_ctx_mail stop abort child mail_world.pair.keeps_rules
          anonymous_mail anonymous_task_mail assms(1))
qed (simp add: dead_child_handle_def struct_only_mail struct_only_update)

lemma debug_mail_user:
  assumes "mail_runtime T M" "mail_makes T M" "\<And>h w. mail_grows M w (mpsc_close T h w)"
  shows "mail_user (debug_ops T) M"
  by (simp add: mail_user_def debug_ops_def debug_actor_def debug_handle_mail [OF assms] struct_only_mail
      struct_only_update triple_panic mail_world.env.keeps_panic)

text \<open>What the actor of the tests records of a finished run is the log of its callbacks, and the messages
  that its mailbox accepted, in order, with the deaths of its children among them.\<close>

theorem debug_records:
  assumes "mail_host T (mailbox c) M" "mail_makes T M" "\<And>h w. mail_grows M w (mpsc_close T h w)"
    and "answers_run T" "mail_pending M w = mail_sent M w"
    and "run_actor T (debug_ops T) (executor_new (debuggable_default i) c w) = Some (Done (), E)"
  shows "dbg_state (actor E) = concat (map lifecycle (map fst (calls E))) \<and>
    dbg_messages (actor E) = concat (map box_noted (mail_sent M (world E)))"
proof -
  have T: "blocking_runs T" "mail_runtime T M" using assms(1) by (simp_all add: mail_host_def)
  note H = debug_chain [OF debug.run_actor_folds [OF T(1) assms(4,6)]]
  have "recvs (calls E) = mail_sent M (world E)"
    by (rule run_actor_all_mail [OF mail_host_hyps [OF assms(1) debug_well_behaved debug_mail_user [OF T(2) assms(2,3)]] assms(5,6)])
  with H show ?thesis
    by (simp add: debuggable_default_def callback_noted_recvs del: map_map)
qed

section \<open>The tests\<close>

text \<open>\<open>accepts_log\<close>: a script of expectations passes on exactly the structs with these two deques.\<close>

definition accepts_log ::
  "(unit, debuggable) io \<Rightarrow> actor_lifecycle list \<Rightarrow> test_message list \<Rightarrow> bool" where
  "accepts_log script xs ms \<longleftrightarrow>
     (\<forall>a. (\<exists>t. script a = Some (Done (), t)) \<longleftrightarrow> dbg_state a = xs \<and> dbg_messages a = ms)"

lemma expect_state_run:
  "expect_state s a = (case dbg_state a of
      [] \<Rightarrow> Some (Panic, a)
    | x # r \<Rightarrow> Some (if x = s then Done () else Panic, a\<lparr>dbg_state := r\<rparr>))"
  by (simp add: expect_state_def shift_state_def io_simps split: list.split)

lemma accepts_state: "accepts_log rest xs ms \<Longrightarrow> accepts_log (io_seq (expect_state s) rest) (s # xs) ms"
  unfolding accepts_log_def
  by (auto simp: io_seq_run expect_state_run split: list.splits)

lemma accepts_message:
  "accepts_log rest xs ms \<Longrightarrow>
     accepts_log (io_seq (expect_message m) rest) (LcPreRun # LcPostRun # xs) (m # ms)"
  unfolding accepts_log_def expect_message_def shift_message_def
  by (auto simp: io_seq_run io_bind_run call_run io_assert_run expect_state_run split: list.splits)

lemma accepts_system_message:
  "accepts_log rest xs ms \<Longrightarrow> accepts_log (io_seq expect_system_message rest) (LcPreRun # LcPostRun # xs) ms"
  unfolding accepts_log_def expect_system_message_def
  by (auto simp: io_seq_run expect_state_run split: list.splits)

lemma accepts_empty: "accepts_log expect_empty [] []"
  by (auto simp: accepts_log_def expect_empty_def shift_message_def shift_state_def io_seq_run io_bind_run
      call_run io_assert_run split: list.splits)

lemmas accepts_rules =
  accepts_state [where s = LcStart, folded expect_start_def]
  accepts_state [where s = LcStopping, folded expect_stopping_def]
  accepts_state [where s = LcStopped, folded expect_stopped_def]
  accepts_state [where s = LcEnd, folded expect_end_def]
  accepts_message accepts_system_message accepts_empty

text \<open>\<open>DebugActor::start\<close> and the start that \<open>DebuggableActor\<close> overrides: run on a context of its own.\<close>

definition debug_start ::
  "(debuggable, debug_message, 'w) tokio \<Rightarrow> debuggable \<Rightarrow> (actor_ref, 'w) io" where
  "debug_start T a =
     io_bind (ctx_new T (debug_actor :: (debuggable, 'w) actor_impl)) (\<lambda>c. run_top T c a)"

text \<open>The expectations of a test, on the struct that was awaited.\<close>

definition check_script :: "(unit, debuggable) io \<Rightarrow> debuggable \<Rightarrow> (unit, 'w) io" where
  "check_script script a = (\<lambda>w. case script a of None \<Rightarrow> None | Some (x, _) \<Rightarrow> Some (x, w))"

fun send_all ::
  "(debuggable, debug_message, 'w) tokio \<Rightarrow> actor_ref \<Rightarrow> test_message list \<Rightarrow> (unit, 'w) io" where
  "send_all T addr [] = ret ()"
| "send_all T addr (m # ms) =
     io_bind (io_bind (send T addr (Test m)) unwrap_result) (\<lambda>_. send_all T addr ms)"

definition start_message_and_stop_test_actor ::
  "(debuggable, debug_message, 'w) tokio \<Rightarrow> test_message list \<Rightarrow> (debuggable, 'w) io" where
  "start_message_and_stop_test_actor T messages =
     io_bind (debug_start T (debuggable_default ParentActor)) (\<lambda>addr.
     io_bind (send_all T addr messages) (\<lambda>_.
     io_bind (into_future T addr) unwrap_result))"

definition complition_script :: "(unit, debuggable) io" where
  "complition_script =
     io_seq expect_start (io_seq expect_system_message (io_seq expect_stopping (io_seq expect_stopped
     (io_seq expect_end expect_empty))))"

definition run_actor_to_complition :: "(debuggable, debug_message, 'w) tokio \<Rightarrow> (unit, 'w) io" where
  "run_actor_to_complition T =
     io_bind (debug_start T (debuggable_default ParentActor)) (\<lambda>addr.
     io_bind (ret (actor_ref_clone addr)) (\<lambda>addr2.
     io_bind (io_bind (into_future T addr) unwrap_result) (\<lambda>actor.
     io_seq (check_script complition_script actor)
     (io_bind (into_future T addr2) (\<lambda>res. io_assert (res = Inl MailboxClosed))))))"

definition stopped_script :: "test_message \<Rightarrow> (unit, debuggable) io" where
  "stopped_script m =
     io_seq expect_start (io_seq (expect_message Normal) (io_seq (expect_message m) (io_seq expect_stopping
     (io_seq expect_stopped (io_seq (expect_message Normal) (io_seq (expect_message Normal)
     (io_seq expect_system_message (io_seq expect_end expect_empty))))))))"

definition stop_running_actor :: "(debuggable, debug_message, 'w) tokio \<Rightarrow> (unit, 'w) io" where
  "stop_running_actor T =
     io_bind (start_message_and_stop_test_actor T [Normal, StopNow, Normal, Normal])
       (check_script (stopped_script StopNow))"

definition abort_running_actor :: "(debuggable, debug_message, 'w) tokio \<Rightarrow> (unit, 'w) io" where
  "abort_running_actor T =
     io_bind (start_message_and_stop_test_actor T [Normal, AbortNow, Normal, Normal])
       (check_script (stopped_script AbortNow))"

text \<open>This test is to panic.\<close>

definition panic_during_actor_running :: "(debuggable, debug_message, 'w) tokio \<Rightarrow> (unit, 'w) io" where
  "panic_during_actor_running T =
     io_bind (start_message_and_stop_test_actor T [Normal, PanicNow, Normal, Normal]) (\<lambda>_. ret ())"

text \<open>The tests with one message: it is sent, time may pass, and the actor is awaited.\<close>

definition one_message ::
  "(debuggable, debug_message, 'w) tokio \<Rightarrow> test_message \<Rightarrow> (unit, 'w) io \<Rightarrow> (debuggable, 'w) io" where
  "one_message T m pause =
     io_bind (debug_start T (debuggable_default ParentActor)) (\<lambda>addr.
     io_bind (try_send T addr (Test m)) (\<lambda>_.
     io_bind pause (\<lambda>_.
     io_bind (into_future T addr) unwrap_result)))"

text \<open>A child that ends while its parent is stopping.\<close>

definition child_script :: "test_message \<Rightarrow> test_result \<Rightarrow> (unit, debuggable) io" where
  "child_script m r =
     io_seq expect_start (io_seq (expect_message m) (io_seq expect_system_message (io_seq expect_stopping
     (io_seq (expect_message (Despawn r)) (io_seq expect_stopped (io_seq expect_end expect_empty))))))"

definition run_parent_and_child_to_complition :: "(debuggable, debug_message, 'w) tokio \<Rightarrow> (unit, 'w) io" where
  "run_parent_and_child_to_complition T =
     io_bind (one_message T (SpawnChild 1 None) (ret ())) (check_script (child_script (SpawnChild 1 None) (TestOk 1)))"

definition child_actor_stops_by_itself :: "(debuggable, debug_message, 'w) tokio \<Rightarrow> (unit, 'w) io" where
  "child_actor_stops_by_itself T =
     io_bind (one_message T (SpawnChild 1 (Some StopNow)) (ret ()))
       (check_script (child_script (SpawnChild 1 (Some StopNow)) (TestOk 1)))"

definition child_actor_panics :: "(debuggable, debug_message, 'w) tokio \<Rightarrow> (unit, 'w) io" where
  "child_actor_panics T =
     io_bind (one_message T (SpawnChild 1 (Some PanicNow)) (ret ()))
       (check_script (child_script (SpawnChild 1 (Some PanicNow)) TestPanic))"

definition finished_script :: "(unit, debuggable) io" where
  "finished_script =
     io_seq expect_start (io_seq (expect_message (SpawnAnonymous 500 1)) (io_seq expect_system_message
     (io_seq (expect_message (DespawnAnonymous 1)) (io_seq expect_stopping (io_seq expect_stopped
     (io_seq expect_end expect_empty))))))"

definition run_parent_and_anonymous_actor_to_complition ::
  "(debuggable, debug_message, 'w) tokio \<Rightarrow> (unit, 'w) io" where
  "run_parent_and_anonymous_actor_to_complition T =
     io_bind (one_message T (SpawnAnonymous 500 1) (await (sleep T (from_millis 600)))) (check_script finished_script)"

text \<open>An anonymous actor or task of which the stopping parent only hears that it is over.\<close>

definition over_script :: "test_message \<Rightarrow> (unit, debuggable) io" where
  "over_script m =
     io_seq expect_start (io_seq (expect_message m) (io_seq expect_system_message (io_seq expect_stopping
     (io_seq expect_system_message (io_seq expect_stopped (io_seq expect_end expect_empty))))))"

definition run_parent_and_cancel_anonymous_actor :: "(debuggable, debug_message, 'w) tokio \<Rightarrow> (unit, 'w) io" where
  "run_parent_and_cancel_anonymous_actor T =
     io_bind (one_message T (SpawnAnonymous 1000 1) (ret ())) (check_script (over_script (SpawnAnonymous 1000 1)))"

definition run_parent_and_anonymous_task_to_complition ::
  "(debuggable, debug_message, 'w) tokio \<Rightarrow> (unit, 'w) io" where
  "run_parent_and_anonymous_task_to_complition T =
     io_bind (one_message T (SpawnAnonymousTask 100) (await (sleep T (from_millis 50))))
       (check_script (over_script (SpawnAnonymousTask 100)))"

definition run_parent_and_cancel_anonymous_task :: "(debuggable, debug_message, 'w) tokio \<Rightarrow> (unit, 'w) io" where
  "run_parent_and_cancel_anonymous_task T =
     io_bind (one_message T (SpawnAnonymousTask 1000) (ret ())) (check_script (over_script (SpawnAnonymousTask 1000)))"

text \<open>The deques each script accepts.\<close>

lemma complition_accepts:
  "accepts_log complition_script [LcStart, LcPreRun, LcPostRun, LcStopping, LcStopped, LcEnd] []"
  unfolding complition_script_def by (intro accepts_rules)

lemma stopped_accepts:
  "accepts_log (stopped_script m)
    [LcStart, LcPreRun, LcPostRun, LcPreRun, LcPostRun, LcStopping, LcStopped, LcPreRun, LcPostRun, LcPreRun,
     LcPostRun, LcPreRun, LcPostRun, LcEnd] [Normal, m, Normal, Normal]"
  unfolding stopped_script_def by (intro accepts_rules)

lemma child_accepts:
  "accepts_log (child_script m r)
    [LcStart, LcPreRun, LcPostRun, LcPreRun, LcPostRun, LcStopping, LcPreRun, LcPostRun, LcStopped, LcEnd]
    [m, Despawn r]"
  unfolding child_script_def by (intro accepts_rules)

lemma finished_accepts:
  "accepts_log finished_script
    [LcStart, LcPreRun, LcPostRun, LcPreRun, LcPostRun, LcPreRun, LcPostRun, LcStopping, LcStopped, LcEnd]
    [SpawnAnonymous 500 1, DespawnAnonymous 1]"
  unfolding finished_script_def by (intro accepts_rules)

lemma over_accepts:
  "accepts_log (over_script m)
    [LcStart, LcPreRun, LcPostRun, LcPreRun, LcPostRun, LcStopping, LcPreRun, LcPostRun, LcStopped, LcEnd] [m]"
  unfolding over_script_def by (intro accepts_rules)

end
