(* ===== verification/Ping.thy ===== *)
theory Ping
  imports Defaults
begin

text \<open>
  \<open>examples/ping.rs\<close>: a sender that asks its peer once a second, and a task that keeps it going. Both actor
  structs are values of \<open>ping_actor\<close>, the messages and the answer of \<open>ping_message\<close>. Printing is left out.
\<close>

datatype ping_actor = PingReceiver | PingSender (peer: actor_ref)

datatype ping_message = Loop | Ping | Str string

definition ping_receiver_handle :: "ping_message \<Rightarrow> (ping_message ask_result, (ping_actor, 'w) env) io" where
  "ping_receiver_handle msg = ret (Reply (Str ''Pong''))"

definition ping_receiver_ops :: "(ping_actor, ping_message, 'w) actor_ops" where
  "ping_receiver_ops =
     with_handlers (default_actor ''PingReceiver'') (\<lambda>_. panic) ping_receiver_handle (\<lambda>_. panic)"

text \<open>\<open>ctx.address().send(Loop).unwrap()\<close>.\<close>

definition ping_sender_on_start ::
  "(ping_actor, ping_message, 'w) tokio \<Rightarrow> (unit, (ping_actor, 'w) env) io" where
  "ping_sender_on_start T =
     in_ctx (io_bind (gets (ctx_address \<circ> fst)) (\<lambda>me.
       in_world (io_bind (send T me Loop) unwrap_result)))"

text \<open>The block that \<open>Handler<Loop>\<close> spawns.\<close>

definition ping_loop_block ::
  "(ping_actor, ping_message, 'w) tokio \<Rightarrow> actor_ref \<Rightarrow> actor_ref \<Rightarrow> (unit, 'w) io" where
  "ping_loop_block T p me =
     io_bind (ask T p Ping) (\<lambda>asked.
     io_bind (unwrap_result asked) (\<lambda>reply_msg.
     io_bind (schedule T me (from_secs 1)) (\<lambda>me.
     io_bind (send T me Loop) unwrap_result)))"

definition ping_sender_handle ::
  "(ping_actor, ping_message, 'w) tokio \<Rightarrow> ping_message \<Rightarrow> (unit, (ping_actor, 'w) env) io" where
  "ping_sender_handle T _ =
     io_bind (read_self peer) (\<lambda>p.
     in_ctx (io_bind (gets (ctx_address \<circ> fst)) (\<lambda>me.
       io_bind (anonymous_task T (ping_loop_block T p me)) (\<lambda>_. ret ()))))"

definition ping_sender_ops ::
  "(ping_actor, ping_message, 'w) tokio \<Rightarrow> (ping_actor, ping_message, 'w) actor_ops" where
  "ping_sender_ops T =
     with_handlers ((default_actor ''PingSender'')\<lparr>on_start := ping_sender_on_start T\<rparr>)
       (ping_sender_handle T) (\<lambda>_. panic) (\<lambda>_. panic)"

definition ping_main :: "(ping_actor, ping_message, 'w) tokio \<Rightarrow> (unit, 'w) io" where
  "ping_main T =
     io_bind (start T (ping_receiver_ops :: (ping_actor, ping_message, 'w) actor_ops) PingReceiver) (\<lambda>ping_rx.
     io_bind (start T (ping_sender_ops T) (PingSender ping_rx)) (\<lambda>ping_tx.
     io_bind (await (sleep T (from_secs 10))) (\<lambda>_.
     io_bind (into_future T ping_tx) (\<lambda>_. ret ()))))"

text \<open>
  A turn of the loop: a block that ends well has had an answer of the peer, has slept and has put one \<open>Loop\<close>
  into the mailbox of the sender. Everything else is a panic of the block, of which the sender hears
  nothing but that its task is over: then the loop has stopped.
\<close>

lemma ping_loop_turn:
  assumes "mpsc_returns T"
  shows "ping_loop_block T p me w = Some (Done (), w') \<longleftrightarrow>
    (\<exists>reply w1 w2. ask T p Ping w = Some (Done (Inr reply), w1) \<and> sleep T (from_secs 1) w1 = Some ((), w2) \<and>
       mpsc_try_send T (ref_address me) (BoxEnvelope (envelope_new Loop)) w2 = (Inr (), w'))"
  by (auto simp: ping_loop_block_def schedule_def io_simps send_def mpsc_returnsD [OF assms]
      split: option.splits res.splits sum.splits prod.splits try_send_error.splits
      dest!: mpsc_returnsD(1,2) [OF assms])

text \<open>The start of the sender: a \<open>Loop\<close> in its own mailbox, or a panic.\<close>

lemma ping_sender_starts:
  assumes "mpsc_returns T"
  shows "ping_sender_on_start T (a, c, w) =
    (case mpsc_try_send T (ref_address (address c)) (BoxEnvelope (envelope_new Loop)) w of
       (Inr _, w') \<Rightarrow> Some (Done (), (a, c, w')) | (Inl _, w') \<Rightarrow> Some (Panic, (a, c, w')))"
  by (auto simp: ping_sender_on_start_def io_simps send_def ctx_address_def actor_ref_clone_def
      split: option.splits res.splits sum.splits prod.splits try_send_error.splits
      dest!: mpsc_returnsD(1,2) [OF assms])

lemma ping_sender_well_behaved:
  "well_behaved T (ping_sender_handle T m)"
  unfolding ping_sender_handle_def
  by (intro well_behaved_bind struct_only_well_behaved struct_only_read well_behaved_in_ctx)
    (auto simp: io_simps split: option.splits res.splits intro: api_anonymous_task)

end
