(* ===== verification/Workflow.thy ===== *)
theory Workflow
  imports Address
begin

text \<open>
  Workflows (\<open>utils/workflow\<close>): steps that are functions or actors, chained by \<open>then\<close>. A step is a
  function from its input to a computation on the world.
\<close>

type_synonym ('m, 'w) step = "'m \<Rightarrow> ('m, 'w) io"

text \<open>
  The types that implement \<open>WorkflowBase\<close>: a function, an address, \<open>Then\<close> and \<open>Chained\<close> with their
  fields \<open>a\<close> and \<open>b\<close>; \<open>workflow_run\<close> is their \<open>run\<close>. An actor that does not answer is a \<open>todo!\<close>.
\<close>

datatype ('m, 'w) workflow =
    Function "('m, 'w) step"
  | AskActor actor_ref
  | Then "('m, 'w) workflow" "('m, 'w) workflow"
  | Chained "('m, 'w) workflow" "('m, 'w) workflow"

definition workflow_then :: "('m, 'w) workflow \<Rightarrow> ('m, 'w) workflow \<Rightarrow> ('m, 'w) workflow" where
  "workflow_then self func = Then self func"

definition ask_step :: "('a, 'm, 'w) tokio \<Rightarrow> actor_ref \<Rightarrow> ('m, 'w) step" where
  "ask_step T r input = io_bind (ask T r input) (\<lambda>res. case res of Inr response \<Rightarrow> ret response | Inl _ \<Rightarrow> panic)"

fun workflow_run :: "('a, 'm, 'w) tokio \<Rightarrow> ('m, 'w) workflow \<Rightarrow> ('m, 'w) step" where
  "workflow_run T (Function f) input = f input"
| "workflow_run T (AskActor r) input = ask_step T r input"
| "workflow_run T (Then a b) input = io_bind (workflow_run T a input) (\<lambda>output. workflow_run T b output)"
| "workflow_run T (Chained a b) input = io_bind (workflow_run T a input) (\<lambda>output. workflow_run T b output)"

text \<open>The reference: the steps from left to right, and their composition.\<close>

fun steps :: "('a, 'm, 'w) tokio \<Rightarrow> ('m, 'w) workflow \<Rightarrow> ('m, 'w) step list" where
  "steps T (Function f) = [f]"
| "steps T (AskActor r) = [ask_step T r]"
| "steps T (Then a b) = steps T a @ steps T b"
| "steps T (Chained a b) = steps T a @ steps T b"

fun run_steps :: "('m, 'w) step list \<Rightarrow> ('m, 'w) step" where
  "run_steps [] input = ret input"
| "run_steps (f # fs) input = io_bind (f input) (run_steps fs)"

lemma run_steps_Nil [simp]: "run_steps [] = ret"
  by (rule ext) simp

lemma run_steps_append: "run_steps (fs @ gs) input = io_bind (run_steps fs input) (run_steps gs)"
proof (induction fs arbitrary: input)
  case (Cons f fs)
  then have "run_steps (fs @ gs) = (\<lambda>r. io_bind (run_steps fs r) (run_steps gs))" by (rule ext)
  then show ?case by (simp add: io_bind_assoc)
qed simp

lemma workflow_run_steps_aux: "workflow_run T flow input = run_steps (steps T flow) input"
proof (induction flow arbitrary: input)
  case (Then a b)
  have "workflow_run T b = run_steps (steps T b)" using Then.IH(2) by (rule ext)
  then show ?case using Then.IH(1) by (simp add: run_steps_append)
next
  case (Chained a b)
  have "workflow_run T b = run_steps (steps T b)" using Chained.IH(2) by (rule ext)
  then show ?case using Chained.IH(1) by (simp add: run_steps_append)
qed simp_all

text \<open>C40: a workflow runs its steps from left to right, each on the output of the one before, however they
  were nested; an actor as a step asks that actor.\<close>

theorem workflow_run_steps: "workflow_run T flow input = run_steps (steps T flow) input"
  by (rule workflow_run_steps_aux)

text \<open>\<open>then\<close> is associative: nesting to the left and to the right runs the same.\<close>

theorem workflow_then_assoc:
  "workflow_run T (workflow_then (workflow_then a b) c) input =
   workflow_run T (workflow_then a (workflow_then b c)) input"
  by (simp add: workflow_run_steps_aux workflow_then_def)

end
