(* ===== verification/Suites.thy ===== *)
theory Suites
  imports Workflow Router Single Defaults
begin

text \<open>
  The actors and tests of the other test modules: the workflows of \<open>utils/workflow/mod.rs\<close>, the actor that
  \<open>utils/router.rs\<close> routes to, and the typed addresses of \<open>single/mod.rs\<close>.
\<close>

section \<open>Workflows\<close>

definition add_one :: "32 word \<Rightarrow> (32 word, 'w) io" where
  "add_one input = (if sint input < 2 ^ 31 - 1 then ret (input + 1) else panic)"

definition chain_functions_test :: "('a, 32 word, 'w) tokio \<Rightarrow> (unit, 'w) io" where
  "chain_functions_test T =
     io_bind (workflow_run T (workflow_then (workflow_then (workflow_then (Function add_one) (Function add_one))
       (Function add_one)) (Function add_one)) 0) (\<lambda>o1. io_assert (o1 = 4))"

datatype number = I32 "32 word" | I64 "64 word" | I128 "128 word" | U32 "32 word" | U64 "64 word"

text \<open>The casts of the handler: a signed source is extended with its sign, a longer one is cut off.\<close>

fun number_next :: "number \<Rightarrow> number" where
  "number_next (I32 i) = I64 (scast i)"
| "number_next (I64 i) = I128 (scast i)"
| "number_next (I128 i) = U32 (ucast i)"
| "number_next (U32 u) = U64 (ucast u)"
| "number_next (U64 u) = I32 (ucast u)"

definition add_once_handle :: "number \<Rightarrow> (number ask_result, (unit, 'w) env) io" where
  "add_once_handle message = ret (Reply (number_next message))"

definition add_once_ops :: "(unit, number, 'w) actor_ops" where
  "add_once_ops = with_handlers (default_actor ''AddOnce'') (\<lambda>_. panic) add_once_handle (\<lambda>_. panic)"

definition chain_actors_test :: "(unit, number, 'w) tokio \<Rightarrow> (unit, 'w) io" where
  "chain_actors_test T =
     io_bind (start T (add_once_ops :: (unit, number, 'w) actor_ops) ()) (\<lambda>addr.
     io_bind (ret (actor_ref_clone addr)) (\<lambda>ad2.
     io_bind (workflow_run T (workflow_then (workflow_then (workflow_then (AskActor (actor_ref_clone addr))
         (Function (\<lambda>input. io_bind (ask T ad2 input) (\<lambda>res. case res of Inr out \<Rightarrow> ret out | Inl _ \<Rightarrow> panic))))
         (AskActor (actor_ref_clone addr))) (AskActor (actor_ref_clone addr))) (I32 0))
       (\<lambda>output. io_assert (output = U64 0))))"

lemma chain_functions_passes: "chain_functions_test T w = Some (Done (), w)"
  by (simp add: chain_functions_test_def workflow_then_def add_one_def io_simps)

text \<open>Five steps of the actor bring every \<open>i32\<close> back.\<close>

lemma number_cycle: "(number_next ^^ 5) (I32 x) = I32 x"
  by (simp add: numeral_eq_Suc) (rule bit_word_eqI, auto simp: bit_simps)

text \<open>A workflow of \<open>n\<close> questions to an actor that answers with \<open>f\<close> computes \<open>f\<close> \<open>n\<close> times.\<close>

definition answers_with :: "('a, 'm, 'w) tokio \<Rightarrow> actor_ref \<Rightarrow> ('m \<Rightarrow> 'm) \<Rightarrow> bool" where
  "answers_with T r f \<longleftrightarrow> (\<forall>m w. \<exists>w'. ask T r m w = Some (Done (Inr (f m)), w'))"

lemma ask_steps:
  assumes "answers_with T r f"
  shows "\<exists>w'. run_steps (replicate n (ask_step T r)) m w = Some (Done ((f ^^ n) m), w')"
proof (induction n arbitrary: m w)
  case 0
  then show ?case by (simp add: ret_run)
next
  case (Suc n)
  obtain w1 where "ask T r m w = Some (Done (Inr (f m)), w1)" using assms unfolding answers_with_def by blast
  then have "ask_step T r m w = Some (Done (f m), w1)" by (simp add: io_simps ask_step_def)
  moreover obtain w2 where "run_steps (replicate n (ask_step T r)) (f m) w1 = Some (Done ((f ^^ n) (f m)), w2)"
    using Suc.IH by blast
  ultimately show ?case by (simp add: io_simps funpow_swap1)
qed

lemma chain_actors_passes:
  assumes "start T (add_once_ops :: (unit, number, 'w) actor_ops) () w = Some (Done addr, w1)"
    and "answers_with T addr number_next"
  shows "\<exists>w'. chain_actors_test T w = Some (Done (), w')"
proof -
  have s: "(\<lambda>input. io_bind (ask T addr input) (\<lambda>res. case res of Inr out \<Rightarrow> ret out | Inl _ \<Rightarrow> panic)) = ask_step T addr"
    by (rule ext) (simp add: ask_step_def)
  obtain w' where "run_steps (replicate 4 (ask_step T addr)) (I32 0) w1 = Some (Done ((number_next ^^ 4) (I32 0)), w')"
    using ask_steps [OF assms(2)] by blast
  then have "run_steps [ask_step T addr, ask_step T addr, ask_step T addr, ask_step T addr] (I32 0) w1 = Some (Done (U64 0), w')"
    by (simp add: numeral_eq_Suc)
  then show ?thesis
    by (simp add: chain_actors_test_def io_bind_run [of "start T _ _"] assms(1) actor_ref_clone_id s
        workflow_run_steps_aux workflow_then_def io_bind_run [of "ret _"] ret_run io_bind_run [of "run_steps _ _"]
        io_assert_run del: run_steps.simps)
qed

section \<open>The actor behind the router\<close>

text \<open>The static counter \<open>VAL\<close> is a part of the world.\<close>

record choosen_actor =
  number :: usize

definition choosen_default :: "(choosen_actor, usize \<times> 'w) io" where
  "choosen_default =
     io_bind (gets fst) (\<lambda>v.
     io_bind (usize_add v 1) (\<lambda>k.
     io_bind (modify (\<lambda>(_, w). (k, w))) (\<lambda>_.
     ret \<lparr> number = k \<rparr>)))"

datatype choosen_message = Id | Chosen choosen_actor

definition choosen_handle ::
  "choosen_message \<Rightarrow> ((choosen_message, choosen_actor \<times> 'w) io, (choosen_actor, 'w) env) io" where
  "choosen_handle _ = io_bind (read_self number) (\<lambda>n. ret (ret (Chosen \<lparr> number = n \<rparr>)))"

definition choosen_ops :: "(choosen_actor, choosen_message, 'w) actor_ops" where
  "choosen_ops = with_handlers (default_actor ''ChoosenActor'') (\<lambda>_. panic) (\<lambda>_. panic) choosen_handle"

text \<open>The test: five rounds of five questions to the router, each answered by the next actor. The router is started with
  the computations \<open>P\<close> of its actor.\<close>

fun ask_numbers :: "('a, choosen_message, 'w) tokio \<Rightarrow> actor_ref \<Rightarrow> usize list \<Rightarrow> (unit, 'w) io" where
  "ask_numbers T addr [] = ret ()"
| "ask_numbers T addr (i # is) =
     io_bind (async_ask T addr Id) (\<lambda>res.
     io_bind (unwrap_result res) (\<lambda>answer.
     io_seq (io_assert (case answer of Chosen a \<Rightarrow> number a = i + 1 | Id \<Rightarrow> False)) (ask_numbers T addr is)))"

fun ask_rounds :: "('a, choosen_message, 'w) tokio \<Rightarrow> actor_ref \<Rightarrow> nat \<Rightarrow> (unit, 'w) io" where
  "ask_rounds T addr 0 = ret ()"
| "ask_rounds T addr (Suc n) = io_seq (ask_numbers T addr [0, 1, 2, 3, 4]) (ask_rounds T addr n)"

definition round_robin_router ::
  "(router, choosen_message, 'w) tokio \<Rightarrow> (router, choosen_message, 'w) actor_ops \<Rightarrow> (unit, 'w) io" where
  "round_robin_router T P =
     io_bind (ret (router_builder_new 5)) (\<lambda>builder.
     io_bind (ret (router_new builder)) (\<lambda>router.
     io_bind (start T P router) (\<lambda>addr.
     io_seq (ask_rounds T addr 5)
     (io_bind (into_future T addr) (\<lambda>_. ret ())))))"

text \<open>It passes on a router whose question number \<open>k\<close> (as counted by \<open>turn\<close>) goes to actor \<open>k mod 5\<close>, as
  \<open>router_round_robin\<close> shows.\<close>

definition answers_in_turn :: "('a, choosen_message, 'w) tokio \<Rightarrow> actor_ref \<Rightarrow> ('w \<Rightarrow> nat) \<Rightarrow> bool" where
  "answers_in_turn T r turn \<longleftrightarrow>
     (\<forall>w. \<exists>w'. async_ask T r Id w = Some (Done (Inr (Chosen \<lparr> number = of_nat (turn w mod 5) + 1 \<rparr>)), w') \<and> turn w' = Suc (turn w))"

lemma ask_numbers_pass:
  assumes "answers_in_turn T r turn" "\<forall>i<length is. is ! i = of_nat ((turn w + i) mod 5)"
  shows "\<exists>w'. ask_numbers T r is w = Some (Done (), w') \<and> turn w' = turn w + length is"
  using assms(2)
proof (induction "is" arbitrary: w)
  case Nil
  then show ?case by (simp add: ret_run)
next
  case (Cons i "is")
  obtain w1 where 1: "async_ask T r Id w = Some (Done (Inr (Chosen \<lparr> number = of_nat (turn w mod 5) + 1 \<rparr>)), w1)"
    "turn w1 = Suc (turn w)" using assms(1) unfolding answers_in_turn_def by blast
  have "i = of_nat (turn w mod 5)" using Cons.prems by force
  moreover have "\<forall>k<length is. is ! k = of_nat ((turn w1 + k) mod 5)"
    using Cons.prems 1(2) by (metis Suc_less_eq add_Suc_shift length_Cons nth_Cons_Suc)
  ultimately show ?case using Cons.IH [of w1] 1 by (auto simp: io_bind_run io_seq_run unwrap_result_run io_assert_run)
qed

lemma ask_rounds_pass:
  assumes "answers_in_turn T r turn" "turn w mod 5 = 0"
  shows "\<exists>w'. ask_rounds T r n w = Some (Done (), w')"
  using assms(2)
proof (induction n arbitrary: w)
  case 0
  then show ?case by (simp add: ret_run)
next
  case (Suc n)
  have "\<forall>i<length [0, 1, 2, 3, 4 :: usize]. [0, 1, 2, 3, 4] ! i = (of_nat ((turn w + i) mod 5) :: usize)"
  proof (intro allI impI)
    fix i
    assume "i < length [0, 1, 2, 3, 4 :: usize]"
    then have i: "i = 0 \<or> i = 1 \<or> i = 2 \<or> i = 3 \<or> i = 4" by simp linarith
    have "i mod 5 = i" using i by auto
    then have "(turn w + i) mod 5 = i" using Suc.prems by (metis add_0 mod_add_left_eq)
    moreover have "[0, 1, 2, 3, 4] ! i = (of_nat i :: usize)" using i by (elim disjE) simp_all
    ultimately show "[0, 1, 2, 3, 4] ! i = (of_nat ((turn w + i) mod 5) :: usize)" by simp
  qed
  from ask_numbers_pass [OF assms(1) this] obtain w1 where
    1: "ask_numbers T r [0, 1, 2, 3, 4] w = Some (Done (), w1)" "turn w1 = turn w + 5" by auto
  with Suc.prems have "turn w1 mod 5 = 0" by simp
  from Suc.IH [OF this] 1(1) show ?case by (auto simp: io_seq_run)
qed

lemma round_robin_router_passes:
  assumes "start T P (router_new (router_builder_new 5)) w = Some (Done addr, w1)"
    and "answers_in_turn T addr turn" "turn w1 = 0" "\<And>v. \<exists>res v'. into_future T addr v = Some (Done res, v')"
  shows "\<exists>w'. round_robin_router T P w = Some (Done (), w')"
proof -
  obtain w2 where w2: "ask_rounds T addr 5 w1 = Some (Done (), w2)"
    using ask_rounds_pass [OF assms(2)] assms(3) by (metis mod_0)
  obtain res w3 where "into_future T addr w2 = Some (Done res, w3)" using assms(4) by blast
  with assms(1) w2 show ?thesis by (simp add: round_robin_router_def io_bind_run ret_run io_seq_run)
qed

section \<open>Typed addresses\<close>

text \<open>The struct \<open>Test\<close> with its three fields, and the messages and answers of its three handlers.\<close>

record single_test =
  field_a :: "8 word"
  field_b :: "16 word"
  field_c :: "32 word"

datatype single_message = MsgA "8 word" | MsgB "16 word" | MsgC "32 word" | SingleUnit

fun single_send :: "single_message \<Rightarrow> (unit, (single_test, 'w) env) io" where
  "single_send (MsgA _) = ret ()"
| "single_send _ = panic"

fun single_ask :: "single_message \<Rightarrow> (single_message ask_result, (single_test, 'w) env) io" where
  "single_ask (MsgB _) = ret (Reply SingleUnit)"
| "single_ask _ = panic"

fun single_async_ask ::
  "single_message \<Rightarrow> ((single_message, single_test \<times> 'w) io, (single_test, 'w) env) io" where
  "single_async_ask (MsgC _) = ret (ret SingleUnit)"
| "single_async_ask _ = panic"

definition single_ops :: "(single_test, single_message, 'w) actor_ops" where
  "single_ops = with_handlers (default_actor ''Test'') single_send single_ask single_async_ask"

definition hide_actor_underlying_implementation ::
  "(single_test, single_message, 'w) tokio \<Rightarrow> (single_message, 'w) typed \<Rightarrow>
   (single_message \<times> handle, 'w) typed \<Rightarrow> (single_message, 'w) answers \<Rightarrow> (unit, 'w) io" where
  "hide_actor_underlying_implementation T C D A =
     io_bind (ctx_builder_new T (single_ops :: (single_test, single_message, 'w) actor_ops)
       \<lparr> field_a = 0, field_b = 0, field_c = 0 \<rparr>) (\<lambda>ctx.
     io_bind (builder_sender T C (single_ops :: (single_test, single_message, 'w) actor_ops) ctx) (\<lambda>ctx.
     io_bind (builder_asker T D (single_ops :: (single_test, single_message, 'w) actor_ops) ctx) (\<lambda>ctx.
     io_bind (builder_ask_asyncer T D (single_ops :: (single_test, single_message, 'w) actor_ops) ctx) (\<lambda>ctx.
     io_bind (builder_run T ctx) (\<lambda>refs. case refs of
       Some [SendRef a1, AskRef a2, AsyncAskRef a3] \<Rightarrow>
         io_bind (io_bind (typed_ref_send C a1 (MsgA 1)) unwrap_result) (\<lambda>_.
         io_bind (io_bind (typed_ref_ask D A a2 (MsgB 1)) unwrap_result) (\<lambda>_.
         io_bind (io_bind (typed_ref_ask_async D A a3 (MsgC 1)) unwrap_result) (\<lambda>_. ret ())))
     | _ \<Rightarrow> panic)))))"

end
