(* ===== verification/Boxes.thy ===== *)
theory Boxes
  imports Executor
begin

text \<open>
  The typing of the boxes in a mailbox (\<open>envelope.rs\<close>): the options in an envelope are there so that a value
  can be taken out of a borrowed box; a box that nobody has opened has them filled. The addresses put only such
  boxes into a mailbox, and the delivery of one never unwraps an empty option.
\<close>

fun box_ok :: "'m boxed \<Rightarrow> bool" where
  "box_ok (BoxConfidential e) \<longleftrightarrow> conf_msg e \<noteq> None"
| "box_ok (BoxEnvelope e) \<longleftrightarrow> env_msg e \<noteq> None"
| "box_ok (BoxResponse r) \<longleftrightarrow> env_msg (resp_msg r) \<noteq> None \<and> resp_tx r \<noteq> None"
| "box_ok (BoxAsyncResponse r) \<longleftrightarrow> env_msg (async_msg r) \<noteq> None \<and> async_tx r \<noteq> None"

text \<open>The runtime with channels that take well-typed boxes only: another one is never accepted.\<close>

definition typed_channels :: "('a, 'm, 'w) tokio \<Rightarrow> ('a, 'm, 'w) tokio" where
  "typed_channels T = T\<lparr>
     mpsc_send := (\<lambda>h b w. if box_ok b then mpsc_send T h b w else None),
     mpsc_try_send := (\<lambda>h b w. if box_ok b then mpsc_try_send T h b w else (Inl (TrySendClosed b), w)) \<rparr>"

lemma new_boxes_ok [simp]:
  "box_ok (BoxEnvelope (envelope_new m))" "box_ok (BoxConfidential (confidential_new i))"
  "box_ok (BoxResponse (response_new (envelope_new m) tx))"
  "box_ok (BoxAsyncResponse (async_response_new (envelope_new m) tx))"
  by (simp_all add: envelope_new_def confidential_new_def response_new_def async_response_new_def)

lemma new_parts [simp]:
  "env_msg (envelope_new m) = Some m" "conf_msg (confidential_new i) = Some i"
  "resp_msg (response_new e tx) = e" "resp_tx (response_new e tx) = Some tx"
  "async_msg (async_response_new e tx) = e" "async_tx (async_response_new e tx) = Some tx"
  by (simp_all add: envelope_new_def confidential_new_def response_new_def async_response_new_def)

lemma typed_channels_simps [simp]:
  "box_ok b \<Longrightarrow> mpsc_send (typed_channels T) h b = mpsc_send T h b"
  "box_ok b \<Longrightarrow> mpsc_try_send (typed_channels T) h b = mpsc_try_send T h b"
  "oneshot_channel (typed_channels T) = oneshot_channel T" "oneshot_recv (typed_channels T) = oneshot_recv T"
  "oneshot_recv_actor (typed_channels T) = oneshot_recv_actor T"
  "mpsc_is_closed (typed_channels T) = mpsc_is_closed T"
  by (auto simp: typed_channels_def)

text \<open>Every operation of an address works the same on typed channels: it never sends anything else.\<close>

lemma addresses_send_ok:
  "try_send (typed_channels T) r m = try_send T r m" "send (typed_channels T) r m = send T r m"
  "send_async (typed_channels T) r m = send_async T r m" "try_ask (typed_channels T) r m = try_ask T r m"
  "ask (typed_channels T) r m = ask T r m" "try_async_ask (typed_channels T) r m = try_async_ask T r m"
  "async_ask (typed_channels T) r m = async_ask T r m"
  "internal_send_async (typed_channels T) r i = internal_send_async T r i"
  "wait_for_completion (typed_channels T) r = wait_for_completion T r"
  "into_future (typed_channels T) r = into_future T r"
  by (simp_all add: try_send_def send_def send_async_def try_ask_def ask_def try_async_ask_def async_ask_def
      internal_send_async_def wait_for_completion_def into_future_def request_shutdown_def [abs_def] await_ok_def
      await_answer_def await_actor_def cong: sum.case_cong if_cong)

lemma safe_bindI:
  "safe (\<lambda>_. True) m \<Longrightarrow> (\<And>r. safe (\<lambda>_. True) (k r)) \<Longrightarrow> safe (\<lambda>_. True) (io_bind m k)"
  by (auto simp: safe_def io_bind_run split: option.splits res.splits)

lemma safe_simple:
  "safe (\<lambda>_. True) (ret r)" "safe (\<lambda>_. True) (gets f)" "safe (\<lambda>_. True) (modify g)" "safe (\<lambda>_. True) (call h)"
  by (auto simp: safe_def ret_run gets_run modify_run call_run split: prod.splits)

lemma safe_parts:
  "safe (\<lambda>_. True) m \<Longrightarrow> safe (\<lambda>_. True) (in_ctx m)" "safe (\<lambda>_. True) n \<Longrightarrow> safe (\<lambda>_. True) (in_world n)"
  by (auto simp: safe_def in_ctx_run in_world_run split: option.splits)

lemmas safe_rules = safe_bindI safe_simple safe_parts

lemma private_handler_safe: "safe (\<lambda>_. True) (private_handler T i)"
proof (cases i)
  case (InternalShutdown s)
  then show ?thesis by (auto simp: shutdown_handler_def intro: safe_rules)
next
  case (InternalAnonymous c)
  then show ?thesis by (cases c) (auto intro: safe_rules)
qed

text \<open>A task of its own, for an answer that is computed later, is counted if it gets no permit, and the count must not be at its
  end. Nobody closes the semaphore of a context.\<close>

definition sem_open :: "('a, 'm, 'w) tokio \<Rightarrow> bool" where
  "sem_open T \<longleftrightarrow> (\<forall>h w. fst (sem_try_acquire T h w) \<noteq> Inl SemaphoreClosed)"

definition room_for_task :: "ctx \<Rightarrow> bool" where
  "room_for_task c \<longleftrightarrow> unat (overflow_anonymous_actors c) + 1 < 2 ^ 64"

lemma anonymous_task_safe:
  assumes "sem_open T"
  shows "safe (\<lambda>(c, w). room_for_task c) (anonymous_task T u)"
proof -
  have "sem_try_acquire T h w \<noteq> (Inl SemaphoreClosed, w')" for h w w'
    using assms unfolding sem_open_def by (metis fst_conv)
  then show ?thesis
    by (auto simp: safe_def anonymous_task_def acquire_anonymous_permit_def room_for_task_def io_simps
        split: option.splits res.splits prod.splits sum.splits try_acquire_error.splits if_splits)
qed

lemma deliver_response_safe:
  assumes "env_msg (resp_msg r) = Some m" "resp_tx r = Some tx" "sem_open T" "safe Q (handle_ask P m)"
    and "triple Q (handle_ask P m) (\<lambda>res (_, c, _). case res of Reply _ \<Rightarrow> True | Task _ \<Rightarrow> room_for_task c)"
  shows "safe Q (deliver_response T P r)"
  unfolding safe_def
proof (intro allI impI)
  fix e t
  assume Q: "Q e"
  show "deliver_response T P r e \<noteq> Some (Panic, t)"
  proof (cases "handle_ask P m e")
    case (Some v)
    have "fst v \<noteq> Panic" using assms(4) Q Some unfolding safe_def by (metis prod.collapse)
    then obtain res a c w where v: "v = (Done res, (a, c, w))" by (cases v; cases "fst v") auto
    show ?thesis
    proof (cases res)
      case (Task h)
      with tripleD [OF assms(5) Q] Some v have "room_for_task c" by fastforce
      with anonymous_task_safe [OF assms(3)] Task Some v assms(1,2) show ?thesis
        by (cases h) (auto simp: deliver_response_def envelope_unwrap_def unwrap_def io_simps safe_def
            split: option.splits res.splits prod.splits)
    qed (use Some v assms(1,2) in \<open>auto simp: deliver_response_def envelope_unwrap_def unwrap_def io_simps split: prod.splits\<close>)
  qed (use assms(1,2) in \<open>simp add: deliver_response_def envelope_unwrap_def unwrap_def io_simps split: prod.splits\<close>)
qed

text \<open>C23: boxes are well typed: what the addresses put into a mailbox are boxes whose options are all filled,
  and delivering such a box never panics for an empty option. From a struct and a context with \<open>Q\<close>, under
  which the user's handlers do not panic, it does not panic at all, if a handler that leaves its answer to a task
  leaves the count of the tasks without a permit below its end.\<close>

theorem ok_box_delivered:
  assumes "box_ok b" "sem_open T"
    and "\<And>m. safe (\<lambda>(a, c, _). Q a c) (handle_send P m)" "\<And>m. safe (\<lambda>(a, c, _). Q a c) (handle_ask P m)"
    and "\<And>m. safe (\<lambda>(a, c, _). Q a c) (handle_async_ask P m)"
    and "\<And>m. triple (\<lambda>(a, c, _). Q a c) (handle_ask P m)
      (\<lambda>res (_, c, _). case res of Reply _ \<Rightarrow> True | Task _ \<Rightarrow> room_for_task c)"
  shows "safe (\<lambda>(a, c, _). Q a c) (send_message T P b)"
proof (cases b)
  case (BoxConfidential e)
  have "safe (\<lambda>_. True) (send_message T P b)"
    using assms(1) private_handler_safe
    by (auto simp: BoxConfidential deliver_confidential_def confidential_unwrap_def io_seq_def intro!: safe_rules)
  then show ?thesis by (simp add: safe_def)
next
  case (BoxEnvelope e)
  then show ?thesis
    using assms(1,3)
    by (auto simp: deliver_envelope_def envelope_unwrap_def io_simps safe_def split: option.splits res.splits)
next
  case (BoxResponse r)
  with assms(1) obtain m tx where "env_msg (resp_msg r) = Some m" "resp_tx r = Some tx" by auto
  from deliver_response_safe [OF this assms(2,4,6)] BoxResponse show ?thesis by simp
next
  case (BoxAsyncResponse r)
  then show ?thesis
    using assms(1,5)
    by (auto simp: deliver_async_response_def envelope_unwrap_def unwrap_def io_simps safe_def
        split: option.splits res.splits prod.splits)
qed

end
