(* ===== verification/Relays.thy ===== *)
theory Relays
  imports Children World
begin

text \<open>
  The tasks that hand items on to an actor: the asking bridges of \<open>executor.rs\<close> behind a typed address, and the task
  of a connection of \<open>world/mod.rs\<close>. Both take an item, ask an actor with its message, and wait for the answer
  before they take the next; a bridge also sends the answer on.
\<close>

section \<open>An observer of a task\<close>

text \<open>
  What a task does, in order: the items it takes, with the sender of the answer if one came with it, what a mailbox
  accepts of it or refuses, what it gets from a oneshot channel, and what it sends on. \<open>sends_observed\<close> says of
  the functions of Tokio that the observer sees what they return, and nothing else.
\<close>

datatype 'm relay_event =
    Taken 'm "handle option"
  | Offered handle "'m boxed"
  | Refused handle "'m boxed"
  | Got handle "unit + 'm"
  | Relayed handle "'m ask_error + 'm"

definition sends_observed :: "('a, 'm, 'w) tokio \<Rightarrow> ('w \<Rightarrow> 'm relay_event list) \<Rightarrow> bool" where
  "sends_observed T log \<longleftrightarrow> mpsc_returns T \<and>
     (\<forall>w. log (snd (oneshot_channel T w)) = log w) \<and>
     (\<forall>a b w w'. mpsc_send T a b w = Some (Inr (), w') \<longrightarrow> log w' = log w @ [Offered a b]) \<and>
     (\<forall>a b e w w'. mpsc_send T a b w = Some (Inl e, w') \<longrightarrow> log w' = log w @ [Refused a b]) \<and>
     (\<forall>tx w res w'. oneshot_recv T tx w = Some (res, w') \<longrightarrow> log w' = log w @ [Got tx res])"

lemma sends_observedD:
  assumes "sends_observed T log"
  shows "mpsc_returns T"
    and "oneshot_channel T w = (tx, w') \<Longrightarrow> log w' = log w"
    and "mpsc_send T a b w = Some (Inr (), w') \<Longrightarrow> log w' = log w @ [Offered a b]"
    and "mpsc_send T a b w = Some (Inl e, w') \<Longrightarrow> log w' = log w @ [Refused a b]"
    and "oneshot_recv T tx w = Some (res, w') \<Longrightarrow> log w' = log w @ [Got tx res]"
  using assms unfolding sends_observed_def by (metis snd_conv)+

text \<open>The answer of an ask, given what came out of its oneshot channel.\<close>

fun response_of :: "unit + 'm \<Rightarrow> 'm ask_error + 'm" where
  "response_of (Inl u) = Inl AskDropped"
| "response_of (Inr v) = Inr v"

lemma ask_log:
  assumes "sends_observed T log" "ask T r m w = Some (Done x, w')"
  shows "\<exists>tx res. x = response_of res \<and>
    log w' = log w @ [Offered (ref_address r) (BoxResponse (response_new (envelope_new m) tx)), Got tx res]"
  using assms(2) sends_observedD(2-5) [OF assms(1)]
  by (fastforce simp: ask_result [OF sends_observedD(1) [OF assms(1)]] split: prod.splits sum.splits option.splits)

lemma async_ask_log:
  assumes "sends_observed T log" "async_ask T r m w = Some (Done x, w')"
  shows "\<exists>tx res. x = response_of res \<and>
    log w' = log w @ [Offered (ref_address r) (BoxAsyncResponse (async_response_new (envelope_new m) tx)), Got tx res]"
  using assms(2) sends_observedD(2-5) [OF assms(1)]
  by (fastforce simp: async_ask_result [OF sends_observedD(1) [OF assms(1)]] split: prod.splits sum.splits option.splits)

text \<open>A run that adds a sequence of exchanges to the log.\<close>

definition exchanges :: "('s \<Rightarrow> 'e list) \<Rightarrow> ('x \<Rightarrow> 'e list) \<Rightarrow> 's \<Rightarrow> 's \<Rightarrow> bool" where
  "exchanges log f s t \<longleftrightarrow> (\<exists>xs. log t = log s @ concat (map f xs))"

interpretation exchanges: frame_rel "exchanges log f" for log f
proof
  fix s t u
  show "exchanges log f s s" unfolding exchanges_def by (rule exI [of _ "[]"]) simp
  assume "exchanges log f s t" "exchanges log f t u"
  then obtain xs ys where "log t = log s @ concat (map f xs)" "log u = log t @ concat (map f ys)"
    unfolding exchanges_def by blast
  then show "exchanges log f s u" unfolding exchanges_def by (intro exI [of _ "xs @ ys"]) simp
qed

lemma exchanges_one: "log t = log s @ f x \<Longrightarrow> exchanges log f s t"
  unfolding exchanges_def by (rule exI [of _ "[x]"]) simp

lemma exchanges_none: "log t = log s \<Longrightarrow> exchanges log f s t"
  unfolding exchanges_def by (rule exI [of _ "[]"]) simp

section \<open>The asking bridges\<close>

text \<open>What the observer sees of the \<open>select!\<close> of a bridge and of the senders of the answers.\<close>

definition bridge_observed ::
  "(handle \<Rightarrow> (('m \<times> handle) bridge_event, 'w) fut) \<Rightarrow> (handle \<Rightarrow> 'm ask_error + 'm \<Rightarrow> 'w \<Rightarrow> 'w) \<Rightarrow>
   ('w \<Rightarrow> 'm relay_event list) \<Rightarrow> bool" where
  "bridge_observed select_rx answer log \<longleftrightarrow>
     (\<forall>h w m k w'. select_rx h w = Some (BridgeRecv (Some (m, k)), w') \<longrightarrow> log w' = log w @ [Taken m (Some k)]) \<and>
     (\<forall>h w w'. select_rx h w = Some (BridgeRecv None, w') \<longrightarrow> log w' = log w) \<and>
     (\<forall>h w w'. select_rx h w = Some (SupervisorChanged, w') \<longrightarrow> log w' = log w) \<and>
     (\<forall>h w w'. select_rx h w = Some (SupervisorClosed, w') \<longrightarrow> log w' = log w) \<and>
     (\<forall>k x w. log (answer k x w) = log w @ [Relayed k x])"

lemma bridge_observedD:
  assumes "bridge_observed select_rx answer log"
  shows "select_rx h w = Some (BridgeRecv (Some (m, k)), w') \<Longrightarrow> log w' = log w @ [Taken m (Some k)]"
    and "select_rx h w = Some (BridgeRecv None, w') \<Longrightarrow> log w' = log w"
    and "select_rx h w = Some (SupervisorChanged, w') \<Longrightarrow> log w' = log w"
    and "select_rx h w = Some (SupervisorClosed, w') \<Longrightarrow> log w' = log w"
    and "log (answer k x w) = log w @ [Relayed k x]"
  using assms unfolding bridge_observed_def by metis+

text \<open>One exchange: the message of the item goes to the mailbox \<open>a\<close> in the box \<open>b\<close>, and what comes back from
  there goes to the sender that came with the item.\<close>

definition relay :: "('m \<Rightarrow> handle \<Rightarrow> 'm boxed) \<Rightarrow> handle \<Rightarrow> 'm \<times> handle \<times> handle \<times> (unit + 'm) \<Rightarrow> 'm relay_event list" where
  "relay b a = (\<lambda>(m, k, tx, res). [Taken m (Some k), Offered a (b m tx), Got tx res, Relayed k (response_of res)])"

definition ask_box :: "'m \<Rightarrow> handle \<Rightarrow> 'm boxed" where
  "ask_box m tx = BoxResponse (response_new (envelope_new m) tx)"

definition async_ask_box :: "'m \<Rightarrow> handle \<Rightarrow> 'm boxed" where
  "async_ask_box m tx = BoxAsyncResponse (async_response_new (envelope_new m) tx)"

text \<open>The contract of the body of an asking bridge, which the rounds and the loop keep.\<close>

locale asking_body =
  fixes asks :: "('a, 'm, 'w) tokio \<Rightarrow> actor_ref \<Rightarrow> 'm \<Rightarrow> ('m ask_error + 'm, 'w) io"
    and forward :: "('a, 'm, 'w) tokio \<Rightarrow> (handle \<Rightarrow> 'm ask_error + 'm \<Rightarrow> 'w \<Rightarrow> 'w) \<Rightarrow> actor_ref \<Rightarrow> 'm \<times> handle \<Rightarrow>
      (executor_loop, 'w) io"
    and b :: "'m \<Rightarrow> handle \<Rightarrow> 'm boxed"
  assumes asks_log: "sends_observed T log \<Longrightarrow> asks T r m w = Some (Done x, w') \<Longrightarrow>
      \<exists>tx res. x = response_of res \<and> log w' = log w @ [Offered (ref_address r) (b m tx), Got tx res]"
    and forward_run: "forward T answer r (m, k) w = (case asks T r m w of None \<Rightarrow> None
      | Some (Panic, w') \<Rightarrow> Some (Panic, w') | Some (Done x, w') \<Rightarrow> Some (Done Continue, answer k x w'))"
begin

lemma forward_log:
  assumes "sends_observed T log" "bridge_observed select_rx answer log"
    and "forward T answer r (m, k) w = Some (Done fl, w')"
  shows "\<exists>tx res. log w' = log w @ [Offered (ref_address r) (b m tx), Got tx res, Relayed k (response_of res)]"
proof -
  from assms(3) obtain x u where a: "asks T r m w = Some (Done x, u)" "w' = answer k x u"
    by (auto simp: forward_run split: option.splits prod.splits res.splits)
  from asks_log [OF assms(1) a(1)] a(2) bridge_observedD(5) [OF assms(2)] show ?thesis by auto
qed

lemma round_keeps:
  assumes "sends_observed T log" "bridge_observed select_rx answer log"
  shows "keeps (exchanges (log \<circ> world) (relay b (ref_address r))) (bridge_round T select_rx (forward T answer r))"
proof (rule keepsI)
  fix E fl F
  assume run: "bridge_round T select_rx (forward T answer r) E = Some (Done fl, F)"
  then obtain h where h: "receiver E = Some h"
    by (cases "receiver E") (auto simp: bridge_round_def io_simps)
  obtain ev w where sel: "select_rx h (world E) = Some (ev, w)"
    using run h by (auto simp: bridge_round_def io_simps in_w_def split: option.splits)
  show "exchanges (log \<circ> world) (relay b (ref_address r)) E F"
  proof (cases "\<exists>m k. ev = BridgeRecv (Some (m, k))")
    case True
    then obtain m k where ev: "ev = BridgeRecv (Some (m, k))" by blast
    then obtain e where "forward T answer r (m, k) w = Some (Done e, world F)"
      using run h sel
      by (auto simp: bridge_round_def io_simps in_w_def split: option.splits prod.splits res.splits)
    from forward_log [OF assms this] bridge_observedD(1) [OF assms(2) sel [unfolded ev]]
    obtain tx res where "log (world F) = log (world E) @ relay b (ref_address r) (m, k, tx, res)"
      by (auto simp: relay_def)
    then show ?thesis by (intro exchanges_one) simp
  next
    case False
    then have "log (world F) = log (world E)"
      using run h sel bridge_observedD(2,3) [OF assms(2), of h "world E" w]
      by (cases ev) (auto simp: bridge_round_def io_simps in_w_def
          split: option.splits prod.splits res.splits supervisor_message.splits)
    then show ?thesis by (intro exchanges_none) simp
  qed
qed

lemma bridge_relays:
  assumes "sends_observed T log" "bridge_observed select_rx answer log"
    and "bridge_actor T select_rx (forward T answer r) E = Some (Done (), E')"
  shows "\<exists>xs F G. log (world F) = log (world E) @ concat (map (relay b (ref_address r)) xs) \<and>
    shutdown T noop_ops F = Some (Done (), G) \<and> in_w (drop_receiver T (receiver G)) G = Some (Done (), E')"
proof -
  have g: "io_bind (gets receiver) k G = k (receiver G) G" for k :: "_ \<Rightarrow> (unit, ('a, 'm, 'w) executor) io" and G
    by (simp add: io_simps)
  from assms(3) obtain u D where
    1: "callback OnStart (on_start (noop_ops :: ('a, 'm, 'w) actor_ops)) E = Some (Done u, D)"
    and "io_seq (io_loop (bridge_round T select_rx (forward T answer r))) (io_seq (shutdown T noop_ops)
      (io_bind (gets receiver) (\<lambda>rcv. in_w (drop_receiver T rcv)))) D = Some (Done (), E')"
    unfolding bridge_actor_def by (rule io_seq_DoneE)
  from this(2) obtain x F where 2: "io_loop (bridge_round T select_rx (forward T answer r)) D = Some (Done x, F)"
    and "io_seq (shutdown T noop_ops) (io_bind (gets receiver) (\<lambda>rcv. in_w (drop_receiver T rcv))) F = Some (Done (), E')"
    by (rule io_seq_DoneE)
  from this(2) obtain G where
    3: "shutdown T noop_ops F = Some (Done (), G)" "in_w (drop_receiver T (receiver G)) G = Some (Done (), E')"
    by (rule io_seq_DoneE) (simp add: g)
  have "world D = world E"
    using 1 by (auto simp: callback_def log_call_def noop_ops_def noop_def with_handlers_def default_actor_def
        actor_impl.defs on_env_def io_simps)
  moreover have "exchanges (log \<circ> world) (relay b (ref_address r)) D F"
    by (rule keepsD [OF exchanges.keeps_loop [OF round_keeps [OF assms(1,2)]] 2])
  ultimately show ?thesis using 3 unfolding exchanges_def by auto
qed

end

interpretation ask_bridge: asking_body ask forward_ask ask_box
  by unfold_locales (use ask_log in \<open>auto simp: ask_box_def forward_ask_def io_simps split: option.splits res.splits prod.splits\<close>)

interpretation async_ask_bridge: asking_body async_ask forward_async_ask async_ask_box
  by unfold_locales (use async_ask_log in \<open>auto simp: async_ask_box_def forward_async_ask_def io_simps split: option.splits res.splits prod.splits\<close>)

text \<open>C34: a typed asking address, behind its channel: the bridge of a finished run has taken the items of the channel
  one by one, has asked its parent with the message of each, and has sent what came back, an answer or
  \<open>AskDropped\<close>, to the sender that came with that very item. What follows is its shutdown.\<close>

theorem ask_bridge_relays:
  assumes "sends_observed T log" "bridge_observed select_rx answer log"
    and "child_with_custom_ask_rx T select_rx answer parent E = Some (Done (), E')"
  shows "\<exists>xs F G. log (world F) = log (world E) @ concat (map (relay ask_box (ref_address parent)) xs) \<and>
    shutdown T noop_ops F = Some (Done (), G) \<and> in_w (drop_receiver T (receiver G)) G = Some (Done (), E')"
  using assms unfolding child_with_custom_ask_rx_def by (rule ask_bridge.bridge_relays)

text \<open>The same of the bridge that asks for a future.\<close>

theorem async_ask_bridge_relays:
  assumes "sends_observed T log" "bridge_observed select_rx answer log"
    and "child_with_custom_async_ask_rx T select_rx answer parent E = Some (Done (), E')"
  shows "\<exists>xs F G. log (world F) = log (world E) @ concat (map (relay async_ask_box (ref_address parent)) xs) \<and>
    shutdown T noop_ops F = Some (Done (), G) \<and> in_w (drop_receiver T (receiver G)) G = Some (Done (), E')"
  using assms unfolding child_with_custom_async_ask_rx_def by (rule async_ask_bridge.bridge_relays)

text \<open>An item that reaches a bridge whose parent has closed its mailbox is not answered: the bridge panics.\<close>

theorem ask_bridge_closed_panics:
  assumes "mpsc_returns T" "receiver E = Some h" "select_rx h (world E) = Some (BridgeRecv (Some (m, k)), w)"
    and "mpsc_send T (ref_address parent) (ask_box m (fst (oneshot_channel T w))) (snd (oneshot_channel T w)) = Some (Inl e, w')"
  shows "io_loop (bridge_round T select_rx (forward_ask T answer parent)) E = Some (Panic, E\<lparr>world := w'\<rparr>)"
proof -
  have "ask T parent m w = Some (Panic, w')"
    using assms(4) by (auto simp: ask_result [OF assms(1)] ask_box_def split: prod.splits)
  then show ?thesis
    using assms(2,3)
    by (simp add: io_loop.simps [of _ E] bridge_round_def forward_ask_def in_w_def io_simps)
qed

section \<open>The task of a connection\<close>

definition reads_observed :: "(io_error + 'm option, 'w) io \<Rightarrow> ('w \<Rightarrow> 'm relay_event list) \<Rightarrow> bool" where
  "reads_observed rd log \<longleftrightarrow>
     (\<forall>w m w'. rd w = Some (Done (Inr (Some m)), w') \<longrightarrow> log w' = log w @ [Taken m None]) \<and>
     (\<forall>w w'. rd w = Some (Done (Inr None), w') \<longrightarrow> log w' = log w) \<and>
     (\<forall>w err w'. rd w = Some (Done (Inl err), w') \<longrightarrow> log w' = log w)"

lemma reads_observedD:
  assumes "reads_observed rd log"
  shows "rd w = Some (Done (Inr (Some m)), w') \<Longrightarrow> log w' = log w @ [Taken m None]"
    and "rd w = Some (Done (Inr None), w') \<Longrightarrow> log w' = log w"
    and "rd w = Some (Done (Inl err), w') \<Longrightarrow> log w' = log w"
  using assms unfolding reads_observed_def by metis+

definition asked_turn :: "handle \<Rightarrow> 'm \<times> handle \<times> (unit + 'm) \<Rightarrow> 'm relay_event list" where
  "asked_turn a = (\<lambda>(m, tx, res). [Taken m None, Offered a (async_ask_box m tx), Got tx res])"

text \<open>The reading that ends the loop: the stream is at its end or broken.\<close>

fun nothing_read :: "io_error + 'm option \<Rightarrow> bool" where
  "nothing_read (Inl err) = True"
| "nothing_read (Inr None) = True"
| "nothing_read (Inr (Some m)) = False"

lemma serve_round_log:
  assumes "sends_observed T log" "reads_observed rd log" "serve_round T rd r w = Some (Done fl, w')"
  shows "exchanges log (asked_turn (ref_address r)) w w' \<and>
    (case fl of Again \<Rightarrow> True | Leave _ \<Rightarrow> \<exists>res. nothing_read res \<and> rd w = Some (Done res, w'))"
proof -
  obtain res u where rd: "rd w = Some (Done res, u)"
    using assms(3) by (auto simp: serve_round_def io_simps split: option.splits res.splits)
  show ?thesis
  proof (cases res rule: nothing_read.cases)
    case (3 m)
    with rd assms(3) obtain x where x: "async_ask T r m u = Some (Done x, w')" "fl = Again"
      by (auto simp: serve_round_def io_simps split: option.splits res.splits)
    from async_ask_log [OF assms(1) x(1)] reads_observedD(1) [OF assms(2) rd [unfolded 3]]
    obtain tx out where "log w' = log w @ asked_turn (ref_address r) (m, tx, out)"
      by (auto simp: asked_turn_def async_ask_box_def)
    with x(2) show ?thesis by (auto intro: exchanges_one)
  qed (use rd assms(3) reads_observedD(2,3) [OF assms(2)] in
    \<open>force simp: serve_round_def io_simps intro!: exchanges_none split: option.splits\<close>)+
qed

text \<open>The task of a connection asks its actor with every payload it reads, in the order in which they were read
  and each after the answer to the one before, until nothing can be read; then it awaits the actor.\<close>

theorem serve_connection_in_turn:
  assumes "sends_observed T log" "reads_observed rd log"
    and "serve_connection T rd connection w = Some (Done (), w')"
  shows "\<exists>xs v res u out. log u = log w @ concat (map (asked_turn (ref_address connection)) xs) \<and>
    rd v = Some (Done res, u) \<and> nothing_read res \<and> into_future T connection u = Some (Done out, w')"
proof -
  from assms(3) obtain x u out where 1: "io_loop (serve_round T rd connection) w = Some (Done x, u)"
    and 2: "into_future T connection u = Some (Done out, w')"
    unfolding serve_connection_def by (elim io_seq_DoneE io_bind_DoneE) (simp add: io_simps)
  have "triple (exchanges log (asked_turn (ref_address connection)) w) (io_loop (serve_round T rd connection))
    (\<lambda>_ u. exchanges log (asked_turn (ref_address connection)) w u \<and>
      (\<exists>v res. nothing_read res \<and> rd v = Some (Done res, u)))"
  proof (rule triple_loop, rule tripleI)
    fix s fl t
    assume "exchanges log (asked_turn (ref_address connection)) w s" "serve_round T rd connection s = Some (Done fl, t)"
    with serve_round_log [OF assms(1,2) this(2)] have "exchanges log (asked_turn (ref_address connection)) w t"
      by (blast intro: exchanges.trans)
    with serve_round_log [OF assms(1,2) \<open>serve_round T rd connection s = Some (Done fl, t)\<close>] show "case fl of
        Again \<Rightarrow> exchanges log (asked_turn (ref_address connection)) w t
      | Leave b \<Rightarrow> exchanges log (asked_turn (ref_address connection)) w t \<and>
          (\<exists>v res. nothing_read res \<and> rd v = Some (Done res, t))"
      by (cases fl) auto
  qed
  from tripleD [OF this exchanges.refl 1] 2 show ?thesis unfolding exchanges_def by blast
qed

end
