(* ===== verification/Graceful_Exit.thy ===== *)
theory Graceful_Exit
  imports Defaults
begin

text \<open>
  The actors and tests of \<open>tests/wait_for_graceful_exit.rs\<close> (an actor that counts, one message at a time, what its
  own task sends to it) and of \<open>tests/max_anonymous_actors.rs\<close> (an actor that spawns more tasks than its limit).
  The counter is exact over the messages that its mailbox accepted; the permits and the overflow count are exact
  over the tasks that were spawned.
\<close>

section \<open>Counting to the end\<close>

datatype count_message = Count | SetCount usize | StopCount

record count_actor =
  counter :: usize

text \<open>The block that \<open>Handler<SetCount>\<close> spawns. What the sends return is dropped.\<close>

fun send_counts :: "(count_actor, count_message, 'w) tokio \<Rightarrow> actor_ref \<Rightarrow> nat \<Rightarrow> (unit, 'w) io" where
  "send_counts T addr 0 = ret ()"
| "send_counts T addr (Suc n) = io_bind (send_async T addr Count) (\<lambda>_. send_counts T addr n)"

fun count_handle ::
  "(count_actor, count_message, 'w) tokio \<Rightarrow> count_message \<Rightarrow> (unit, (count_actor, 'w) env) io" where
  "count_handle T (SetCount count) =
     in_ctx (io_bind (gets (ctx_address \<circ> fst)) (\<lambda>addr.
       io_bind (anonymous_task T (send_counts T addr (unat count))) (\<lambda>_. ret ())))"
| "count_handle T Count =
     io_bind (read_self counter) (\<lambda>n.
     io_bind (usize_add n 1) (\<lambda>k. update_self (\<lambda>self. self\<lparr>counter := k\<rparr>)))"
| "count_handle T StopCount = in_ctx (modify (\<lambda>(c, w). (stop c, w)))"

definition count_ops :: "(count_actor, count_message, 'w) tokio \<Rightarrow> (count_actor, count_message, 'w) actor_ops" where
  "count_ops T = with_handlers (default_actor ''CountActor'') (count_handle T) (\<lambda>_. panic) (\<lambda>_. panic)"

text \<open>The blocks that the tests hand to \<open>tokio::spawn\<close>, without a look at their join handles. To spawn one is the
  parameter \<open>launch\<close>.\<close>

definition wait_block :: "(count_actor, count_message, 'w) tokio \<Rightarrow> actor_ref \<Rightarrow> (unit, 'w) io" where
  "wait_block T addr =
     io_bind (wait_for_completion T addr) (\<lambda>res.
     io_bind (unwrap_result res) (\<lambda>a. io_assert (counter a = 10)))"

definition wait_for_actor_to_finish_executing_with_correct_state ::
  "(count_actor, count_message, 'w) tokio \<Rightarrow> ((unit, 'w) io \<Rightarrow> (unit, 'w) io) \<Rightarrow> (unit, 'w) io" where
  "wait_for_actor_to_finish_executing_with_correct_state T launch =
     io_bind (start T (count_ops T) \<lparr> counter = 0 \<rparr>) (\<lambda>addr.
     io_seq (launch (wait_block T (actor_ref_clone addr)))
     (io_bind (send_async T addr (SetCount 10)) (\<lambda>sent.
     io_bind (unwrap_result sent) (\<lambda>_.
     io_bind (send_async T addr StopCount) unwrap_result))))"

definition err_unwrap :: "'e + 'r \<Rightarrow> ('e, 's) io" where
  "err_unwrap res = (case res of Inl e \<Rightarrow> ret e | Inr r \<Rightarrow> panic)"

definition multiple_wait_block ::
  "(count_actor, count_message, 'w) tokio \<Rightarrow> actor_ref \<Rightarrow> actor_ref \<Rightarrow> actor_ref \<Rightarrow> (unit, 'w) io" where
  "multiple_wait_block T addr1 addr2 addr3 =
     io_bind (wait_for_completion T addr1) (\<lambda>r1.
     io_bind (wait_for_completion T addr2) (\<lambda>r2.
     io_bind (wait_for_completion T addr3) (\<lambda>r3.
     io_bind (err_unwrap r1) (\<lambda>e1.
     io_seq (io_assert (e1 = Paniced))
     (io_bind (err_unwrap r2) (\<lambda>e2.
     io_seq (io_assert (e2 = Paniced))
     (io_bind (unwrap_result r3) (\<lambda>a. io_assert (counter a = 1000)))))))))"

definition multiple_wait_for_actor_to_finish_executing ::
  "(count_actor, count_message, 'w) tokio \<Rightarrow> ((unit, 'w) io \<Rightarrow> (unit, 'w) io) \<Rightarrow> (unit, 'w) io" where
  "multiple_wait_for_actor_to_finish_executing T launch =
     io_bind (start T (count_ops T) \<lparr> counter = 0 \<rparr>) (\<lambda>addr.
     io_bind (ret (actor_ref_clone addr)) (\<lambda>addr1.
     io_bind (ret (actor_ref_clone addr1)) (\<lambda>addr2.
     io_bind (ret (actor_ref_clone addr1)) (\<lambda>addr3.
     io_seq (launch (multiple_wait_block T addr1 addr2 addr3))
     (io_bind (send_async T addr (SetCount 1000)) (\<lambda>sent.
     io_bind (unwrap_result sent) (\<lambda>_.
     io_bind (send_async T addr StopCount) unwrap_result)))))))"

section \<open>The counter is exact\<close>

definition count_of :: "count_message \<Rightarrow> nat" where
  "count_of m = (if m = Count then 1 else 0)"

fun box_count :: "count_message boxed \<Rightarrow> nat" where
  "box_count (BoxEnvelope (Envelope (Some m))) = count_of m"
| "box_count _ = 0"

definition raises :: "count_message \<Rightarrow> count_actor \<Rightarrow> count_actor \<Rightarrow> bool" where
  "raises m a a' \<longleftrightarrow> unat (counter a') = unat (counter a) + count_of m"

lemma count_run:
  "count_handle T Count (a, cw) =
    (if unat (counter a) + 1 < 2 ^ 64 then Some (Done (), (a\<lparr>counter := counter a + 1\<rparr>, cw)) else Some (Panic, (a, cw)))"
  by (simp add: io_simps)

lemma unat_usize_Suc: "unat (a :: usize) + 1 < 2 ^ 64 \<Longrightarrow> unat (a + 1) = unat a + 1"
  using unat_checked_add [of a 1] by simp

lemma count_handle_effect: "keeps (env_struct (raises m)) (count_handle T m)"
proof (cases m)
  case Count
  then show ?thesis
    by (auto simp: keeps_def env_struct_def raises_def count_of_def count_run unat_usize_Suc
        simp del: count_handle.simps split: if_splits)
next
  case (SetCount n)
  then show ?thesis
    using in_ctx_struct unfolding keeps_def env_struct_def by (fastforce simp: raises_def count_of_def)
next
  case StopCount
  then show ?thesis
    using in_ctx_struct unfolding keeps_def env_struct_def by (fastforce simp: raises_def count_of_def)
qed

interpretation counting: struct_effects
  "count_ops T :: (count_actor, count_message, 'w) actor_ops" "\<lambda>cb a a'. a' = a" raises "\<lambda>_ _ _. False" "\<lambda>_ _ _. False" for T
  unfolding count_ops_def
  by (intro default_struct_effects count_handle_effect) (simp_all add: keeps_struct_panic triple_panic)

lemma count_chain:
  "chain (box_effect raises (\<lambda>_ _ _. False) (\<lambda>_ _ _. False)) bs a a' \<Longrightarrow>
     unat (counter a') = unat (counter a) + sum_list (map box_count bs)"
proof (induction bs arbitrary: a)
  case (Cons b bs)
  then obtain x where x: "box_effect raises (\<lambda>_ _ _. False) (\<lambda>_ _ _. False) b a x"
    and "unat (counter a') = unat (counter x) + sum_list (map box_count bs)" by auto
  moreover have "unat (counter x) = unat (counter a) + box_count b"
    using x by (cases b rule: box_count.cases) (auto simp: raises_def split: option.splits)
  ultimately show ?case by simp
qed simp

lemma count_struct_only: "struct_only (count_handle T Count)"
  by (simp add: usize_add_def struct_only_rules del: One_nat_def)

lemma count_handle_well_behaved: "well_behaved T (count_handle T m)"
proof (cases m)
  case Count
  then show ?thesis by (simp only: struct_only_well_behaved count_struct_only)
next
  case (SetCount n)
  have "well_behaved T (in_ctx (io_bind (gets (ctx_address \<circ> fst)) (\<lambda>addr.
      io_bind (anonymous_task T (send_counts T addr (unat n))) (\<lambda>_. ret ()))))"
    by (rule well_behaved_in_ctx) (auto simp: io_simps split: option.splits res.splits intro: api_anonymous_task)
  then show ?thesis by (simp add: SetCount)
next
  case StopCount
  then show ?thesis by (auto intro!: well_behaved_in_ctx simp: modify_run api_stop)
qed

lemma count_handle_mail:
  assumes "mail_runtime T M"
  shows "keeps (env_mail M) (count_handle T m)"
proof (cases m)
  case Count
  then show ?thesis by (simp only: struct_only_mail count_struct_only)
next
  case (SetCount n)
  then show ?thesis
    by (auto intro!: in_ctx_mail mail_world.pair.keeps_rules anonymous_task_mail assms)
next
  case StopCount
  then show ?thesis
    by (auto intro!: in_ctx_mail mail_world.pair.keeps_modify simp: pair_mail_def mail.refl)
qed

lemma count_well_behaved: "well_behaved_actor T (count_ops T)"
  unfolding count_ops_def by (intro default_well_behaved count_handle_well_behaved well_behaved_panic)

lemma count_mail_user: "mail_runtime T M \<Longrightarrow> mail_user (count_ops T) M"
  unfolding count_ops_def
  by (intro default_mail_user count_handle_mail mail_world.env.keeps_panic triple_panic)

text \<open>The counter of the tests ends with exactly the number of \<open>Count\<close> messages that its mailbox accepted: all
  that its task got to send are counted, also those that arrive after \<open>Stop\<close>.\<close>

theorem graceful_count:
  assumes "mail_host T (mailbox c) M" "answers_run T" "mail_pending M w = mail_sent M w"
    and "run_actor T (count_ops T) (executor_new \<lparr> counter = 0 \<rparr> c w) = Some (Done (), E)"
  shows "unat (counter (actor E)) = sum_list (map box_count (mail_sent M (world E)))"
proof -
  have T: "blocking_runs T" "mail_runtime T M" using assms(1) by (simp_all add: mail_host_def)
  have "chain counting.effect (map fst (calls E)) \<lparr> counter = 0 \<rparr> (actor E)"
    by (rule counting.run_actor_folds [OF T(1) assms(2,4)])
  then have "chain (box_effect raises (\<lambda>_ _ _. False) (\<lambda>_ _ _. False)) (recvs (calls E)) \<lparr> counter = 0 \<rparr> (actor E)"
    by (rule counting.effect_recvs [rotated]) simp
  from count_chain [OF this] show ?thesis
    using run_actor_all_mail [OF mail_host_hyps [OF assms(1) count_well_behaved count_mail_user [OF T(2)]] assms(3,4)]
    by simp
qed

section \<open>More tasks than permits\<close>

datatype max_message = Spawn usize

definition max_actor :: "(unit, 'w) actor_impl" where
  "max_actor = (default_actor ''MaxActors'')\<lparr>impl_max_anonymous_actors := 2\<rparr>"

fun spawn_sleepers :: "(unit, max_message, 'w) tokio \<Rightarrow> nat \<Rightarrow> (unit, 'w cworld) io" where
  "spawn_sleepers T 0 = ret ()"
| "spawn_sleepers T (Suc n) =
     io_bind (anonymous_task T (await (sleep T (from_secs 1)))) (\<lambda>_. spawn_sleepers T n)"

fun max_handle :: "(unit, max_message, 'w) tokio \<Rightarrow> max_message \<Rightarrow> (unit, (unit, 'w) env) io" where
  "max_handle T (Spawn n) = in_ctx (spawn_sleepers T (unat n))"

definition max_ops :: "(unit, max_message, 'w) tokio \<Rightarrow> (unit, max_message, 'w) actor_ops" where
  "max_ops T = with_handlers max_actor (max_handle T) (\<lambda>_. panic) (\<lambda>_. panic)"

definition send_low_amount_of_messages_to_actor :: "(unit, max_message, 'w) tokio \<Rightarrow> (unit, 'w) io" where
  "send_low_amount_of_messages_to_actor T =
     io_bind (start T (max_ops T) ()) (\<lambda>addr.
     io_bind (send_async T addr (Spawn 1)) (\<lambda>sent.
     io_bind (unwrap_result sent) (\<lambda>_.
     io_bind (into_future T addr) (\<lambda>_. ret ()))))"

text \<open>The promise of \<open>Semaphore::try_acquire_owned\<close>, in terms of the free permits: it takes one where there is one. No
  permit comes back while a handler runs.\<close>

definition sem_takes :: "('a, 'm, 'w) tokio \<Rightarrow> handle \<Rightarrow> ('w \<Rightarrow> nat) \<Rightarrow> bool" where
  "sem_takes T h free \<longleftrightarrow>
     (\<forall>w p w'. sem_try_acquire T h w = (Inr p, w') \<longrightarrow> free w = Suc (free w')) \<and>
     (\<forall>w w'. sem_try_acquire T h w = (Inl NoPermits, w') \<longrightarrow> free w = 0 \<and> free w' = 0) \<and>
     (\<forall>n w rx w'. watch_subscribe T n w = (rx, w') \<longrightarrow> free w' = free w) \<and>
     (\<forall>t w k w'. spawn T t w = (k, w') \<longrightarrow> free w' = free w)"

lemma sem_takesD:
  assumes "sem_takes T h free"
  shows "sem_try_acquire T h w = (Inr p, w') \<Longrightarrow> free w = Suc (free w')"
    and "sem_try_acquire T h w = (Inl NoPermits, w') \<Longrightarrow> free w = 0 \<and> free w' = 0"
    and "watch_subscribe T n w = (rx, w') \<Longrightarrow> free w' = free w"
    and "spawn T t w = (k, w') \<Longrightarrow> free w' = free w"
  using assms unfolding sem_takes_def by blast+

definition permits_taken :: "('w \<Rightarrow> nat) \<Rightarrow> nat \<Rightarrow> 'w cworld \<Rightarrow> 'w cworld \<Rightarrow> bool" where
  "permits_taken free n cw cw' \<longleftrightarrow> (\<exists>k. fst cw' = (fst cw)\<lparr>overflow_anonymous_actors := k\<rparr> \<and>
     unat k = unat (overflow_anonymous_actors (fst cw)) + (n - free (snd cw)) \<and> free (snd cw') = free (snd cw) - n)"

lemma acquire_permit_taken:
  assumes "sem_takes T (max_anonymous_actors c) free" "acquire_anonymous_permit T (c, w) = Some (Done p, cw')"
  shows "permits_taken free 1 (c, w) cw'"
proof (cases "sem_try_acquire T (max_anonymous_actors c) w")
  case (Pair r w1)
  show ?thesis
  proof (cases r)
    case (Inr q)
    then show ?thesis
      using assms(2) Pair sem_takesD(1) [OF assms(1), of w q w1]
      by (auto simp: acquire_anonymous_permit_def io_simps permits_taken_def intro!: exI [of _ "overflow_anonymous_actors c"])
  next
    case (Inl e)
    then have e: "e = NoPermits"
      using assms(2) Pair by (cases e) (auto simp: acquire_anonymous_permit_def io_simps)
    with Inl Pair have f: "free w = 0" "free w1 = 0" using sem_takesD(2) [OF assms(1)] by simp_all
    from assms(2) Pair Inl e
    have "unat (overflow_anonymous_actors c) + 1 < 2 ^ 64"
      and cw': "cw' = (c\<lparr>overflow_anonymous_actors := overflow_anonymous_actors c + 1\<rparr>, w1)"
      by (auto simp: acquire_anonymous_permit_def io_simps split: if_splits)
    then show ?thesis
      by (auto simp: permits_taken_def f unat_usize_Suc intro!: exI [of _ "overflow_anonymous_actors c + 1"])
  qed
qed

lemma anonymous_task_taken:
  assumes "sem_takes T (max_anonymous_actors c) free" "anonymous_task T u (c, w) = Some (Done r, cw')"
  shows "permits_taken free 1 (c, w) cw'"
proof -
  obtain rx w1 where s: "watch_subscribe T (notifier c) w = (rx, w1)" by (cases "watch_subscribe T (notifier c) w") simp
  from assms(2) s obtain p c2 w2 where a: "acquire_anonymous_permit T (c, w1) = Some (Done p, (c2, w2))"
    and cw': "cw' = (c2, snd (spawn T (AnonymousUnit (actor_ref_clone (address c)) rx p u) w2))"
    by (auto simp: anonymous_task_def io_simps split: option.splits res.splits prod.splits)
  have "free w1 = free w" by (rule sem_takesD(3) [OF assms(1) s])
  moreover have "free (snd cw') = free w2"
    unfolding cw' using sem_takesD(4) [OF assms(1)] by (metis prod.collapse snd_conv)
  ultimately show ?thesis
    using acquire_permit_taken [OF assms(1) a] by (simp add: permits_taken_def cw')
qed

lemma spawn_sleepers_taken:
  assumes "sem_takes T (max_anonymous_actors c) free" "spawn_sleepers T n (c, w) = Some (Done (), cw')"
  shows "permits_taken free n (c, w) cw'"
  using assms
proof (induction n arbitrary: c w)
  case 0
  then show ?case by (auto simp: ret_run permits_taken_def intro!: exI [of _ "overflow_anonymous_actors c"])
next
  case (Suc n)
  from Suc.prems(2) obtain r c1 w1 where a: "anonymous_task T (await (sleep T (from_secs 1))) (c, w) = Some (Done r, (c1, w1))"
    and rest: "spawn_sleepers T n (c1, w1) = Some (Done (), cw')"
    by (auto simp: io_bind_run split: option.splits res.splits)
  note 1 = anonymous_task_taken [OF Suc.prems(1) a]
  then have "max_anonymous_actors c1 = max_anonymous_actors c" by (auto simp: permits_taken_def)
  with Suc.IH [OF _ rest] Suc.prems(1) have 2: "permits_taken free n (c1, w1) cw'" by simp
  from 1 obtain k1 where 1: "c1 = c\<lparr>overflow_anonymous_actors := k1\<rparr>" "free w1 = free w - 1"
    "unat k1 = unat (overflow_anonymous_actors c) + (1 - free w)" by (auto simp: permits_taken_def)
  from 2 obtain k2 where "fst cw' = c1\<lparr>overflow_anonymous_actors := k2\<rparr>" "free (snd cw') = free w1 - n"
    "unat k2 = unat (overflow_anonymous_actors c1) + (n - free w1)" by (auto simp: permits_taken_def)
  with 1 show ?case by (cases "free w") (auto simp: permits_taken_def intro!: exI [of _ k2])
qed

text \<open>C37: a message that asks for \<open>n\<close> tasks takes as many permits as are free, up to \<open>n\<close>, and the overflow count of the
  actor grows by exactly the number of tasks that got none; nothing else of the context changes.\<close>

theorem max_actors_overflow:
  assumes "sem_takes T (max_anonymous_actors c) free"
    and "handle_send (max_ops T) (Spawn n) (a, c, w) = Some (Done (), (a', c', w'))"
  shows "\<exists>k. c' = c\<lparr>overflow_anonymous_actors := k\<rparr> \<and>
    unat k = unat (overflow_anonymous_actors c) + (unat n - free w) \<and> free w' = free w - unat n"
proof -
  have "spawn_sleepers T (unat n) (c, w) = Some (Done (), (c', w'))"
    using assms(2) by (auto simp: max_ops_def in_ctx_run split: option.splits)
  from spawn_sleepers_taken [OF assms(1) this] show ?thesis by (simp add: permits_taken_def)
qed

end
