(* ===== verification/Runs.thy ===== *)
theory Runs
  imports Witnesses Machine Supervised Tcp_Examples Examples Debug Ping Suites Boxes Relays Graceful_Exit
begin

text \<open>
  One run for every property of the machine, of awaited actors, of bridges and connections, of the examples and the tests: each witness
  applies its property to the sample runtime of Sample.thy at a concrete start.
\<close>

section \<open>The machine and awaited actors\<close>

theorem run_actor_refines_witness:
  "\<exists>E as. run_actor sample adder sample_start = Some (Done (), E) \<and>
    machine_path \<lparr> phase = Fresh, inbox = [letter 3, letter 0, letter 4], sealed = False \<rparr> as
      \<lparr> phase = Ended, inbox = [], sealed = True \<rparr> \<and> seen as = map fst (calls E)"
proof -
  obtain E where E: "run_actor sample adder sample_start = Some (Done (), E)"
    using sample_start_done by (rule run_doneE) simp
  show ?thesis
    using run_actor_refines [OF sample_hyps E [unfolded sample_start_def]] E
    by (auto simp: sample_view_simps letters_def put_def empty_world_def letter_def)
qed

theorem run_supervised_actor_refines_witness:
  "\<exists>E as. run_supervised_actor sample adder sample_child = Some (Done (), E) \<and>
    machine_path \<lparr> phase = Fresh, inbox = [letter 3, letter 0, letter 4], sealed = False \<rparr> as
      \<lparr> phase = Ended, inbox = [], sealed = True \<rparr> \<and> seen as = map fst (calls E)"
proof -
  obtain E where E: "run_supervised_actor sample adder sample_child = Some (Done (), E)"
    using sample_child_done by (rule run_doneE) simp
  show ?thesis
    using run_supervised_actor_refines [OF sample_hyps E [unfolded sample_child_def]] E
    by (auto simp: sample_view_simps letters_def put_def empty_world_def letter_def)
qed

text \<open>A start with a message and the request of a caller that awaits the actor.\<close>

definition awaited :: "'m list \<Rightarrow> ('a, 'm) sample_world" where
  "awaited ms = put (await_request 7) (letters ms)"

definition awaited_start :: "(nat, nat, adder_world) executor" where
  "awaited_start = executor_new 5 sample_ctx (awaited [3])"

lemma awaited_start_done: "run_done (run_actor sample adder awaited_start)"
  by code_simp

theorem run_actor_hands_over_witness:
  "\<exists>E (F :: (nat, nat, adder_world) executor). run_actor sample adder awaited_start = Some (Done (), E) \<and>
    actor E = actor F \<and> world E = (case last_subscriber (recvs (calls E)) (into_future_sender sample_ctx) of
        None \<Rightarrow> world F | Some s \<Rightarrow> snd (oneshot_send_actor sample (into_inner s) (actor E) (world F)))"
proof -
  obtain E where E: "run_actor sample adder awaited_start = Some (Done (), E)"
    using awaited_start_done by (rule run_doneE) simp
  show ?thesis
    using run_actor_hands_over [OF sample_blocking adder_well_behaved E [unfolded awaited_start_def]] E
    by blast
qed

theorem ctx_drop_after_run_witness:
  "\<exists>E. run_actor sample adder awaited_start = Some (Done (), E) \<and>
    ctx_drop sample (\<lambda>_ _. False) (\<lambda>_. watchers) (ectx E) (world E) =
      Some (if watchers (world E) = 0 then Done () else Panic, world E)"
proof -
  obtain E where E: "run_actor sample adder awaited_start = Some (Done (), E)"
    using awaited_start_done by (rule run_doneE) simp
  show ?thesis
    using ctx_drop_after_run [OF sample_hyps E [unfolded awaited_start_def], of "\<lambda>_ _. False" "\<lambda>_. watchers"] E
    by auto
qed

text \<open>The sample runtime sends nothing of its own, and everything in it comes to an end.\<close>

lemma adder_process:
  "\<exists>x E'. process_message sample adder b E = Some (x, E') \<and> accepted (world E') = accepted (world E) \<and>
     shut (world E') = shut (world E) \<and> told (world E') = told (world E) \<and> queue (world E') = queue (world E) \<and>
     (x \<noteq> Panic \<longrightarrow> watchers (world E') = watchers (world E)) \<and> (box_ok b \<longrightarrow> x \<noteq> Panic)"
proof (cases b)
  case (BoxConfidential e)
  have 1: ?thesis if "e = ConfidentialEnvelope (Some (InternalShutdown s))" for s
    using that
    by (simp add: BoxConfidential process_message_def callback_def log_call_def deliver_nonblocking_def
        deliver_confidential_def confidential_unwrap_def shutdown_handler_def adder_simps io_simps resolve_await_def
        resolve_ready_def subscribe_and_stop_def subscribe_and_wait_def set_into_future_sender_def sample_def
        split: option.split)
  have 2: ?thesis if "e = ConfidentialEnvelope (Some (InternalAnonymous c))" for c
    using that
    by (cases c) (simp_all add: BoxConfidential process_message_def callback_def log_call_def deliver_nonblocking_def
        deliver_confidential_def confidential_unwrap_def adder_simps io_simps resolve_await_def resolve_ready_def)
  have 3: ?thesis if "e = ConfidentialEnvelope None"
    using that
    by (simp add: BoxConfidential process_message_def callback_def log_call_def deliver_nonblocking_def
        deliver_confidential_def confidential_unwrap_def adder_simps io_simps)
  consider s where "e = ConfidentialEnvelope (Some (InternalShutdown s))"
    | c where "e = ConfidentialEnvelope (Some (InternalAnonymous c))" | "e = ConfidentialEnvelope None"
    by (metis confidential_envelope.exhaust internal.exhaust option.exhaust)
  then show ?thesis by cases (rule 1 2 3, assumption)+
next
  case (BoxEnvelope e)
  then show ?thesis
    by (cases "env_msg e") (simp_all add: process_message_def callback_def log_call_def deliver_nonblocking_def
        deliver_envelope_def envelope_unwrap_def adder_simps io_simps resolve_await_def resolve_ready_def)
next
  case (BoxResponse r)
  then show ?thesis
    by (cases "env_msg (resp_msg r)"; cases "resp_tx r")
      (simp_all add: process_message_def callback_def log_call_def deliver_nonblocking_def
        deliver_response_def envelope_unwrap_def adder_simps io_simps resolve_await_def resolve_ready_def unwrap_def
        sample_def)
next
  case (BoxAsyncResponse r)
  then show ?thesis
    by (cases "env_msg (async_msg r)"; cases "async_tx r")
      (simp_all add: process_message_def callback_def log_call_def deliver_nonblocking_def answer_block_def
        deliver_async_response_def envelope_unwrap_def adder_simps io_simps resolve_await_def resolve_future_def
        unwrap_def sample_def)
qed

lemma adder_check:
  "\<exists>x E'. check_anonymous_actors sample adder E = Some (x, E') \<and> world E' = world E"
proof -
  have a: "acquire_and_drop sample sem n F = Some (Done (), F)" for sem n and F :: "(nat, nat, adder_world) executor"
    by (simp add: acquire_and_drop_def io_simps sample_def)
  show ?thesis
    by (simp add: check_anonymous_actors_def a set_overflow_def io_simps)
qed

lemma adder_live: "live sample adder h sample_view (\<lambda>_. 0)"
proof -
  have "calm sample_view (\<lambda>_. 0) (world E) (world E')" if "process_message sample adder b E = Some (x, E')" for b E x E'
    using adder_process [of b E] that by (auto simp: calm_def sample_view_simps)
  then have p: "keeps (calm_run sample_view (\<lambda>_. 0)) (process_message sample adder b) \<and>
      (\<forall>E. process_message sample adder b E \<noteq> None)" for b
    using adder_process [of b] by (auto simp: keeps_def calm_run_def) (metis option.distinct(1))
  have "world E' = world E" if "check_anonymous_actors sample adder E = Some (x, E')" for E x E'
    using adder_check [of E] that by auto
  then have c: "keeps (calm_run sample_view (\<lambda>_. 0)) (check_anonymous_actors sample adder) \<and>
      (\<forall>E. check_anonymous_actors sample adder E \<noteq> None)"
    using adder_check by (auto simp: keeps_def calm_run_def calm_def) (metis option.distinct(1))
  have hooks: "keeps (calm_run sample_view (\<lambda>_. 0)) (callback cb (ret ()))" for cb
    by (auto simp: keeps_def callback_def log_call_def io_simps calm_run_def calm_def)
  show ?thesis
    unfolding live_def
    by (intro conjI allI p [THEN conjunct1] p [THEN conjunct2, rule_format] c [THEN conjunct1]
        c [THEN conjunct2, rule_format])
      (auto simp: adder_simps hooks ret_run sample_view_simps sample_def take_first_def calm_def split: list.splits if_splits)
qed

theorem stopping_ends_witness: "\<exists>x E'. stopping sample adder (awaited_start\<lparr>ectx := sample_ctx\<lparr>state := Stopping\<rparr>\<rparr>) = Some (x, E')"
  by (rule stopping_ends [OF sample_hyps adder_live])
    (simp add: sample_view_simps awaited_start_def executor_new_def awaited_def put_def letters_def empty_world_def)

theorem awaited_actor_ends_witness:
  "\<exists>x E. run_actor sample adder (executor_new 5 sample_ctx (awaited [3])) = Some (x, E)"
  by (rule awaited_actor_ends [OF sample_hyps adder_live, where tx = 7])
    (simp_all add: sample_view_simps awaited_def put_def letters_def empty_world_def)

text \<open>A child in the middle of its work when the value of the watch channel is \<open>Shutdown\<close>.\<close>

lemma adder_told: "told_to_stop sample adder rx h sample_view (\<lambda>_. 0) (\<lambda>w. told w = Some Shutdown)"
proof -
  have "keeps (still (\<lambda>w. told w = Some Shutdown)) (process_message sample adder b)" for b
    using adder_process [of b] by (auto simp: keeps_def still_def) (metis option.inject prod.inject)
  moreover have "keeps (still (\<lambda>w. told w = Some Shutdown)) (check_anonymous_actors sample adder)"
    using adder_check by (auto simp: keeps_def still_def) (metis option.inject prod.inject)
  moreover have "keeps (still (\<lambda>w. told w = Some Shutdown) :: (nat, nat, adder_world) executor \<Rightarrow> _) (callback cb (ret ()))" for cb
    by (auto simp: keeps_def callback_def log_call_def io_simps still_def)
  ultimately show ?thesis
    unfolding told_to_stop_def
    by (auto simp: adder_simps sample_view_simps sample_def take_first_def calm_def split: list.splits if_splits)
qed

theorem told_child_ends_witness:
  "\<exists>x E. run_supervised_actor sample adder (executor_child 5 sample_ctx 0 ((letters [3, 4])\<lparr>told := Some Shutdown\<rparr>)) = Some (x, E)"
  by (rule told_child_ends [OF sample_hyps adder_live adder_told])
    (simp_all add: sample_view_simps put_def letters_def empty_world_def)

text \<open>An aborted actor, whose closed mailbox is always ready, with a child that does not end.\<close>

definition aborted_sample :: "(nat, nat, adder_world) tokio" where
  "aborted_sample = sample\<lparr>select_stopping := (\<lambda>mb n w. Some (StopRecv None, w)), watch_is_closed := (\<lambda>h w. False)\<rparr>"

theorem stopping_aborted_diverges_witness:
  "stopping aborted_sample adder (executor_new 5 (sample_ctx\<lparr>state := Stopping\<rparr>) empty_world) = None"
  by (rule stopping_aborted_diverges) (simp_all add: aborted_sample_def)

section \<open>What handlers make of the struct\<close>

lemma sample_answers_run: "answers_run sample"
  by (auto simp: answers_run_def keeps_def same_struct_def sample_def split: option.splits res.splits) blast

lemma sample_mail_host: "mail_host sample h sample_view"
  by (simp add: mail_host_def sample_blocking sample_runtime sample_receiver sample_select)

lemma adder_effects:
  "struct_effects adder (\<lambda>cb a a'. a' = a) (\<lambda>m a a'. a' = a + m) (\<lambda>m a a'. a' = a) (\<lambda>m a a'. a' = a)"
  by unfold_locales
    (auto simp: keeps_def triple_def adder_simps env_struct_def same_struct_def ret_run split: if_splits)

theorem run_actor_struct_witness:
  "\<exists>E. run_actor sample adder sample_start = Some (Done (), E) \<and>
    chain (box_effect (\<lambda>m a a'. a' = a + m) (\<lambda>m a a'. a' = a) (\<lambda>m a a'. a' = a))
      ([letter 3, letter 0, letter 4] @ drop 3 (accepted (world E))) 5 (actor E)"
proof -
  obtain E where E: "run_actor sample adder sample_start = Some (Done (), E)"
    using sample_start_done by (rule run_doneE) simp
  show ?thesis
    using run_actor_struct [OF adder_effects sample_hyps sample_answers_run E [unfolded sample_start_def]] E
    by (simp add: sample_view_simps letters_def put_def empty_world_def letter_def numeral_3_eq_3)
qed

lemma adder_answering: "answering sample adder answered (\<lambda>m a a'. a' = (if m = 0 then a else a + m))
    (\<lambda>m a v a'. v = a \<and> a' = a) (\<lambda>m a reply a'. reply = Some (a + m) \<and> a' = a)"
  by unfold_locales
    (auto simp: keeps_def adder_simps ret_run answers_env_def io_simps sample_def split: if_splits)

lemma adder_answer_host: "answer_host sample answered"
proof -
  have "answer_runtime sample answered"
    by (auto simp: answer_runtime_def takings_keep_def keeps_def same_answers_def io_simps sample_def
      take_first_def put_def split: if_splits list.splits option.splits)
  then show ?thesis by (simp add: answer_host_def sample_blocking)
qed

definition asked_start :: "(nat, nat, adder_world) executor" where
  "asked_start = executor_new 5 sample_ctx (fold put
     [BoxResponse (response_new (envelope_new 1) 4), letter 3, BoxAsyncResponse (async_response_new (envelope_new 10) 9),
      letter 0] empty_world)"

lemma asked_start_done:
  "run_done (run_actor sample adder asked_start)"
  "map_option (answered \<circ> world \<circ> snd) (run_actor sample adder asked_start) = Some [(4, 5), (9, 18)]"
  by code_simp+

theorem run_actor_answers_witness:
  "\<exists>E ans. run_actor sample adder asked_start = Some (Done (), E) \<and> answered (world E) = [(4, 5), (9, 18)] \<and>
    list_all2 answered_by (queue (world asked_start) @ drop 4 (accepted (world E))) ans \<and> answered (world E) = concat ans"
proof -
  obtain E where E: "run_actor sample adder asked_start = Some (Done (), E)"
    using asked_start_done(1) by (rule run_doneE) simp
  have "length (accepted (world asked_start)) = 4" "answered (world asked_start) = []"
    by (simp_all add: asked_start_def executor_new_def put_def empty_world_def)
  then show ?thesis
    using run_actor_answers [OF adder_answering adder_answer_host sample_hyps E [unfolded asked_start_def]] E
      asked_start_done(2)
    by (auto simp: sample_view_simps asked_start_def executor_new_def Let_def)
qed

text \<open>A caller that asks the adding actor for its sum; while it waits, the actor runs.\<close>

definition asking_caller :: "(nat, nat, adder_world) tokio" where
  "asking_caller = sample\<lparr>oneshot_recv := (\<lambda>h w. case run_actor sample adder (executor_new 5 sample_ctx w) of
       Some (Done (), E) \<Rightarrow> (case map_of (answered (world E)) h of
           Some v \<Rightarrow> Some (Inr v, world E) | None \<Rightarrow> Some (Inl (), world E))
     | _ \<Rightarrow> None)\<rparr>"

definition question_7 :: "nat boxed" where
  "question_7 = BoxResponse (response_new (envelope_new 1) 7)"

lemma asked_run:
  "run_done (run_actor sample adder (executor_new 5 sample_ctx (put question_7 (letters [3, 0]))))"
  "map_option fst (ask asking_caller (ActorRef 0) 1 (letters [3, 0])) = Some (Done (Inr 8))"
  "map_option (accepted \<circ> world \<circ> snd) (run_actor sample adder (executor_new 5 sample_ctx (put question_7 (letters [3, 0])))) =
    Some [letter 3, letter 0, question_7]"
  by code_simp+

theorem ask_gets_reply_witness:
  "\<exists>E s'. run_actor sample adder (executor_new 5 sample_ctx (put question_7 (letters [3, 0]))) = Some (Done (), E) \<and>
    ask asking_caller (ActorRef 0) 1 (letters [3, 0]) = Some (Done (Inr 8), s') \<and>
    (\<exists>before after a1 g1 a2. accepted (world E) = before @ question_7 # after \<and>
      chain (box_answer (\<lambda>m a a'. a' = (if m = 0 then a else a + m)) (\<lambda>m a v a'. v = a \<and> a' = a)
        (\<lambda>m a reply a'. reply = Some (a + m) \<and> a' = a)) before (5, []) (a1, g1) \<and> 8 = a1 \<and> a2 = a1)"
proof -
  let ?w = "put question_7 (letters [3, 0]) :: adder_world"
  obtain E where E: "run_actor sample adder (executor_new 5 sample_ctx ?w) = Some (Done (), E)"
    using asked_run(1) by (rule run_doneE) simp
  obtain s' where s': "ask asking_caller (ActorRef 0) 1 (letters [3, 0]) = Some (Done (Inr 8), s')"
    using asked_run(2) by auto
  have w: "accepted ?w = [letter 3, letter 0, question_7]" "queue ?w = accepted ?w" "answered ?w = []"
    by (simp_all add: letters_def put_def empty_world_def letter_def)
  have A: "accepted (world E) = accepted ?w" using asked_run(3) E w(1) by simp
  have c: "oneshot_channel asking_caller u = (7, u)" for u
    by (simp add: asking_caller_def sample_def)
  have p: "mpsc_send asking_caller 0 question_7 (letters [3, 0]) = Some (Inr (), ?w)"
    by (simp add: asking_caller_def sample_def letters_def put_def empty_world_def)
  have r: "oneshot_recv asking_caller h ?w = (case map_of (answered (world E)) h of
       Some v \<Rightarrow> Some (Inr v, world E) | None \<Rightarrow> Some (Inl (), world E))" for h
    by (simp add: asking_caller_def E split: unit.split)
  have fin: "s' = world E"
  proof -
    from s' have "await_answer asking_caller 7 ?w = Some (Done (Inr 8), s')"
      using p [unfolded question_7_def] unfolding ask_def question_7_def
      by (simp add: io_bind_run call_run await_run c)
    then show ?thesis by (auto simp: await_answer_def io_bind_run await_run ret_run r split: option.splits)
  qed
  have seen: "(h, x) \<in> set (answered u')" if "oneshot_recv asking_caller h u = Some (Inr x, u')" for h u x u'
  proof -
    from that have "map_of (answered u') h = Some x"
      unfolding asking_caller_def
      by (simp split: option.split_asm prod.split_asm res.split_asm unit.split_asm)
    then show ?thesis by (simp add: map_of_SomeD)
  qed
  have "\<exists>before after a1 g1 a2. accepted (world E) = before @ question_7 # after \<and>
      chain (box_answer (\<lambda>m a a'. a' = (if m = 0 then a else a + m)) (\<lambda>m a v a'. v = a \<and> a' = a)
        (\<lambda>m a reply a'. reply = Some (a + m) \<and> a' = a)) before (5, answered ?w) (a1, g1) \<and> 8 = a1 \<and> a2 = a1"
  proof (rule ask_gets_reply [OF adder_answering adder_answer_host sample_hyps E seen s'])
    show "accepted (world E) = mail_pending sample_view ?w @
        drop (length (mail_sent sample_view ?w)) (mail_sent sample_view (world E))"
      using w A by (simp add: sample_view_simps)
    show "b = question_7" if "b \<in> set (accepted (world E))" "fst (oneshot_channel asking_caller (letters [3, 0])) \<in> senders b"
      for b
      using that w A by (auto simp: letter_def)
    show "(fst (oneshot_channel asking_caller (letters [3, 0])), x) \<notin> set (answered ?w)" for x
      using w(3) by simp
  qed (simp_all add: fin c question_7_def)
  with E s' w(3) show ?thesis by auto
qed

definition counter_start :: "(counter_actor, counter_msg, (counter_actor, counter_msg) sample_world) executor" where
  "counter_start = executor_new \<lparr> inner = 0 \<rparr> sample_ctx (awaited [Add 3, Add 4])"

lemma counter_start_done: "run_done (run_actor sample (counter_ops sample) counter_start)"
  by code_simp

theorem counter_sum_witness:
  "\<exists>E. run_actor sample (counter_ops sample) counter_start = Some (Done (), E) \<and>
    unat (inner (actor E)) = sum_list (map box_amount (accepted (world E)))"
proof -
  obtain E where E: "run_actor sample (counter_ops sample) counter_start = Some (Done (), E)"
    using counter_start_done by (rule run_doneE) simp
  have "unat (inner (actor E)) = sum_list (map box_amount (mail_sent sample_view (world E)))"
    by (rule counter_sum [OF sample_mail_host sample_answers_run _ E [unfolded counter_start_def]])
      (simp add: sample_view_simps awaited_def put_def letters_def empty_world_def)
  with E show ?thesis by (auto simp: sample_view_simps)
qed

text \<open>The counting actor of the tests is sent two counts, and told to stop before the second.\<close>

definition count_start :: "(count_actor, count_message, (count_actor, count_message) sample_world) executor" where
  "count_start = executor_new \<lparr> counter = 0 \<rparr> sample_ctx (letters [Count, StopCount, Count])"

lemma count_start_done: "run_done (run_actor sample (count_ops sample) count_start)"
  by code_simp

theorem graceful_count_witness:
  "\<exists>E. run_actor sample (count_ops sample) count_start = Some (Done (), E) \<and>
    unat (counter (actor E)) = sum_list (map box_count (accepted (world E)))"
proof -
  obtain E where E: "run_actor sample (count_ops sample) count_start = Some (Done (), E)"
    using count_start_done by (rule run_doneE) simp
  have "unat (counter (actor E)) = sum_list (map box_count (mail_sent sample_view (world E)))"
    by (rule graceful_count [OF sample_mail_host sample_answers_run _ E [unfolded count_start_def]])
      (simp add: sample_view_simps put_def letters_def empty_world_def)
  with E show ?thesis by (auto simp: sample_view_simps)
qed

text \<open>Three tasks for two permits.\<close>

lemma sample_takes: "sem_takes sample h (\<lambda>w. unat (free_permits w))"
proof -
  have "unat p = Suc (unat (p - 1))" if "p \<noteq> 0" for p :: usize using that by (simp add: unat_minus_one unat_gt_0)
  then show ?thesis by (auto simp: sem_takes_def sample_def split: if_splits)
qed

definition max_start :: "(unit, (unit, max_message) sample_world) env" where
  "max_start = ((), sample_ctx, empty_world)"

theorem max_actors_overflow_witness:
  "\<exists>c' w'. handle_send (max_ops sample) (Spawn 3) max_start = Some (Done (), ((), c', w')) \<and>
    unat (overflow_anonymous_actors c') = 1 \<and> free_permits w' = 0"
proof -
  have "run_done (handle_send (max_ops sample) (Spawn 3) max_start)" by code_simp
  then obtain c' w' where run: "handle_send (max_ops sample) (Spawn 3) max_start = Some (Done (), ((), c', w'))"
    by (rule run_doneE) (metis prod.collapse unit.exhaust)
  from max_actors_overflow [OF sample_takes run [unfolded max_start_def]] run show ?thesis
    by (auto simp: sample_ctx_def empty_world_def unat_eq_0)
qed

section \<open>The actor of the tests\<close>

lemma sample_makes: "mail_makes sample sample_view"
  by (auto simp: mail_makes_def keeps_def call_run sample_def sample_view_simps mail_grows_def put_def)

lemma sample_close: "mail_grows sample_view w (mpsc_close sample h w)"
  by (simp add: sample_def sample_view_simps mail_grows_def)

definition debug_start_run ::
  "test_message list \<Rightarrow> (debuggable, debug_message, (debuggable, debug_message) sample_world) executor" where
  "debug_start_run ms = executor_new (debuggable_default ParentActor) sample_ctx (awaited (map Test ms))"

lemma debug_run_done: "run_done (run_actor sample (debug_ops sample) (debug_start_run [Normal, StopNow, Normal, Normal]))"
  by code_simp

theorem debug_records_witness:
  "\<exists>E. run_actor sample (debug_ops sample) (debug_start_run [Normal, StopNow, Normal, Normal]) = Some (Done (), E) \<and>
    dbg_state (actor E) = concat (map lifecycle (map fst (calls E))) \<and>
    dbg_messages (actor E) = concat (map box_noted (accepted (world E)))"
proof -
  obtain E where E: "run_actor sample (debug_ops sample) (debug_start_run [Normal, StopNow, Normal, Normal]) = Some (Done (), E)"
    using debug_run_done by (rule run_doneE) simp
  have "mail_pending sample_view (awaited (map Test [Normal, StopNow, Normal, Normal])) =
      mail_sent sample_view (awaited (map Test [Normal, StopNow, Normal, Normal]))"
    by (simp add: sample_view_simps awaited_def put_def letters_def empty_world_def)
  from debug_records [OF sample_mail_host sample_makes sample_close sample_answers_run this E [unfolded debug_start_run_def]]
  show ?thesis using E by (auto simp: sample_view_simps)
qed

text \<open>
  Three of the tests as runs: with the messages of the test and the request of the awaiting caller in the mailbox,
  the actor ends as the script of the test expects.
\<close>

definition passes :: "(unit, debuggable) io \<Rightarrow> test_message list \<Rightarrow> bool" where
  "passes script ms \<longleftrightarrow> (case run_actor sample (debug_ops sample) (debug_start_run ms) of
       Some (Done _, E) \<Rightarrow> run_done (script (actor E)) | _ \<Rightarrow> False)"

lemma tests_pass:
  "passes complition_script []"
  "passes (stopped_script StopNow) [Normal, StopNow, Normal, Normal]"
  "passes (stopped_script AbortNow) [Normal, AbortNow, Normal, Normal]"
  by code_simp+

text \<open>The test that is to panic does.\<close>

lemma panic_test_panics:
  "case run_actor sample (debug_ops sample) (debug_start_run [Normal, PanicNow, Normal, Normal]) of
     Some (Panic, E) \<Rightarrow> True | _ \<Rightarrow> False"
  by code_simp

section \<open>Boxes\<close>

text \<open>An actor that leaves its answers to tasks, and no permits.\<close>

definition asker :: "(nat, nat, adder_world) actor_ops" where
  "asker = adder\<lparr>handle_ask := \<lambda>m. in_ctx (io_bind (anonymous_handle sample (ret m)) (\<lambda>h. ret (Task h)))\<rparr>"

lemma sample_sem_open: "sem_open sample"
  by (simp add: sem_open_def sample_def)

lemma asker_asks:
  assumes "handle_ask asker m (a, c, w) = Some (x, (a', c', w'))" "unat (overflow_anonymous_actors c) + 2 < 2 ^ 64"
  shows "x \<noteq> Panic" "unat (overflow_anonymous_actors c') \<le> unat (overflow_anonymous_actors c) + 1"
  using assms
  by (auto simp: asker_def anonymous_handle_def acquire_anonymous_permit_def io_simps sample_def unat_word_ariths
      split: if_splits)

lemma asker_run:
  "\<exists>x a c w. send_message sample asker (BoxResponse (response_new (envelope_new 3) 7))
     (5, sample_ctx, empty_world\<lparr>free_permits := 0\<rparr>) = Some (Done x, (a, c, w)) \<and> overflow_anonymous_actors c = 2"
  by (simp add: deliver_response_def envelope_unwrap_def unwrap_def asker_def anonymous_handle_def anonymous_task_def
      acquire_anonymous_permit_def io_simps sample_def sample_ctx_def empty_world_def)

theorem ok_box_delivered_witness:
  "safe (\<lambda>(a, c, _). unat (overflow_anonymous_actors c) + 2 < 2 ^ 64)
    (send_message sample asker (BoxResponse (response_new (envelope_new 3) 7))) \<and>
   (\<exists>x a c w. send_message sample asker (BoxResponse (response_new (envelope_new 3) 7))
     (5, sample_ctx, empty_world\<lparr>free_permits := 0\<rparr>) = Some (Done x, (a, c, w)) \<and> overflow_anonymous_actors c = 2)"
proof
  let ?Q = "\<lambda>(a :: nat, c, _ :: adder_world). unat (overflow_anonymous_actors c) + 2 < 2 ^ 64"
  have "safe ?Q (handle_ask asker m)" for m
    using asker_asks(1) [of m] by (fastforce simp: safe_def)
  moreover have "triple ?Q (handle_ask asker m) (\<lambda>res (_, c, _). case res of Reply _ \<Rightarrow> True | Task _ \<Rightarrow> room_for_task c)" for m
    using asker_asks(2) [of m] by (fastforce simp: triple_def room_for_task_def split: ask_result.split)
  ultimately show "safe ?Q (send_message sample asker (BoxResponse (response_new (envelope_new 3) 7)))"
    by (intro ok_box_delivered sample_sem_open) (auto simp: safe_def asker_def adder_simps)
qed (rule asker_run)

section \<open>Worlds and examples\<close>

definition broadcaster_start :: "(multi_actor, multi_message, (multi_actor, multi_message) sample_world) executor" where
  "broadcaster_start = executor_child (Broadcaster Map.empty) sample_ctx 0
     ((letters [Insert 0 (Writer 3), Insert 1 (Writer 4), Remove 0])\<lparr>told := Some Shutdown\<rparr>)"

definition any_typed :: "('x, 'w) typed" where
  "any_typed = \<lparr> typed_channel = (\<lambda>n w. (3, w)), typed_try_send = (\<lambda>h x w. (Inr (), w)),
     typed_send = (\<lambda>h x w. Some (Inr (), w)), typed_send_timeout = (\<lambda>h x d w. Some (Inr (), w)) \<rparr>"

definition any_results :: "(unit, 'w) results" where
  "any_results = \<lparr> result_channel = (\<lambda>w. (8, w)), result_recv = (\<lambda>h w. Some (Inr (Inr ()), w)) \<rparr>"

lemmas run_evaluation =
  run_done_def executor_child_def letters_def empty_world_def put_def sample_ctx_def run_supervised_actor_def
  supervised_round_def handle_supervised_message_def check_anonymous_actors_def process_message_def callback_def
  log_call_def deliver_nonblocking_def deliver_envelope_def envelope_unwrap_def envelope_new_def resolve_await_def
  resolve_ready_def default_scheduler_def shutdown_def stopping_def executor_stop_def drain_round_def set_state_def
  sample_def take_first_def io_loop.simps io_simps

lemma broadcaster_start_done:
  "run_done (run_supervised_actor sample (broadcaster_ops sample any_typed any_results (\<lambda>_. [])) broadcaster_start)"
  by (simp add: broadcaster_start_def broadcaster_ops_def run_evaluation)

theorem broadcaster_table_witness:
  "\<exists>E. run_supervised_actor sample (broadcaster_ops sample any_typed any_results (\<lambda>_. [])) broadcaster_start =
      Some (Done (), E) \<and> actor E = Broadcaster (fold box_table (accepted (world E)) Map.empty)"
proof -
  obtain E where E: "run_supervised_actor sample (broadcaster_ops sample any_typed any_results (\<lambda>_. []))
      broadcaster_start = Some (Done (), E)"
    using broadcaster_start_done by (rule run_doneE) simp
  have "actor E = Broadcaster (fold box_table (mail_sent sample_view (world E)) Map.empty)"
    by (rule broadcaster_table [OF sample_mail_host sample_answers_run _ E [unfolded broadcaster_start_def]])
      (simp add: sample_view_simps put_def letters_def empty_world_def)
  with E show ?thesis by (auto simp: sample_view_simps)
qed

text \<open>A parser that takes four bytes for a complete request.\<close>

definition four_bytes :: "nat http_lib" where
  "four_bytes = \<lparr> parse_request = (\<lambda>bs. Inr (if length bs < 4 then Partial else Complete 4,
       \<lparr> req_method = Some ''GET'', req_path = Some ''/'', req_headers = [] \<rparr>)),
     build_request = (\<lambda>m p hs. Inr (length m)), debug_host = (\<lambda>q. []) \<rparr>"

definition frame_of :: "byte list \<Rightarrow> read_frame" where
  "frame_of bs = \<lparr> buffer = bs @ [0], read = of_nat (length bs) \<rparr>"

theorem http_chunking_witness:
  "recv_all (http_data_recv four_bytes) [frame_of [1, 2], frame_of [3, 4]] [] =
    http_data_recv four_bytes (frame_of [1, 2, 3, 4]) []"
  by (rule http_chunking [where chunks = "[[1, 2], [3, 4]]"])
    (auto simp: holds_def frame_of_def partial_before_def four_bytes_def dest: prefix_length_less)

text \<open>A component that accepts so many connections and is then shut down, or fails.\<close>

definition few :: "(nat, nat, adder_world) component" where
  "few = \<lparr> select_accept = (\<lambda>sd (n, w). Some (Done (if n = 0 then ShutdownRecv else Accepted (Inr (Reader 4, 5))), (n - 1, w))),
     component_shutdown = ret () \<rparr>"

definition failing :: "(nat, nat, adder_world) component" where
  "failing = few\<lparr>select_accept := (\<lambda>sd (n, w). Some (Done (Accepted (if n = 0 then Inl OtherError else Inr (Reader 4, 5))), (n - 1, w)))\<rparr>"

lemma few_done: "run_done (input_loop sample adder few 0 (2, empty_world))"
  by code_simp

theorem input_serves_all_witness:
  "\<exists>t conns u v. input_loop sample adder few 0 (2, empty_world) = Some (Done (), t) \<and>
    accepts sample adder few 0 (2, empty_world) conns u \<and> select_accept few 0 u = Some (Done ShutdownRecv, v) \<and>
    component_shutdown few v = Some (Done (), t)"
proof -
  obtain t where t: "input_loop sample adder few 0 (2, empty_world) = Some (Done (), t)"
    using few_done by (rule run_doneE) simp
  show ?thesis using input_serves_all [OF t] t by blast
qed

theorem accept_error_panics_witness:
  "\<exists>v. input_loop sample adder failing 0 (1, empty_world) = Some (Panic, v)"
proof -
  obtain ref w2 where st: "start sample adder 5 empty_world = Some (Done ref, w2)"
    by (simp add: start_def run_top_def ctx_new_def io_simps sample_def)
  have "accepts sample adder failing 0 (1, empty_world) ([] @ [\<lparr> conn_reader = Reader 4, conn_struct = 5,
      conn_ref = ref, conn_task = 0 \<rparr>]) (0, w2)"
    by (rule accepts.one [OF accepts.none _ st]) (simp_all add: failing_def sample_def)
  then show ?thesis
    using accept_error_panics [where v = "(0, w2)"] by (fastforce simp: failing_def)
qed

text \<open>Signals whose join handles note in the world which tasks have ended.\<close>

definition noting :: "adder_world signals" where
  "noting = \<lparr> broadcast_channel = (\<lambda>n w. (1, w)), broadcast_subscribe = (\<lambda>h w. (2, w)),
     complete_channel = (\<lambda>n w. (3, w)), complete_drop_tx = (\<lambda>h w. w), complete_recv = (\<lambda>h w. Some (None, w)),
     join_input = (\<lambda>h w. Some (Inr (), w\<lparr>dropped := h # dropped w\<rparr>)) \<rparr>"

definition two_inputs :: "nat world_rec" where
  "two_inputs = on_input 6 (on_input 5 (world_from 4))"

lemma two_inputs_done: "run_done (block_until_completion sample noting two_inputs empty_world)"
  by code_simp

theorem completion_joins_all_witness:
  "\<exists>w' hs. block_until_completion sample noting two_inputs empty_world = Some (Done (), w') \<and>
    length hs = 2 \<and> (\<forall>h\<in>set hs. h \<in> set (dropped w'))"
proof -
  obtain w' where w': "block_until_completion sample noting two_inputs empty_world = Some (Done (), w')"
    using two_inputs_done by (rule run_doneE) simp
  have "joins noting (\<lambda>h w. h \<in> set (dropped w))" by (auto simp: joins_def noting_def)
  from completion_joins_all [OF this w']
  obtain hs where "length hs = length (inputs two_inputs)" "\<forall>h\<in>set hs. h \<in> set (dropped w')" by blast
  with w' show ?thesis by (intro exI [of _ w'] exI [of _ hs]) (simp add: two_inputs_def on_input_def world_from_def)
qed

text \<open>A listener with a stream at hand whenever it is polled.\<close>

definition busy_net :: "(multi_actor, multi_message) sample_world net" where
  "busy_net = \<lparr> net_bind = (\<lambda>a w. Some (Inr 9, w)), net_poll_accept = (\<lambda>h w. (Ready (Inr (5, 80)), w)),
     net_into_split = (\<lambda>h w. ((5, 6), w)), net_shutdown_channel = (\<lambda>w. (8, w)) \<rparr>"

definition multi_listener ::
  "((multi_actor, multi_message) raw_executor, multi_actor, (multi_actor, multi_message) sample_world) component" where
  "multi_listener = tcp_listener_component sample busy_net (any_typed :: (nat \<times> handle, _) typed) any_typed
     (multi_router_ops sample (broadcaster_ops sample any_typed any_results (\<lambda>_. []))) MultiRequest multi_conn
     (\<lambda>_ w. Some (WakeAccept, w)) 9"

definition multi_first :: "(multi_actor, multi_message, unit) executor" where
  "multi_first = executor_new (MultiRouter 0 (Some (ActorRef 2))) sample_ctx ()"

definition multi_P :: "(multi_actor, multi_message, (multi_actor, multi_message) sample_world) actor_ops" where
  "multi_P = with_handlers (default_actor ''Connection'') (\<lambda>_. panic) (\<lambda>_. panic) (multi_connection_handle sample)"

lemma multi_first_accept:
  "\<exists>rd a c1 w1. select_accept multi_listener 0 (Some multi_first, empty_world) = Some (Done (Accepted (Inr (rd, a))), (c1, w1))"
  by (simp add: multi_listener_def tcp_listener_component_def tcp_accept_def accept_round_def tcp_accept_poll_def
      tcp_actors_def busy_net_def any_typed_def on_snd_def with_ctx_def raw_ask_def in_executor_def multi_first_def
      executor_new_def at_world_def multi_router_ops_def anonymous_task_def acquire_anonymous_permit_def
      empty_world_def sample_ctx_def sample_def io_loop.simps io_simps)

theorem multi_connection_ids_witness:
  "\<exists>conns s. accepts sample multi_P multi_listener 0 (Some multi_first, empty_world) conns s \<and> conns \<noteq> [] \<and>
    map conn_struct conns = map (\<lambda>i. MultiConnection (of_nat i) (ActorRef 2)) [0..<length conns]"
proof -
  obtain rd a c1 w1 where acc: "select_accept multi_listener 0 (Some multi_first, empty_world) =
      Some (Done (Accepted (Inr (rd, a))), (c1, w1))"
    using multi_first_accept by blast
  obtain ref w2 where st: "start sample multi_P a w1 = Some (Done ref, w2)"
    by (simp add: start_def run_top_def ctx_new_def io_simps sample_def)
  obtain h w3 where sp: "spawn sample (ServeConnection (reader_inner rd) ref) w2 = (h, w3)" by force
  have "accepts sample multi_P multi_listener 0 (Some multi_first, empty_world)
      ([] @ [\<lparr> conn_reader = rd, conn_struct = a, conn_ref = ref, conn_task = h \<rparr>]) (c1, w3)"
    by (rule accepts.one [OF accepts.none acc st sp])
  then have "accepts sample multi_P multi_listener 0 (Some multi_first, empty_world)
      [\<lparr> conn_reader = rd, conn_struct = a, conn_ref = ref, conn_task = h \<rparr>] (c1, w3)" by simp
  from multi_connection_ids [OF this [unfolded multi_listener_def], of 0 "ActorRef 2"] this show ?thesis
    by (intro exI conjI) (auto simp: multi_first_def executor_new_def)
qed

section \<open>Bridges and connections\<close>

text \<open>
  The sample runtime with an observer: the log of a task is kept in the world (in the list of what was handed
  over). Its mailboxes answer every ask with a 5, and so many items come as there are free permits.
\<close>

type_synonym relay_world = "(nat relay_event, nat) sample_world"

definition jot :: "nat relay_event \<Rightarrow> relay_world \<Rightarrow> relay_world" where
  "jot ev w = w\<lparr>handed := handed w @ [(0, ev)]\<rparr>"

definition jotted :: "relay_world \<Rightarrow> nat relay_event list" where
  "jotted w = map snd (handed w)"

definition jotting :: "(nat relay_event, nat, relay_world) tokio" where
  "jotting = sample\<lparr>
     mpsc_send := (\<lambda>a b w. if shut w then Some (Inl b, jot (Refused a b) w) else Some (Inr (), jot (Offered a b) w)),
     oneshot_recv := (\<lambda>tx w. Some (Inr 5, jot (Got tx (Inr 5)) w)),
     oneshot_recv_actor := (\<lambda>tx w. Some (Inl (), w))\<rparr>"

definition next_item :: "(nat \<times> handle) bridge_event \<Rightarrow> relay_world \<Rightarrow> ((nat \<times> handle) bridge_event \<times> relay_world) option" where
  "next_item none w = (if free_permits w = 0 then Some (none, w)
     else Some (BridgeRecv (Some (unat (free_permits w), 3)),
       jot (Taken (unat (free_permits w)) (Some 3)) (w\<lparr>free_permits := free_permits w - 1\<rparr>)))"

definition next_payload :: "(io_error + nat option, relay_world) io" where
  "next_payload w = (if free_permits w = 0 then Some (Done (Inr None), w)
     else Some (Done (Inr (Some (unat (free_permits w)))),
       jot (Taken (unat (free_permits w)) None) (w\<lparr>free_permits := free_permits w - 1\<rparr>)))"

definition jot_answer :: "handle \<Rightarrow> nat ask_error + nat \<Rightarrow> relay_world \<Rightarrow> relay_world" where
  "jot_answer k x = jot (Relayed k x)"

lemma jotting_observed: "sends_observed jotting jotted"
  by (auto simp: sends_observed_def jotting_def jotted_def jot_def mpsc_returns_def sample_def split: if_splits)

lemma next_item_observed: "bridge_observed (\<lambda>h. next_item (BridgeRecv None)) jot_answer jotted"
  by (auto simp: bridge_observed_def next_item_def jot_answer_def jotted_def jot_def split: if_splits)

lemma next_payload_observed: "reads_observed next_payload jotted"
  by (auto simp: reads_observed_def next_payload_def jotted_def jot_def split: if_splits)

definition bridge_start :: "(nat relay_event, nat, relay_world) executor" where
  "bridge_start = executor_child (Refused 0 (BoxEnvelope (Envelope None))) sample_ctx 0 empty_world"

lemma bridge_start_done:
  "run_done (child_with_custom_ask_rx jotting (\<lambda>h. next_item (BridgeRecv None)) jot_answer (ActorRef 4) bridge_start)"
  by code_simp

lemma bridge_start_log: "map_option (\<lambda>(x, E). length (jotted (world E)))
    (child_with_custom_ask_rx jotting (\<lambda>h. next_item (BridgeRecv None)) jot_answer (ActorRef 4) bridge_start) = Some 8"
  by code_simp

lemma connection_log: "map_option (\<lambda>(x, w). length (jotted w))
    (serve_connection jotting next_payload (ActorRef 4) empty_world) = Some 7"
  by code_simp

lemma connection_done: "run_done (serve_connection jotting next_payload (ActorRef 4) empty_world)"
  by code_simp

theorem ask_bridge_relays_witness:
  "\<exists>E' F G xs. child_with_custom_ask_rx jotting (\<lambda>h. next_item (BridgeRecv None)) jot_answer (ActorRef 4)
      bridge_start = Some (Done (), E') \<and> length (jotted (world E')) = 8 \<and>
    jotted (world F) = concat (map (relay ask_box 4) xs) \<and> shutdown jotting noop_ops F = Some (Done (), G) \<and>
    in_w (drop_receiver jotting (receiver G)) G = Some (Done (), E')"
proof -
  obtain E' where run: "child_with_custom_ask_rx jotting (\<lambda>h. next_item (BridgeRecv None)) jot_answer (ActorRef 4)
      bridge_start = Some (Done (), E')"
    using bridge_start_done by (rule run_doneE) simp
  have "jotted (world bridge_start) = []" by (simp add: jotted_def bridge_start_def executor_child_def empty_world_def)
  with ask_bridge_relays [OF jotting_observed next_item_observed run] run bridge_start_log show ?thesis by fastforce
qed

theorem serve_connection_in_turn_witness:
  "\<exists>w' xs v res u out. serve_connection jotting next_payload (ActorRef 4) empty_world = Some (Done (), w') \<and>
    length (jotted w') = 7 \<and> jotted u = concat (map (asked_turn 4) xs) \<and> next_payload v = Some (Done res, u) \<and> nothing_read res \<and>
    into_future jotting (ActorRef 4) u = Some (Done out, w')"
proof -
  obtain w' where run: "serve_connection jotting next_payload (ActorRef 4) empty_world = Some (Done (), w')"
    using connection_done by (rule run_doneE) simp
  have "jotted empty_world = []" by (simp add: jotted_def empty_world_def)
  with serve_connection_in_turn [OF jotting_observed next_payload_observed run] run connection_log show ?thesis by fastforce
qed

end
