(* ===== verification/Fan_In.thy ===== *)
theory Fan_In
  imports Family
begin

text \<open>
  The actors and tests of \<open>tests/mod.rs\<close>: an actor that keeps the last string it was sent, and a parent that
  fans out to children and counts their deaths. That the parent hears of all its children, which the tests check
  for five and for forty of them, is proved for any number and any schedule.
\<close>

section \<open>One actor\<close>

record state_actor =
  state_field :: "string option"

definition state_actor_handle :: "string \<Rightarrow> (unit, (state_actor, 'w) env) io" where
  "state_actor_handle message = update_self (\<lambda>self. self\<lparr>state_field := Some message\<rparr>)"

definition state_actor_ops :: "(state_actor, string, 'w) actor_ops" where
  "state_actor_ops = with_handlers (default_actor ''StateActor'') state_actor_handle (\<lambda>_. panic) (\<lambda>_. panic)"

definition create_actor_process_message_and_complete :: "(state_actor, string, 'w) tokio \<Rightarrow> (unit, 'w) io" where
  "create_actor_process_message_and_complete T =
     io_bind (start T state_actor_ops \<lparr> state_field = None \<rparr>) (\<lambda>actor.
     io_bind (try_send T actor ''test'') (\<lambda>_.
     io_bind (into_future T actor) (\<lambda>res.
     io_bind (unwrap_result res) (\<lambda>a.
     io_assert (state_field a = Some ''test'')))))"

definition panic_when_awaiting_on_async_actor :: "(state_actor, string, 'w) tokio \<Rightarrow> (unit, 'w) io" where
  "panic_when_awaiting_on_async_actor T =
     io_bind (start T state_actor_ops \<lparr> state_field = None \<rparr>) (\<lambda>a1.
     io_bind (try_send T a1 ''test'') (\<lambda>_.
     io_bind (into_future T a1) (\<lambda>res.
     io_bind (unwrap_result res) (\<lambda>a.
     io_seq (io_assert (state_field a = Some ''test''))
     (io_bind (into_future T (actor_ref_clone a1)) (\<lambda>res. case res of
         Inl err \<Rightarrow> io_assert (err = MailboxClosed)
       | Inr _ \<Rightarrow> panic))))))"

section \<open>Parents and children\<close>

text \<open>The structs and the messages of both kinds of actors. A child has no handlers.\<close>

datatype fan_actor = FanParent (children: usize) (total: usize) (dead: usize) | FanChild (index: usize)

datatype fan_message =
    Children usize
  | DeadChild "fan_actor dead_actor_result"
  | AsyncChildren usize
  | AsyncChildrenResult usize

definition as_parent :: "(usize \<times> usize \<times> usize, (fan_actor, 'w) env) io" where
  "as_parent = io_bind (read_self (\<lambda>self. self)) (\<lambda>self. case self of
       FanParent c t d \<Rightarrow> ret (c, t, d)
     | FanChild i \<Rightarrow> panic)"

definition count_death :: "usize \<Rightarrow> (unit, (fan_actor, 'w) env) io" where
  "count_death i =
     io_bind as_parent (\<lambda>(c, t, d).
     io_bind (usize_add t i) (\<lambda>t'.
     io_seq (update_self (\<lambda>_. FanParent c t' d))
     (io_bind (usize_add d 1) (\<lambda>d'. update_self (\<lambda>_. FanParent c t' d')))))"

fun spawn_children :: "(fan_actor, fan_message, 'w) tokio \<Rightarrow> usize list \<Rightarrow> (unit, 'w cworld) io" where
  "spawn_children T [] = ret ()"
| "spawn_children T (i # is) =
     io_bind (spawn_child T (default_actor ''ChildActor'' :: (fan_actor, 'w) actor_impl) (FanChild i)) (\<lambda>_. spawn_children T is)"

fun spawn_async_children :: "(fan_actor, fan_message, 'w) tokio \<Rightarrow> usize list \<Rightarrow> (unit, 'w cworld) io" where
  "spawn_async_children T [] = ret ()"
| "spawn_async_children T (i # is) =
     io_bind (anonymous T (io_bind (await (sleep T (from_secs 1))) (\<lambda>_. ret (AsyncChildrenResult i))))
       (\<lambda>_. spawn_async_children T is)"

text \<open>\<open>1..=message.count\<close>\<close>

definition up_to :: "usize \<Rightarrow> usize list" where
  "up_to n = map of_nat [1..<Suc (unat n)]"

fun fan_handle ::
  "(fan_actor, fan_message, 'w) tokio \<Rightarrow> fan_message \<Rightarrow> (unit, (fan_actor, 'w) env) io" where
  "fan_handle T (Children count) =
     io_bind as_parent (\<lambda>(_, t, d).
     io_seq (update_self (\<lambda>_. FanParent count t d)) (in_ctx (spawn_children T (up_to count))))"
| "fan_handle T (DeadChild message) =
     io_bind (unwrap_result message) (\<lambda>dead. case dead_actor dead of
         FanChild i \<Rightarrow> count_death i
       | FanParent c t d \<Rightarrow> panic)"
| "fan_handle T (AsyncChildren count) =
     io_bind as_parent (\<lambda>(_, t, d).
     io_seq (update_self (\<lambda>_. FanParent count t d)) (in_ctx (spawn_async_children T (up_to count))))"
| "fan_handle T (AsyncChildrenResult i) = count_death i"

definition fan_ops :: "(fan_actor, fan_message, 'w) tokio \<Rightarrow> (fan_actor, fan_message, 'w) actor_ops" where
  "fan_ops T = with_handlers (default_actor ''ParentActor'') (fan_handle T) (\<lambda>_. panic) (\<lambda>_. panic)"

definition fan_test ::
  "(fan_actor, fan_message, 'w) tokio \<Rightarrow> fan_message \<Rightarrow> (fan_actor \<Rightarrow> bool) \<Rightarrow> (unit, 'w) io" where
  "fan_test T message expected =
     io_bind (start T (fan_ops T) (FanParent 0 0 0)) (\<lambda>addr.
     io_bind (try_send T addr message) (\<lambda>_.
     io_bind (into_future T addr) (\<lambda>res.
     io_bind (unwrap_result res) (\<lambda>parent. io_assert (expected parent)))))"

definition supervisor_actor_fan_out_and_fan_in_complete :: "(fan_actor, fan_message, 'w) tokio \<Rightarrow> (unit, 'w) io" where
  "supervisor_actor_fan_out_and_fan_in_complete T =
     fan_test T (Children 5) (\<lambda>parent. children parent = 5 \<and> total parent = 15 \<and> dead parent = 5)"

definition supervisor_actor_fan_out_and_fan_in_complete_2 :: "(fan_actor, fan_message, 'w) tokio \<Rightarrow> (unit, 'w) io" where
  "supervisor_actor_fan_out_and_fan_in_complete_2 T =
     fan_test T (Children 40) (\<lambda>parent. children parent = 40 \<and> dead parent = 40)"

definition supervisor_actor_async_fan_out_and_fan_in_complete :: "(fan_actor, fan_message, 'w) tokio \<Rightarrow> (unit, 'w) io" where
  "supervisor_actor_async_fan_out_and_fan_in_complete T =
     fan_test T (AsyncChildren 5) (\<lambda>parent. children parent = 5 \<and> total parent = 0 \<and> dead parent = 0)"

section \<open>What the parent is\<close>

text \<open>What a message does to the struct: \<open>counted\<close> is the index it adds to the total.\<close>

fun counted :: "fan_message \<Rightarrow> nat option" where
  "counted (DeadChild (Inr d)) = Some (unat (index (dead_actor d)))"
| "counted (AsyncChildrenResult i) = Some (unat i)"
| "counted _ = None"

definition counts :: "fan_message \<Rightarrow> fan_actor \<Rightarrow> fan_actor \<Rightarrow> bool" where
  "counts m a a' \<longleftrightarrow> (\<exists>c t d c' t' d'. a = FanParent c t d \<and> a' = FanParent c' t' d' \<and>
     (case counted m of None \<Rightarrow> t' = t \<and> d' = d
      | Some i \<Rightarrow> unat t' = unat t + i \<and> unat d' = unat d + 1))"

lemma unat_usize_add: "unat (a :: usize) + unat b < 2 ^ 64 \<Longrightarrow> unat (a + b) = unat a + unat b"
  by (rule unat_checked_add) simp

lemma count_death_run:
  "count_death i (a, cw) = (case a of
     FanChild k \<Rightarrow> Some (Panic, (a, cw))
   | FanParent c t d \<Rightarrow>
       if unat t + unat i < 2 ^ 64
       then (if unat d + 1 < 2 ^ 64 then Some (Done (), (FanParent c (t + i) (d + 1), cw))
             else Some (Panic, (FanParent c (t + i) d, cw)))
       else Some (Panic, (a, cw)))"
  by (simp add: count_death_def as_parent_def io_simps split: fan_actor.split)

lemma in_ctx_fst: "in_ctx m (a, cw) = Some (x, e) \<Longrightarrow> fst e = a"
  by (auto simp: in_ctx_run split: option.splits)

lemma fan_handle_counts: "keeps (env_struct (counts m)) (fan_handle T m)"
proof (rule keepsI)
  fix e r e'
  assume run: "fan_handle T m e = Some (Done r, e')"
  obtain a cw where e: "e = (a, cw)" by (cases e)
  show "env_struct (counts m) e e'"
  proof (cases m)
    case (DeadChild d)
    with run e show ?thesis
      using unat_usize_add [of _ 1]
      by (cases d) (auto simp: env_struct_def counts_def count_death_run unat_usize_add unwrap_result_run io_bind_run
          panic_run split: fan_actor.splits if_splits)
  next
    case (AsyncChildrenResult i)
    with run e show ?thesis
      using unat_usize_add [of _ 1]
      by (auto simp: env_struct_def counts_def count_death_run unat_usize_add split: fan_actor.splits if_splits)
  qed (use run e in \<open>auto simp: env_struct_def counts_def as_parent_def io_bind_run io_seq_run read_self_run
      update_self_run ret_run panic_run dest!: in_ctx_fst split: fan_actor.splits\<close>)
qed

interpretation fan: struct_effects
  "fan_ops T :: (fan_actor, fan_message, 'w) actor_ops" "\<lambda>cb a a'. a' = a" counts "\<lambda>_ _ _. False" "\<lambda>_ _ _. False" for T
  unfolding fan_ops_def
  by (intro default_struct_effects fan_handle_counts) (simp_all add: keeps_def panic_run triple_panic)

lemma as_parent_struct_only: "struct_only as_parent"
  unfolding as_parent_def
  by (intro struct_only_rules) (simp add: struct_only_ret struct_only_panic split: fan_actor.split)

lemma usize_add_struct_only: "struct_only (usize_add a b)"
  by (simp add: usize_add_def struct_only_ret struct_only_panic)

lemma count_death_struct_only: "struct_only (count_death i)"
  unfolding count_death_def io_seq_def
  by (auto intro!: struct_only_rules as_parent_struct_only usize_add_struct_only split: prod.split)

text \<open>A relation that spawning a child and an anonymous task keep, and the handlers.\<close>

lemma fan_handle_keeps:
  assumes "frame_rel (env_rel R :: (fan_actor, 'w) env \<Rightarrow> _)" "\<And>h :: (unit, (fan_actor, 'w) env) io. struct_only h \<Longrightarrow> keeps (env_rel R) h"
    and "\<And>is. keeps (env_rel R) (in_ctx (spawn_children T is) :: (unit, (fan_actor, 'w) env) io)"
    and "\<And>is. keeps (env_rel R) (in_ctx (spawn_async_children T is) :: (unit, (fan_actor, 'w) env) io)"
  shows "keeps (env_rel R) (fan_handle (T :: (fan_actor, fan_message, 'w) tokio) m)"
proof -
  have p: "keeps (env_rel R) (io_bind as_parent k)" if "\<And>x. keeps (env_rel R) (k x)" for k :: "_ \<Rightarrow> (unit, (fan_actor, 'w) env) io"
  proof (rule keepsI)
    fix e x e'
    assume "io_bind as_parent k e = Some (Done x, e')"
    then obtain y u where "as_parent e = Some (Done y, u)" and k: "k y u = Some (Done x, e')" by (rule io_bind_DoneE)
    then have "u = e"
      by (cases e) (auto simp: as_parent_def io_bind_run read_self_run ret_run panic_run split: fan_actor.splits)
    with keepsD [OF that k] show "env_rel R e e'" by simp
  qed
  have q: "keeps (env_rel R) (io_seq h k)" if "struct_only h" "keeps (env_rel R) k" for h k :: "(unit, (fan_actor, 'w) env) io"
    using frame_rel.keeps_seq [OF assms(1) assms(2) [OF that(1)] that(2)] .
  show ?thesis
  proof (cases m)
    case (DeadChild d)
    have "struct_only (fan_handle T m)"
      unfolding DeadChild fan_handle.simps unwrap_result_def
      by (auto intro!: struct_only_rules count_death_struct_only split: sum.split fan_actor.split)
    then show ?thesis by (rule assms(2))
  next
    case (AsyncChildrenResult i)
    then show ?thesis by (simp add: assms(2) count_death_struct_only)
  qed (auto intro!: p q struct_only_update assms(3,4) split: prod.split)
qed

lemma spawn_children_keeps:
  assumes "frame_rel R" "\<And>a. keeps R (spawn_child T (default_actor ''ChildActor'' :: (fan_actor, 'w) actor_impl) a)"
  shows "keeps R (spawn_children (T :: (fan_actor, fan_message, 'w) tokio) is)"
  by (induction "is") (simp_all add: frame_rel.keeps_ret [OF assms(1)] frame_rel.keeps_bind [OF assms(1)] assms(2))

lemma spawn_async_children_keeps:
  assumes "frame_rel R" "\<And>f. keeps R (anonymous T f)"
  shows "keeps R (spawn_async_children T is)"
  by (induction "is") (simp_all add: frame_rel.keeps_ret [OF assms(1)] frame_rel.keeps_bind [OF assms(1)] assms(2))

text \<open>So the handlers are well behaved, send nothing, and keep the promise of the family.\<close>

lemma api_frame: "frame_rel (ctx_api T)\<^sup>*\<^sup>*"
  by unfold_locales auto

lemma spawn_children_api: "spawn_children T is cw = Some (x, cw') \<Longrightarrow> (ctx_api T)\<^sup>*\<^sup>* cw cw'"
proof (induction "is" arbitrary: cw)
  case Nil
  then show ?case by (simp add: ret_run)
next
  case (Cons i "is")
  then show ?case
    by (fastforce simp: io_bind_run split: option.splits res.splits dest: spawn_child_api intro: rtranclp_trans)
qed

lemma spawn_async_children_api: "spawn_async_children T is cw = Some (x, cw') \<Longrightarrow> (ctx_api T)\<^sup>*\<^sup>* cw cw'"
proof (induction "is" arbitrary: cw)
  case Nil
  then show ?case by (simp add: ret_run)
next
  case (Cons i "is")
  then show ?case
    by (fastforce simp: io_bind_run split: option.splits res.splits dest: api_anonymous intro: converse_rtranclp_into_rtranclp)
qed

lemma fan_handle_well_behaved: "well_behaved T (fan_handle T m)"
proof (cases m)
  case (DeadChild d)
  have "struct_only (fan_handle T m)"
    unfolding DeadChild fan_handle.simps unwrap_result_def
    by (auto intro!: struct_only_rules count_death_struct_only split: sum.split fan_actor.split)
  then show ?thesis by (rule struct_only_well_behaved)
next
  case (AsyncChildrenResult i)
  then show ?thesis by (simp add: struct_only_well_behaved count_death_struct_only)
qed (auto simp: io_seq_def intro!: well_behaved_bind struct_only_well_behaved [OF as_parent_struct_only]
    struct_only_well_behaved [OF struct_only_update] well_behaved_in_ctx_star
    intro: spawn_children_api spawn_async_children_api split: prod.split)

lemma fan_well_behaved: "well_behaved_actor T (fan_ops T)"
  unfolding fan_ops_def by (intro default_well_behaved fan_handle_well_behaved well_behaved_panic)

lemma fan_mail_user:
  assumes "mail_runtime T M" "mail_makes T M"
  shows "mail_user (fan_ops T) M"
  unfolding fan_ops_def
  by (intro default_mail_user fan_handle_keeps mail_world.env.frame_rel_axioms struct_only_mail struct_only_panic
      in_ctx_mail spawn_children_keeps spawn_async_children_keeps mail_world.pair.frame_rel_axioms triple_panic
      spawn_child_mail anonymous_mail assms)

text \<open>What is left of the hypotheses for this parent: the runtime. Anonymous tasks have receivers too, but are no
  children.\<close>

definition fan_runtime ::
  "(fan_actor, fan_message, 'w) tokio \<Rightarrow> handle \<Rightarrow> (fan_message, 'w) mail_view \<Rightarrow> 'w family_view \<Rightarrow> bool" where
  "fan_runtime T n M K \<longleftrightarrow> family_watch T n M K \<and> blocking_runs T \<and> answers_run T \<and>
     runtime_keeps T (family_rel M K DeadChild) (not_a_child K) \<and> takings_keep T (family_rel M K DeadChild) \<and>
     makings_keep T (family_rel M K DeadChild) \<and>
     (\<forall>r h p f. keeps (family_rel M K DeadChild) (call (spawn T (AnonymousMessage r h p f))))"

lemma anonymous_family:
  assumes "fan_runtime T n M K"
  shows "keeps (pair_rel (family_rel M K DeadChild)) (anonymous T f)"
proof -
  have "runtime_keeps T (family_rel M K DeadChild) (not_a_child K)"
    "\<And>r h p f. keeps (family_rel M K DeadChild) (call (spawn T (AnonymousMessage r h p f)))"
    using assms by (simp_all add: fan_runtime_def)
  then show ?thesis
    unfolding anonymous_def
    by (intro family.pair.keeps_rules family.in_world_keeps family.acquire_permit_keeps runtime_keepsD(4)) simp_all
qed

lemma struct_only_keeps: "struct_only h \<Longrightarrow> keeps (env_rel (family_rel M K dead_msg)) h"
  by (auto simp: keeps_def env_rel_def family.refl dest: struct_onlyD)

lemma fan_handle_family:
  assumes "fan_runtime T n M K"
  shows "keeps (env_rel (family_rel M K DeadChild)) (fan_handle T m)"
proof -
  have F: "family_watch T n M K" "makings_keep T (family_rel M K DeadChild)"
    using assms by (simp_all add: fan_runtime_def)
  show ?thesis
    by (intro fan_handle_keeps family.env.frame_rel_axioms struct_only_keeps family.in_ctx_keeps
        spawn_children_keeps spawn_async_children_keeps family.pair.frame_rel_axioms
        spawn_child_family [OF F] anonymous_family [OF assms])
qed

lemma fan_family_hyps:
  assumes "fan_runtime T n M K"
  shows "family_hyps M K DeadChild T (fan_ops T)"
proof -
  have "user_keeps (fan_ops T) (family_rel M K DeadChild)"
    by (simp add: user_keeps_def fan_ops_def fan_handle_family [OF assms] family.env.keeps_ret
        family.env.keeps_panic triple_panic)
  then show ?thesis using assms by (simp add: family_hyps_def world_hyps_def fan_runtime_def)
qed

text \<open>The deaths and results among the messages of a mailbox.\<close>

fun box_counted :: "fan_message boxed \<Rightarrow> nat option" where
  "box_counted (BoxEnvelope (Envelope (Some m))) = counted m"
| "box_counted _ = None"

lemma fan_chain:
  "chain (box_effect counts (\<lambda>_ _ _. False) (\<lambda>_ _ _. False)) bs (FanParent c t d) a' \<Longrightarrow>
   \<exists>c' t' d'. a' = FanParent c' t' d' \<and> unat t' = unat t + sum_list (List.map_filter box_counted bs) \<and>
     unat d' = unat d + length (List.map_filter box_counted bs)"
proof (induction bs arbitrary: c t d)
  case Nil
  then show ?case by simp
next
  case (Cons b bs)
  then obtain x where x: "box_effect counts (\<lambda>_ _ _. False) (\<lambda>_ _ _. False) b (FanParent c t d) x"
    and rest: "chain (box_effect counts (\<lambda>_ _ _. False) (\<lambda>_ _ _. False)) bs x a'" by auto
  show ?case
  proof (cases b)
    case (BoxEnvelope e)
    with x obtain m where m: "e = Envelope (Some m)" "counts m (FanParent c t d) x"
      by (cases e) (auto split: option.splits)
    then obtain c1 t1 d1 where x1: "x = FanParent c1 t1 d1" by (auto simp: counts_def)
    from Cons.IH [OF rest [unfolded x1]] m BoxEnvelope x1 show ?thesis
      by (cases "counted m") (auto simp: counts_def)
  qed (use x Cons.IH rest in \<open>auto split: option.splits\<close>)
qed

lemma notice_counted: "death_notice DeadChild child b \<Longrightarrow> box_counted b \<noteq> None"
  by (auto simp: death_notice_def envelope_new_def)

fun deceased :: "fan_message boxed \<Rightarrow> actor_ref option" where
  "deceased (BoxEnvelope (Envelope (Some (DeadChild (Inr d))))) = Some (address (dead_ctx d))"
| "deceased _ = None"

lemma notice_deceased: "death_notice DeadChild child b \<Longrightarrow> deceased b = Some child"
  by (auto simp: death_notice_def envelope_new_def)

lemma deceased_counted: "length (List.map_filter deceased bs) \<le> length (List.map_filter box_counted bs)"
proof (induction bs)
  case (Cons b bs)
  have "deceased b \<noteq> None \<Longrightarrow> box_counted b \<noteq> None" by (cases b rule: deceased.cases) auto
  with Cons show ?case by (auto simp: List.map_filter_simps split: option.splits)
qed (simp add: List.map_filter_simps)

lemma set_filtered: "set (List.map_filter f xs) = {y. \<exists>x\<in>set xs. f x = Some y}"
  by (induction xs) (auto simp: List.map_filter_simps split: option.splits)

lemma heard_card:
  assumes "\<forall>rx child. B rx = Some child \<longrightarrow> (\<exists>b\<in>set bs. death_notice DeadChild child b)"
  shows "card (ran B) \<le> length (List.map_filter box_counted bs)"
proof -
  have "ran B \<subseteq> set (List.map_filter deceased bs)"
    using assms notice_deceased by (force simp: ran_def set_filtered)
  then have "card (ran B) \<le> card (set (List.map_filter deceased bs))" by (intro card_mono) simp_all
  also have "\<dots> \<le> length (List.map_filter deceased bs)" by (rule card_length)
  also have "\<dots> \<le> length (List.map_filter box_counted bs)" by (rule deceased_counted)
  finally show ?thesis .
qed

text \<open>C14: the parent of the tests, for any number of children and any schedule: its total and its count are exact over
  the deaths and results that its mailbox accepted, and it has counted at least as many as it had children at the
  point \<open>D\<close> of its run at which it had closed its mailbox; none of them was alive then.\<close>

theorem fan_in_complete:
  assumes "mail_host T (mailbox c) M" "mail_makes T M" "fan_runtime T (notifier c) M K"
    and "mail_pending M w = mail_sent M w" "accounted M K DeadChild w"
    and "run_actor T (fan_ops T) (executor_new (FanParent 0 0 0) c w) = Some (Done (), E)"
  shows "\<exists>D n t d. run_to_close T (fan_ops T) (executor_new (FanParent 0 0 0) c w) = Some (Done (), D) \<and>
    run_from_close T (fan_ops T) D = Some (Done (), E) \<and> state (ectx D) \<noteq> Running \<and> held K (world D) = {} \<and>
    actor E = FanParent n t d \<and>
    unat t = sum_list (List.map_filter box_counted (mail_sent M (world E))) \<and>
    unat d = length (List.map_filter box_counted (mail_sent M (world E))) \<and>
    card (ran (born K (world D))) \<le> unat d"
proof -
  have T: "blocking_runs T" "answers_run T" "mail_runtime T M"
    using assms(1,3) by (simp_all add: fan_runtime_def mail_host_def)
  have W: "family_watch T (notifier c) M K" using assms(3) by (simp add: fan_runtime_def)
  have H: "mail_hyps T (fan_ops T) (mailbox c) M"
    by (intro mail_host_hyps assms(1) fan_well_behaved fan_mail_user T(3) assms(2))
  have r: "recvs (calls E) = mail_sent M (world E)"
    by (rule run_actor_all_mail [OF H assms(4,6)])
  have "chain fan.effect (map fst (calls E)) (FanParent 0 0 0) (actor E)"
    by (rule fan.run_actor_folds [OF T(1,2) assms(6)])
  then have "chain (box_effect counts (\<lambda>_ _ _. False) (\<lambda>_ _ _. False)) (recvs (calls E)) (FanParent 0 0 0) (actor E)"
    by (rule fan.effect_recvs [rotated]) simp
  from fan_chain [OF this] obtain n t d where s: "actor E = FanParent n t d"
    "unat t = sum_list (List.map_filter box_counted (mail_sent M (world E)))"
    "unat d = length (List.map_filter box_counted (mail_sent M (world E)))"
    by (auto simp: r)
  from family_hears [OF H fan_family_hyps [OF assms(3)] W assms(4-6)] obtain D where
    "run_to_close T (fan_ops T) (executor_new (FanParent 0 0 0) c w) = Some (Done (), D)"
    and "run_from_close T (fan_ops T) D = Some (Done (), E)" "state (ectx D) \<noteq> Running" "held K (world D) = {}"
    and "\<forall>rx child. born K (world D) rx = Some child \<longrightarrow> (\<exists>b\<in>set (recvs (calls E)). death_notice DeadChild child b)"
    by blast
  with heard_card [of "born K (world D)" "recvs (calls E)"] s show ?thesis by (auto simp: r)
qed

end
