(* ===== verification/Nursery.thy ===== *)
theory Nursery
  imports Fan_In Witnesses Liveness
begin

text \<open>
  A concrete runtime for a family: mailbox 0 and notifier 0 are the parent's, watch receivers and channels are numbered
  as they are made, and a child dies while its parent sleeps in its shutdown. The witnesses of the
  properties of Family.thy and Fan_In.thy are runs of it.
\<close>

record nursery =
  letterbox :: "fan_message boxed list"
  posted :: "fan_message boxed list"
  locked :: bool
  receivers :: nat
  alive :: "handle list"
  cradles :: "(handle \<times> fan_actor \<times> ctx) list"
  channels :: nat
  notice :: "supervisor_message option"

definition new_nursery :: nursery where
  "new_nursery = \<lparr> letterbox = [], posted = [], locked = False, receivers = 0, alive = [], cradles = [], channels = 0,
     notice = None \<rparr>"

definition mail_in :: "fan_message boxed \<Rightarrow> nursery \<Rightarrow> nursery" where
  "mail_in b w = (if locked w then w else w\<lparr>letterbox := letterbox w @ [b], posted := posted w @ [b]\<rparr>)"

definition take_letter :: "nursery \<Rightarrow> fan_message boxed option \<times> nursery" where
  "take_letter w = (case letterbox w of [] \<Rightarrow> (None, w) | b # bs \<Rightarrow> (Some b, w\<lparr>letterbox := bs\<rparr>))"

definition let_go :: "handle \<Rightarrow> nursery \<Rightarrow> nursery" where
  "let_go rx w = w\<lparr>alive := removeAll rx (alive w)\<rparr>"

text \<open>The next death: the first child that is alive reports itself and lets go of its receiver.\<close>

definition next_death :: "nursery \<Rightarrow> nursery" where
  "next_death w = (case filter (\<lambda>rx. rx < receivers w \<and> map_of (cradles w) rx \<noteq> None) (alive w) of
     [] \<Rightarrow> w
   | rx # _ \<Rightarrow>
       (if locked w then w
        else case map_of (cradles w) rx of None \<Rightarrow> w
          | Some (a, c) \<Rightarrow>
              let_go rx (mail_in (BoxEnvelope (envelope_new (DeadChild (Inr \<lparr> dead_actor = a, dead_ctx = c\<lparr>state := Stopped\<rparr> \<rparr>)))) w)))"

fun nursery_spawn :: "(fan_actor, fan_message, nursery) task \<Rightarrow> nursery \<Rightarrow> handle \<times> nursery" where
  "nursery_spawn (SuperviseChild a c rx r) w =
     (0, if rx \<in> set (alive w) \<and> rx < receivers w then w\<lparr>cradles := (rx, a, c) # cradles w\<rparr> else w)"
| "nursery_spawn (AnonymousMessage r rx p f) w = (0, if map_of (cradles w) rx = None then let_go rx w else w)"
| "nursery_spawn t w = (0, w)"

definition nursery :: "(fan_actor, fan_message, nursery) tokio" where
  "nursery = \<lparr>
     mpsc_channel = (\<lambda>n w. (Suc (channels w), w\<lparr>channels := Suc (channels w)\<rparr>)),
     mpsc_try_send = (\<lambda>h b w. if h \<noteq> 0 then (Inr (), w) else if locked w then (Inl (TrySendClosed b), w) else (Inr (), mail_in b w)),
     mpsc_send = (\<lambda>h b w. if h \<noteq> 0 then Some (Inr (), w) else if locked w then Some (Inl b, w) else Some (Inr (), mail_in b w)),
     mpsc_is_closed = (\<lambda>h w. h = 0 \<and> locked w),
     mpsc_recv = (\<lambda>h w. if h \<noteq> 0 then Some (None, w) else case take_letter w of
         (Some b, w') \<Rightarrow> Some (Some b, w')
       | (None, w') \<Rightarrow> if locked w then Some (None, w') else None),
     mpsc_try_recv = (\<lambda>h w. if h \<noteq> 0 then (None, w) else take_letter w),
     mpsc_close = (\<lambda>h w. if h \<noteq> 0 then w else w\<lparr>locked := True\<rparr>),
     watch_channel = (\<lambda>w. (Suc (channels w), w\<lparr>channels := Suc (channels w)\<rparr>)),
     watch_send = (\<lambda>h v w. w\<lparr>notice := v\<rparr>),
     watch_subscribe = (\<lambda>h w. (receivers w, w\<lparr>receivers := Suc (receivers w),
       alive := (if h = 0 then [receivers w] else []) @ filter (\<lambda>rx. rx < receivers w) (alive w),
       cradles := filter (\<lambda>(rx, _). rx < receivers w) (cradles w)\<rparr>)),
     watch_is_closed = (\<lambda>h w. h = 0 \<longrightarrow> filter (\<lambda>rx. rx < receivers w) (alive w) = []),
     watch_borrow = (\<lambda>h w. notice w),
     watch_borrow_and_update = (\<lambda>h w. (notice w, w)),
     watch_drop_rx = let_go,
     oneshot_channel = (\<lambda>w. (7, w)),
     oneshot_send = (\<lambda>h m w. (Inr (), w)),
     oneshot_recv = (\<lambda>h w. Some (Inl (), w)),
     oneshot_send_actor = (\<lambda>h a w. (Inr (), w)),
     oneshot_recv_actor = (\<lambda>h w. Some (Inl (), w)),
     oneshot_drop_tx = (\<lambda>h w. w),
     sem_new = (\<lambda>n w. (0, w)),
     sem_available = (\<lambda>h w. 0),
     sem_try_acquire = (\<lambda>h w. (Inr 0, w)),
     sem_acquire_many = (\<lambda>h n w. Some (Inr 0, w)),
     permit_drop = (\<lambda>h w. w),
     spawn = nursery_spawn,
     task_abort = (\<lambda>h w. w),
     join_answer = (\<lambda>h w. Some (Inl 0, w)),
     spawn_join_message = (\<lambda>m w. case m w of None \<Rightarrow> None
       | Some (Panic, w') \<Rightarrow> Some (Done (Inl 0), w') | Some (Done r, w') \<Rightarrow> Some (Done (Inr r), w')),
     spawn_join_unit = (\<lambda>m w. case m w of None \<Rightarrow> None
       | Some (Panic, w') \<Rightarrow> Some (Done (Inl 0), w') | Some (Done r, w') \<Rightarrow> Some (Done (Inr r), w')),
     spawn_join_child = (\<lambda>m w. case m w of None \<Rightarrow> None
       | Some (Panic, w') \<Rightarrow> Some (Done (Inl 0), w') | Some (Done r, w') \<Rightarrow> Some (Done (Inr r), w')),
     spawn_blocking = (\<lambda>m s. case m s of None \<Rightarrow> None
       | Some (Panic, s') \<Rightarrow> Some (Done (Inl 0), s') | Some (Done r, s') \<Rightarrow> Some (Done (Inr r), s')),
     err_is_cancelled = (\<lambda>e. False),
     err_is_panic = (\<lambda>e. True),
     sleep = (\<lambda>n w. Some ((), w)),
     select_supervised = (\<lambda>rx mb w. if mb \<noteq> 0 then Some (WatchChanged, w) else case take_letter w of
         (Some b, w') \<Rightarrow> Some (MailboxRecv (Some b), w')
       | (None, w') \<Rightarrow> if notice w = None then None else Some (WatchChanged, w')),
     select_stopping = (\<lambda>mb n w. if mb \<noteq> 0 then Some (StopSlept, w) else case take_letter w of
         (Some b, w') \<Rightarrow> Some (StopRecv (Some b), w') | (None, w') \<Rightarrow> Some (StopSlept, next_death w')),
     select_message = (\<lambda>rx m w. case m w of None \<Rightarrow> None
       | Some (Panic, w') \<Rightarrow> Some (Panic, w') | Some (Done r, w') \<Rightarrow> Some (Done (Some r), w')),
     select_unit = (\<lambda>rx m w. case m w of None \<Rightarrow> None
       | Some (Panic, w') \<Rightarrow> Some (Panic, w') | Some (Done r, w') \<Rightarrow> Some (Done (Some r), w')),
     select_answer = (\<lambda>rx m s. case m s of None \<Rightarrow> None
       | Some (Panic, s') \<Rightarrow> Some (Panic, s') | Some (Done r, s') \<Rightarrow> Some (Done (Some r), s')) \<rparr>"

definition nursery_mail :: "(fan_message, nursery) mail_view" where
  "nursery_mail = \<lparr> mail_sent = posted, mail_pending = letterbox, mail_closed = locked \<rparr>"

definition nursery_family :: "nursery family_view" where
  "nursery_family = \<lparr> issued = (\<lambda>w. {..<receivers w}), held = (\<lambda>w. set (alive w) \<inter> {..<receivers w}),
     born = (\<lambda>w. (map_option (address \<circ> snd) \<circ> map_of (cradles w)) |` {..<receivers w}) \<rparr>"

text \<open>A day: the parent is asked for two children, then awaited.\<close>

definition busy_nursery :: nursery where
  "busy_nursery = mail_in (await_request 7) (mail_in (BoxEnvelope (envelope_new (Children 2))) new_nursery)"

definition parent_ctx :: ctx where
  "parent_ctx = \<lparr> address = ActorRef 0, mailbox = 0, notifier = 0, state = Running,
     max_anonymous_actors = 0, overflow_anonymous_actors = 0, into_future_sender = None \<rparr>"

lemma nursery_day: "run_done (run_actor nursery (fan_ops nursery) (executor_new (FanParent 0 0 0) parent_ctx busy_nursery))"
  by code_simp

section \<open>It keeps the promises of the runtime\<close>

lemma nursery_mail_simps:
  "mail_sent nursery_mail = posted" "mail_pending nursery_mail = letterbox" "mail_closed nursery_mail = locked"
  by (simp_all add: nursery_mail_def)

lemma nursery_family_simps:
  "issued nursery_family w = {..<receivers w}" "held nursery_family w = set (alive w) \<inter> {..<receivers w}"
  "born nursery_family w = (map_option (address \<circ> snd) \<circ> map_of (cradles w)) |` {..<receivers w}"
  by (simp_all add: nursery_family_def)

lemma mail_in_grows: "mail_grows nursery_mail w (mail_in b w)"
  by (simp add: mail_grows_def nursery_mail_simps mail_in_def)

lemma let_go_grows: "mail_grows nursery_mail w (let_go rx w)"
  by (simp add: mail_grows_def nursery_mail_simps let_go_def)

lemma next_death_grows: "mail_grows nursery_mail w (next_death w)"
  by (auto simp: next_death_def mail_in_grows mail.refl split: list.split option.split
      intro: mail.trans [OF mail_in_grows let_go_grows])

lemma same_mail_grows:
  "posted w' = posted w \<Longrightarrow> letterbox w' = letterbox w \<Longrightarrow> locked w' = locked w \<Longrightarrow> mail_grows nursery_mail w w'"
  by (simp add: mail_grows_def nursery_mail_simps)

lemma nursery_spawn_grows: "mail_grows nursery_mail w (snd (nursery_spawn t w))"
  by (cases t) (auto simp: let_go_grows mail.refl intro: same_mail_grows)

lemma take_letter_takes: "take_letter w = (Some b, w') \<Longrightarrow> mail_takes nursery_mail b w w'"
  by (auto simp: take_letter_def mail_takes_def nursery_mail_simps mail_grows_def split: list.splits intro!: exI [of _ w])

lemma take_letter_none: "take_letter w = (None, w') \<Longrightarrow> letterbox w = [] \<and> w' = w"
  by (auto simp: take_letter_def split: list.splits)

lemma nursery_blocking: "blocking_runs nursery"
  by (auto simp: blocking_runs_def nursery_def split: option.splits res.splits)

lemma nursery_receiver: "mpsc_receiver nursery 0 nursery_mail"
  by (auto simp: mpsc_receiver_def nursery_def nursery_mail_simps mail.refl
      dest: take_letter_none take_letter_takes split: prod.splits option.splits if_splits)

lemma nursery_select: "select_receiver nursery 0 nursery_mail"
  by (auto simp: select_receiver_def nursery_def mail.refl next_death_grows
      dest!: take_letter_none dest: take_letter_takes split: prod.splits option.splits if_splits)

lemma nursery_mail_runtime: "mail_runtime nursery nursery_mail"
proof -
  have "mail_grows nursery_mail w w'" if "nursery_spawn t w = (h, w')" for t w h w'
    using nursery_spawn_grows [of w t] that by simp
  moreover have "keeps (pair_mail nursery_mail) (select_answer nursery h m)" if "keeps (pair_mail nursery_mail) m" for h m
    using that by (auto simp: keeps_def nursery_def split: option.splits res.splits)
  ultimately show ?thesis
    by (auto simp: mail_runtime_def nursery_def keeps_def call_run modify_run await_run mail.refl mail_in_grows let_go_grows
        split: if_splits prod.splits intro: same_mail_grows)
qed

lemma nursery_host: "mail_host nursery 0 nursery_mail"
  by (simp add: mail_host_def nursery_blocking nursery_mail_runtime nursery_receiver nursery_select)

section \<open>And those of the family\<close>

abbreviation nursery_rel :: "nursery \<Rightarrow> nursery \<Rightarrow> bool" where
  "nursery_rel \<equiv> family_rel nursery_mail nursery_family DeadChild"

lemma same_family:
  assumes "receivers w' = receivers w" "alive w' = alive w" "cradles w' = cradles w" "\<exists>new. posted w' = posted w @ new"
  shows "nursery_rel w w'"
proof -
  have "issued nursery_family w' = issued nursery_family w" "held nursery_family w' = held nursery_family w"
    "born nursery_family w' = born nursery_family w"
    using assms(1-3) by (simp_all add: nursery_family_simps)
  moreover have "set (posted w) \<subseteq> set (posted w')" using assms(4) by auto
  ultimately show ?thesis
    using assms(4) unfolding family_rel_def accounted_def nursery_mail_simps by (simp only: map_le_refl) blast
qed

lemma mail_in_family: "nursery_rel w (mail_in b w)"
  by (rule same_family) (simp_all add: mail_in_def)

lemma let_go_family: "map_of (cradles w) rx = None \<Longrightarrow> nursery_rel w (let_go rx w)"
  by (auto simp: family_rel_def accounted_def nursery_family_simps nursery_mail_simps let_go_def restrict_map_def split: if_splits)

lemma map_of_below: "map_of (filter (\<lambda>(rx, _). rx < n) xs) rx = (if rx < n then map_of xs rx else None)" for n :: nat
  by (induction xs) auto

lemma nursery_watch: "family_watch nursery 0 nursery_mail nursery_family"
proof -
  have "dom (born nursery_family w) \<subseteq> issued nursery_family w \<and> held nursery_family w \<subseteq> issued nursery_family w" for w
    by (auto simp: nursery_family_simps)
  moreover have "watch_is_closed nursery 0 w \<longleftrightarrow> held nursery_family w = {}" for w
    by (auto simp: nursery_def nursery_family_simps filter_empty_conv)
  moreover have "rx \<notin> issued nursery_family w \<and> issued nursery_family w' = insert rx (issued nursery_family w) \<and>
      held nursery_family w' = (if h = 0 then insert rx (held nursery_family w) else held nursery_family w) \<and>
      born nursery_family w' = born nursery_family w \<and> mail_sent nursery_mail w' = mail_sent nursery_mail w"
    if "watch_subscribe nursery h w = (rx, w')" for h w rx w'
    using that by (auto simp: nursery_def nursery_family_simps nursery_mail_simps map_of_below restrict_map_def fun_eq_iff)
  moreover have "issued nursery_family (watch_drop_rx nursery rx w) = issued nursery_family w \<and>
      held nursery_family (watch_drop_rx nursery rx w) = held nursery_family w - {rx} \<and>
      born nursery_family (watch_drop_rx nursery rx w) = born nursery_family w \<and>
      mail_sent nursery_mail (watch_drop_rx nursery rx w) = mail_sent nursery_mail w" for rx w
    by (auto simp: nursery_def nursery_family_simps nursery_mail_simps let_go_def)
  moreover have "issued nursery_family w' = issued nursery_family w \<and> held nursery_family w' = held nursery_family w \<and>
      born nursery_family w' = (if rx \<in> held nursery_family w then (born nursery_family w)(rx \<mapsto> address c) else born nursery_family w) \<and>
      mail_sent nursery_mail w' = mail_sent nursery_mail w"
    if "spawn nursery (SuperviseChild a c rx r) w = (h, w')" for a c rx r w h w'
    using that by (auto simp: nursery_def nursery_family_simps nursery_mail_simps restrict_map_def fun_eq_iff split: if_splits)
  moreover have "held nursery_family (mpsc_close nursery h w) = held nursery_family w \<and>
      born nursery_family (mpsc_close nursery h w) = born nursery_family w" for h w
    by (simp add: nursery_def nursery_family_simps)
  ultimately show ?thesis unfolding family_watch_def by blast
qed

lemma next_death_family: "nursery_rel w (next_death w)"
proof (cases "filter (\<lambda>rx. rx < receivers w \<and> map_of (cradles w) rx \<noteq> None) (alive w)")
  case Nil
  then show ?thesis by (simp only: next_death_def list.case family.refl)
next
  case (Cons rx rest)
  then have "rx \<in> set (filter (\<lambda>rx. rx < receivers w \<and> map_of (cradles w) rx \<noteq> None) (alive w))" by simp
  then obtain a c where rx: "rx < receivers w" "map_of (cradles w) rx = Some (a, c)" by auto
  let ?n = "BoxEnvelope (envelope_new (DeadChild (Inr \<lparr> dead_actor = a, dead_ctx = c\<lparr>state := Stopped\<rparr> \<rparr>)))"
  show ?thesis
  proof (cases "locked w")
    case True
    then show ?thesis using Cons by (simp only: next_death_def list.case if_True family.refl)
  next
    case False
    have "born nursery_family (mail_in ?n w) rx = Some (address c)"
      using rx False by (simp add: nursery_family_simps mail_in_def)
    moreover have "death_notice DeadChild (address c) ?n"
      unfolding death_notice_def by (intro exI [of _ a] exI [of _ "c\<lparr>state := Stopped\<rparr>"]) simp
    moreover have "?n \<in> set (mail_sent nursery_mail (mail_in ?n w))"
      using False by (simp add: nursery_mail_simps mail_in_def)
    ultimately have "nursery_rel (mail_in ?n w) (watch_drop_rx nursery rx (mail_in ?n w))"
      by (intro drop_dead_family [OF nursery_watch]) blast+
    then have "nursery_rel (mail_in ?n w) (let_go rx (mail_in ?n w))" by (simp add: nursery_def)
    moreover have "next_death w = let_go rx (mail_in ?n w)"
      unfolding next_death_def Cons using False rx by simp
    ultimately show ?thesis using family.trans [OF mail_in_family] by simp
  qed
qed

lemma take_letter_family: "take_letter w = (x, w') \<Longrightarrow> nursery_rel w w'"
  by (rule same_family) (auto simp: take_letter_def split: list.splits)

lemma nursery_spawn_family:
  assumes "nursery_spawn t w = (h, w')" "\<And>a c rx r. t \<noteq> SuperviseChild a c rx r"
  shows "nursery_rel w w'"
  using assms by (cases t) (auto simp: let_go_family family.refl split: if_splits)

lemma nursery_runtime_keeps: "runtime_keeps nursery nursery_rel (not_a_child nursery_family)"
proof -
  have "keeps nursery_rel (call (watch_subscribe nursery h))"
    "triple (\<lambda>_. True) (call (watch_subscribe nursery h)) (not_a_child nursery_family)" for h
    by (auto simp: keeps_def triple_def call_run dest: subscribe_family [OF nursery_watch] split: prod.splits)
  moreover have "nursery_rel w (watch_drop_rx nursery rx w)" if "not_a_child nursery_family rx w" for rx w
    by (rule drop_stranger_family [OF nursery_watch that])
  moreover have "keeps nursery_rel (call (spawn nursery (AnonymousUnit r h p f)))" for r h p f
    by (auto simp: keeps_def call_run nursery_def family.refl)
  moreover have "keeps (pair_rel nursery_rel) (select_answer nursery h m)" if "keeps (pair_rel nursery_rel) m" for h m
    using that by (auto simp: keeps_def nursery_def split: option.splits res.splits)
  moreover have "keeps nursery_rel (call (oneshot_send nursery h m))" "keeps nursery_rel (call (oneshot_send_actor nursery h a))"
    "keeps nursery_rel (modify (oneshot_drop_tx nursery h))" "keeps nursery_rel (call (watch_borrow_and_update nursery h))"
    "keeps nursery_rel (modify (watch_send nursery h v))" "keeps nursery_rel (call (sem_try_acquire nursery h))"
    "keeps nursery_rel (await (sem_acquire_many nursery h n))" "keeps nursery_rel (modify (permit_drop nursery h))"
    "keeps nursery_rel (await (mpsc_send nursery h b))" for h m a v n b
    by (auto simp: keeps_def call_run modify_run await_run nursery_def family.refl mail_in_family
        split: if_splits intro: same_family)
  ultimately show ?thesis unfolding runtime_keeps_def by blast
qed

lemma nursery_takings: "takings_keep nursery nursery_rel"
  by (auto simp: takings_keep_def keeps_def call_run modify_run await_run nursery_def family.refl
      split: if_splits prod.splits option.splits intro: same_family take_letter_family
      intro: family.trans [OF take_letter_family next_death_family])

lemma nursery_makings: "makings_keep nursery nursery_rel"
  by (auto simp: makings_keep_def keeps_def call_run nursery_def family.refl mail_in_family
      split: if_splits intro: same_family)

lemma nursery_fan_runtime: "fan_runtime nursery 0 nursery_mail nursery_family"
proof -
  have "answers_run nursery"
    by (auto simp: answers_run_def keeps_def nursery_def split: option.splits res.splits)
  moreover have "keeps nursery_rel (call (spawn nursery (AnonymousMessage r h p f)))" for r h p f
    by (auto simp: keeps_def call_run nursery_def family.refl let_go_family)
  ultimately show ?thesis
    by (simp add: fan_runtime_def nursery_watch nursery_blocking nursery_runtime_keeps nursery_takings nursery_makings)
qed

lemma nursery_mail_makes: "mail_makes nursery nursery_mail"
  by (auto simp: makings_keep_def keeps_def call_run nursery_def mail.refl mail_in_grows
      split: if_splits intro: same_mail_grows)

lemma nursery_joins: "joins_child nursery nursery_rel"
proof -
  have "m w = Some (Done x, w')" if "spawn_join_child nursery m w = Some (Done (Inr x), w')" for m w x w'
    using that by (auto simp: nursery_def split: option.splits res.splits)
  then show ?thesis unfolding joins_child_def by (blast intro: family.refl)
qed

section \<open>Witnesses\<close>

lemma nursery_account: "mail_pending nursery_mail busy_nursery = mail_sent nursery_mail busy_nursery"
  "accounted nursery_mail nursery_family DeadChild busy_nursery"
  by (simp_all add: busy_nursery_def mail_in_def new_nursery_def nursery_mail_simps nursery_family_simps accounted_def)

text \<open>When the parent has closed its mailbox it has had two children.\<close>

definition two_born :: "(unit res \<times> (fan_actor, fan_message, nursery) executor) option \<Rightarrow> bool" where
  "two_born v = (case v of
       Some (Done _, D) \<Rightarrow> map (\<lambda>(rx, _, c). (rx, address c)) (cradles (world D)) = [(1, ActorRef 3), (0, ActorRef 1)] \<and>
         receivers (world D) = 2
     | _ \<Rightarrow> False)"

lemma nursery_births:
  assumes "run_to_close nursery (fan_ops nursery) (executor_new (FanParent 0 0 0) parent_ctx busy_nursery) = Some (Done (), D)"
  shows "born nursery_family (world D) 0 = Some (ActorRef 1)" "born nursery_family (world D) 1 = Some (ActorRef 3)"
    "ran (born nursery_family (world D)) = {ActorRef 1, ActorRef 3}"
proof -
  have "two_born (run_to_close nursery (fan_ops nursery) (executor_new (FanParent 0 0 0) parent_ctx busy_nursery))"
    by code_simp
  with assms show b: "born nursery_family (world D) 0 = Some (ActorRef 1)" "born nursery_family (world D) 1 = Some (ActorRef 3)"
    by (auto simp: two_born_def nursery_family_simps split: prod.splits)
  have none: "born nursery_family (world D) rx = None" if "\<not> rx < 2" for rx
    using assms that \<open>two_born _\<close> by (simp add: two_born_def nursery_family_simps)
  have "rx = 0 \<or> rx = 1" if "born nursery_family (world D) rx = Some child" for rx child
    using that none [of rx] by fastforce
  with b show "ran (born nursery_family (world D)) = {ActorRef 1, ActorRef 3}"
    by (auto simp: ran_def) (metis option.inject)+
qed

lemma nursery_run:
  obtains E where
    "run_actor nursery (fan_ops nursery) (executor_new (FanParent 0 0 0) parent_ctx busy_nursery) = Some (Done (), E)"
  using nursery_day by (rule run_doneE) simp

theorem fan_in_complete_witness:
  "\<exists>E n t d. run_actor nursery (fan_ops nursery) (executor_new (FanParent 0 0 0) parent_ctx busy_nursery) = Some (Done (), E) \<and>
    actor E = FanParent n t d \<and> unat d = length (List.map_filter box_counted (posted (world E))) \<and> 2 \<le> unat d"
proof -
  obtain E where E: "run_actor nursery (fan_ops nursery) (executor_new (FanParent 0 0 0) parent_ctx busy_nursery) = Some (Done (), E)"
    by (rule nursery_run)
  have c: "mailbox parent_ctx = 0" "notifier parent_ctx = 0" by (simp_all add: parent_ctx_def)
  from fan_in_complete [where c = parent_ctx, unfolded c, OF nursery_host nursery_mail_makes nursery_fan_runtime
      nursery_account E] obtain D n t d where
    D: "run_to_close nursery (fan_ops nursery) (executor_new (FanParent 0 0 0) parent_ctx busy_nursery) = Some (Done (), D)"
    and s: "actor E = FanParent n t d" "unat d = length (List.map_filter box_counted (mail_sent nursery_mail (world E)))"
      "card (ran (born nursery_family (world D))) \<le> unat d" by blast
  have "card (ran (born nursery_family (world D))) = 2" unfolding nursery_births(3) [OF D] by simp
  with s E show ?thesis by (auto simp: nursery_mail_simps)
qed

theorem parent_hears_of_all_children_witness:
  "\<exists>D E. run_to_close nursery (fan_ops nursery) (executor_new (FanParent 0 0 0) parent_ctx busy_nursery) = Some (Done (), D) \<and>
    run_from_close nursery (fan_ops nursery) D = Some (Done (), E) \<and> held nursery_family (world D) = {} \<and>
    (\<exists>b\<in>set (recvs (calls E)). death_notice DeadChild (ActorRef 1) b) \<and>
    (\<exists>b\<in>set (recvs (calls E)). death_notice DeadChild (ActorRef 3) b)"
proof -
  obtain E where E: "run_actor nursery (fan_ops nursery) (executor_new (FanParent 0 0 0) parent_ctx busy_nursery) = Some (Done (), E)"
    by (rule nursery_run)
  have H: "mail_hyps nursery (fan_ops nursery) 0 nursery_mail"
    by (intro mail_host_hyps nursery_host fan_well_behaved fan_mail_user nursery_mail_runtime nursery_mail_makes)
  have c: "mailbox parent_ctx = 0" "notifier parent_ctx = 0" by (simp_all add: parent_ctx_def)
  from parent_hears_of_all_children [where c = parent_ctx, unfolded c, OF H fan_family_hyps [OF nursery_fan_runtime]
      nursery_watch nursery_account E] obtain D where
    D: "run_to_close nursery (fan_ops nursery) (executor_new (FanParent 0 0 0) parent_ctx busy_nursery) = Some (Done (), D)"
    and d: "run_from_close nursery (fan_ops nursery) D = Some (Done (), E)" "held nursery_family (world D) = {}"
    and h: "\<And>rx child. born nursery_family (world D) rx = Some child \<Longrightarrow>
      \<exists>b\<in>set (mail_sent nursery_mail (world D)) \<inter> set (recvs (calls E)). death_notice DeadChild child b" by blast
  show ?thesis using D d h [OF nursery_births(1) [OF D]] h [OF nursery_births(2) [OF D]] by blast
qed

text \<open>One child of this parent, told to stop.\<close>

definition child_ops :: "(fan_actor, fan_message, 'w) actor_ops" where
  "child_ops = with_handlers (default_actor ''ChildActor'') (\<lambda>_. panic) (\<lambda>_. panic) (\<lambda>_. panic)"

lemma child_well_behaved: "well_behaved_actor T child_ops"
  unfolding child_ops_def by (intro default_well_behaved well_behaved_panic)

lemma child_family_hyps: "family_hyps nursery_mail nursery_family DeadChild nursery child_ops"
proof -
  have "user_keeps child_ops nursery_rel"
    by (simp add: user_keeps_def child_ops_def family.env.keeps_ret family.env.keeps_panic triple_panic)
  then show ?thesis
    by (simp add: family_hyps_def world_hyps_def nursery_blocking nursery_runtime_keeps nursery_takings)
qed

lemma nursery_delivers: "mpsc_delivers nursery 0 nursery_mail"
  by (auto simp: mpsc_delivers_def nursery_def nursery_mail_simps mail_in_def split: if_splits)

definition child_ctx :: ctx where
  "child_ctx = \<lparr> address = ActorRef 1, mailbox = 1, notifier = 2, state = Running,
     max_anonymous_actors = 0, overflow_anonymous_actors = 0, into_future_sender = None \<rparr>"

definition nursery_with_child :: nursery where
  "nursery_with_child = new_nursery\<lparr>receivers := 1, alive := [0], cradles := [(0, FanChild 1, child_ctx)],
     channels := 2, notice := Some Shutdown\<rparr>"

lemma child_joined:
  "spawn_join_child nursery (child_task nursery child_ops (FanChild 1) child_ctx 0) nursery_with_child =
    Some (Done (Inr (FanChild 1, child_ctx\<lparr>state := Stopped\<rparr>, Some 0)), nursery_with_child)"
  by code_simp

lemma nursery_drop_posted: "posted (watch_drop_rx nursery rx w) = posted w"
  by (simp add: nursery_def let_go_def)

theorem child_block_keeps_promise_witness:
  "\<exists>w'. child_block nursery child_ops DeadChild (FanChild 1) child_ctx 0 (ActorRef 0) nursery_with_child = Some (Done (), w') \<and>
    0 \<notin> held nursery_family w' \<and> (\<exists>b\<in>set (posted w'). death_notice DeadChild (ActorRef 1) b)"
proof -
  have "run_done (child_block nursery child_ops DeadChild (FanChild 1) child_ctx 0 (ActorRef 0) nursery_with_child)"
    by code_simp
  then obtain w' where w':
    "child_block nursery child_ops DeadChild (FanChild 1) child_ctx 0 (ActorRef 0) nursery_with_child = Some (Done (), w')"
    by (rule run_doneE) simp
  have b: "born nursery_family nursery_with_child 0 = Some (address child_ctx)"
    by (simp add: nursery_family_simps nursery_with_child_def)
  have s: "\<not> handed_over nursery (FanChild 1) (child_ctx\<lparr>state := Stopped\<rparr>) nursery_with_child"
    by (simp add: handed_over_def child_ctx_def)
  have "mpsc_delivers nursery (ref_address (ActorRef 0)) nursery_mail" by (simp add: nursery_delivers)
  from child_block_keeps_promise [OF nursery_watch child_family_hyps child_well_behaved nursery_joins this b child_joined w'] s w'
  show ?thesis by (auto simp: nursery_mail_simps child_ctx_def nursery_drop_posted)
qed

end
