(* ===== verification/Many_Children.thy ===== *)
theory Many_Children
  imports Debug "HOL-Library.Multiset"
begin

text \<open>
  The test \<open>run_parent_and_many_child_to_complition\<close> of \<open>context.rs\<close>: ten children, whose deaths come back in any
  order, so that the test sorts what it finds with the order that Rust derives for the messages.
\<close>

section \<open>The derived order\<close>

text \<open>\<open>derive(PartialOrd, Ord)\<close>: first the constructors in the order of the enum, then the fields from left to right;
  \<open>None\<close> comes before \<open>Some\<close>.\<close>

fun result_rank :: "test_result \<Rightarrow> nat" where
  "result_rank (TestOk n) = 0"
| "result_rank TestPanic = 1"
| "result_rank TestCancel = 2"

fun result_fields :: "test_result \<Rightarrow> test_result \<Rightarrow> bool" where
  "result_fields (TestOk n) (TestOk k) \<longleftrightarrow> n < k"
| "result_fields _ _ \<longleftrightarrow> False"

instantiation test_result :: linorder
begin

definition less_test_result :: "test_result \<Rightarrow> test_result \<Rightarrow> bool" where
  "less_test_result a b \<longleftrightarrow> result_rank a < result_rank b \<or> result_rank a = result_rank b \<and> result_fields a b"

definition less_eq_test_result :: "test_result \<Rightarrow> test_result \<Rightarrow> bool" where
  "less_eq_test_result a b \<longleftrightarrow> a = b \<or> a < (b :: test_result)"

instance
proof
  fix a b c :: test_result
  have irrefl: "\<not> a < a" for a :: test_result by (cases a) (simp_all add: less_test_result_def)
  have trans: "a < b \<Longrightarrow> b < c \<Longrightarrow> a < c" for a b c :: test_result
    by (cases a; cases b; cases c) (auto simp: less_test_result_def)
  have total: "a < b \<or> a = b \<or> b < a" for a b :: test_result
    by (cases a; cases b) (auto simp: less_test_result_def)
  show "(a < b) = (a \<le> b \<and> \<not> b \<le> a)" using irrefl trans by (auto simp: less_eq_test_result_def)
  show "a \<le> a" by (simp add: less_eq_test_result_def)
  show "a \<le> b \<Longrightarrow> b \<le> c \<Longrightarrow> a \<le> c" using trans by (auto simp: less_eq_test_result_def)
  show "a \<le> b \<Longrightarrow> b \<le> a \<Longrightarrow> a = b" using irrefl trans by (auto simp: less_eq_test_result_def)
  show "a \<le> b \<or> b \<le> a" using total by (auto simp: less_eq_test_result_def)
qed

end

fun message_rank :: "test_message \<Rightarrow> nat" where
  "message_rank Normal = 0"
| "message_rank (SpawnChild n m) = 1"
| "message_rank (SpawnAnonymous t n) = 2"
| "message_rank (SpawnAnonymousTask t) = 3"
| "message_rank (DespawnAnonymous n) = 4"
| "message_rank (Despawn r) = 5"
| "message_rank StopNow = 6"
| "message_rank AbortNow = 7"
| "message_rank PanicNow = 8"

fun message_fields :: "test_message \<Rightarrow> test_message \<Rightarrow> bool" where
  "message_fields (SpawnChild n a) (SpawnChild k b) \<longleftrightarrow> n < k \<or> n = k \<and>
     (case b of None \<Rightarrow> False | Some y \<Rightarrow> (case a of None \<Rightarrow> True | Some x \<Rightarrow>
        message_rank x < message_rank y \<or> message_rank x = message_rank y \<and> message_fields x y))"
| "message_fields (SpawnAnonymous t n) (SpawnAnonymous u k) \<longleftrightarrow> t < u \<or> t = u \<and> n < k"
| "message_fields (SpawnAnonymousTask t) (SpawnAnonymousTask u) \<longleftrightarrow> t < u"
| "message_fields (DespawnAnonymous n) (DespawnAnonymous k) \<longleftrightarrow> n < k"
| "message_fields (Despawn r) (Despawn q) \<longleftrightarrow> r < q"
| "message_fields _ _ \<longleftrightarrow> False"

text \<open>That it is a linear order: messages of one rank are compared by their fields.\<close>

lemma message_fields_irrefl: "\<not> message_fields a a"
proof (induction a)
  case (SpawnChild n m)
  then show ?case by (cases m) simp_all
qed simp_all

fun_cases message_fields_SpawnE: "message_fields (SpawnChild n a) b"
fun_cases message_fields_AnonymousE: "message_fields (SpawnAnonymous t n) b"
fun_cases message_fields_TaskE: "message_fields (SpawnAnonymousTask t) b"
fun_cases message_fields_DespawnAnonymousE: "message_fields (DespawnAnonymous n) b"
fun_cases message_fields_DespawnE: "message_fields (Despawn r) b"

lemmas message_fields_elims = message_fields_SpawnE message_fields_AnonymousE message_fields_TaskE
  message_fields_DespawnAnonymousE message_fields_DespawnE

lemma message_fields_trans: "message_fields a b \<Longrightarrow> message_fields b c \<Longrightarrow> message_fields a c"
proof (induction a b arbitrary: c rule: message_fields.induct)
  case (1 n a k b)
  from 1(3) obtain l d where c: "c = SpawnChild l d" by (elim message_fields_SpawnE)
  show ?case
  proof (cases "n < k \<or> k < l")
    case True
    then show ?thesis using 1(2,3) by (auto simp: c)
  next
    case False
    with 1(2,3) obtain y z where b: "b = Some y" "d = Some z" "n = k" "k = l"
      by (auto simp: c split: option.splits)
    show ?thesis
    proof (cases a)
      case None
      then show ?thesis by (simp add: c b)
    next
      case (Some x)
      have IH: "message_fields x y \<Longrightarrow> message_fields y e \<Longrightarrow> message_fields x e" for e by (rule 1(1) [OF b(1) Some])
      show ?thesis
        using 1(2,3) IH [of z] by (auto simp: c b Some)
    qed
  qed
next
  case (2 t n u k)
  then show ?case by (cases c) auto
qed (auto elim: message_fields_elims)

lemma message_fields_total: "message_rank a = message_rank b \<Longrightarrow> message_fields a b \<or> a = b \<or> message_fields b a"
proof (induction a arbitrary: b)
  case (SpawnChild n m)
  from SpawnChild.prems obtain k q where b: "b = SpawnChild k q" by (cases b) simp_all
  show ?case
  proof (cases m)
    case (Some x)
    with SpawnChild.IH [of x] have IH: "message_rank x = message_rank y \<Longrightarrow> message_fields x y \<or> x = y \<or> message_fields y x" for y
      by simp
    show ?thesis
    proof (cases q)
      case q: (Some y)
      show ?thesis using IH [of y] by (auto simp: b Some q neq_iff)
    qed (auto simp: b Some)
  qed (auto simp: b split: option.splits)
next
  case (SpawnAnonymous t n)
  then show ?case by (cases b) auto
next
  case (SpawnAnonymousTask t)
  then show ?case by (cases b) auto
next
  case (DespawnAnonymous n)
  then show ?case by (cases b) auto
next
  case (Despawn r)
  then show ?case by (cases b) auto
qed (case_tac b; simp)+

instantiation test_message :: linorder
begin

definition less_test_message :: "test_message \<Rightarrow> test_message \<Rightarrow> bool" where
  "less_test_message a b \<longleftrightarrow> message_rank a < message_rank b \<or> message_rank a = message_rank b \<and> message_fields a b"

definition less_eq_test_message :: "test_message \<Rightarrow> test_message \<Rightarrow> bool" where
  "less_eq_test_message a b \<longleftrightarrow> a = b \<or> a < (b :: test_message)"

instance
proof
  fix a b c :: test_message
  have irrefl: "\<not> a < a" for a :: test_message by (simp add: less_test_message_def message_fields_irrefl)
  have trans: "a < b \<Longrightarrow> b < c \<Longrightarrow> a < c" for a b c :: test_message
    using message_fields_trans [of a b c] by (auto simp: less_test_message_def)
  have total: "a < b \<or> a = b \<or> b < a" for a b :: test_message
    using message_fields_total [of a b] by (auto simp: less_test_message_def neq_iff)
  show "(a < b) = (a \<le> b \<and> \<not> b \<le> a)" using irrefl trans by (auto simp: less_eq_test_message_def)
  show "a \<le> a" by (simp add: less_eq_test_message_def)
  show "a \<le> b \<Longrightarrow> b \<le> c \<Longrightarrow> a \<le> c" using trans by (auto simp: less_eq_test_message_def)
  show "a \<le> b \<Longrightarrow> b \<le> a \<Longrightarrow> a = b" using irrefl trans by (auto simp: less_eq_test_message_def)
  show "a \<le> b \<or> b \<le> a" using total by (auto simp: less_eq_test_message_def)
qed

end

section \<open>The test\<close>

definition ten :: "usize list" where
  "ten = map of_nat [1..<11]"

fun expect_messages :: "test_message list \<Rightarrow> (unit, debuggable) io" where
  "expect_messages [] = ret ()"
| "expect_messages (m # ms) = io_seq (expect_message m) (expect_messages ms)"

text \<open>\<open>while let Some(msg) = debuggable.shift_message() { list.push(msg); }\<close>\<close>

definition collect_round :: "(unit flow, debuggable \<times> test_message list) io" where
  "collect_round =
     io_bind (zoom fst (\<lambda>a (_, l). (a, l)) shift_message) (\<lambda>next. case next of
         Some msg \<Rightarrow> io_seq (modify (\<lambda>(a, l). (a, l @ [msg]))) (ret Again)
       | None \<Rightarrow> ret (Leave ()))"

definition collect_messages :: "(test_message list, debuggable) io" where
  "collect_messages = (\<lambda>a. case io_loop collect_round (a, []) of
       None \<Rightarrow> None
     | Some (Panic, (a', _)) \<Rightarrow> Some (Panic, a')
     | Some (Done _, (a', l)) \<Rightarrow> Some (Done l, a'))"

text \<open>The deaths, from the last one of the sorted list (\<open>list.pop()\<close>).\<close>

fun expect_deaths :: "test_message list \<Rightarrow> usize list \<Rightarrow> (unit, debuggable) io" where
  "expect_deaths l [] = ret ()"
| "expect_deaths l (i # is) =
     io_seq (io_assert (l \<noteq> [] \<and> last l = Despawn (TestOk i)))
     (io_seq expect_system_message (expect_deaths (butlast l) is))"

definition many_script :: "(unit, debuggable) io" where
  "many_script =
     io_seq expect_start
     (io_seq (expect_messages (map (\<lambda>i. SpawnChild i None) ten))
     (io_seq expect_system_message
     (io_seq expect_stopping
     (io_bind collect_messages (\<lambda>list.
     io_seq expect_stopped_event_in_state
     (io_seq (expect_deaths (sort list) (rev ten))
     (io_seq expect_end expect_empty)))))))"

fun send_all_async ::
  "(debuggable, debug_message, 'w) tokio \<Rightarrow> actor_ref \<Rightarrow> test_message list \<Rightarrow> (unit, 'w) io" where
  "send_all_async T addr [] = ret ()"
| "send_all_async T addr (m # ms) =
     io_bind (io_bind (send_async T addr (Test m)) unwrap_result) (\<lambda>_. send_all_async T addr ms)"

definition run_parent_and_many_child_to_complition :: "(debuggable, debug_message, 'w) tokio \<Rightarrow> (unit, 'w) io" where
  "run_parent_and_many_child_to_complition T =
     io_bind (debug_start T (debuggable_default ParentActor)) (\<lambda>addr.
     io_bind (send_all_async T addr (map (\<lambda>i. SpawnChild i None) ten)) (\<lambda>_.
     io_bind (io_bind (into_future T addr) unwrap_result) (check_script many_script)))"

section \<open>What it accepts\<close>

definition passes :: "(unit, debuggable) io \<Rightarrow> debuggable \<Rightarrow> bool" where
  "passes script a \<longleftrightarrow> (\<exists>t. script a = Some (Done (), t))"

lemma passes_state:
  "passes (io_seq (expect_state s) k) a \<longleftrightarrow> (\<exists>r. dbg_state a = s # r \<and> passes k (a\<lparr>dbg_state := r\<rparr>))"
  by (auto simp: passes_def io_seq_run expect_state_run split: list.splits if_splits)

lemma passes_system:
  "passes (io_seq expect_system_message k) a \<longleftrightarrow>
     (\<exists>r. dbg_state a = LcPreRun # LcPostRun # r \<and> passes k (a\<lparr>dbg_state := r\<rparr>))"
  by (auto simp: passes_def expect_system_message_def io_seq_run expect_state_run split: list.splits if_splits)

lemma passes_message:
  "passes (io_seq (expect_message m) k) a \<longleftrightarrow>
     (\<exists>r ms. dbg_state a = LcPreRun # LcPostRun # r \<and> dbg_messages a = m # ms \<and>
        passes k (a\<lparr>dbg_state := r, dbg_messages := ms\<rparr>))"
  by (cases a) (auto simp: passes_def expect_message_def shift_message_def io_seq_run io_bind_run call_run io_assert_run
      expect_state_run split: list.splits if_splits)

abbreviation cycles :: "nat \<Rightarrow> actor_lifecycle list" where
  "cycles n \<equiv> concat (replicate n [LcPreRun, LcPostRun])"

lemma passes_messages:
  "passes (io_seq (expect_messages ms) k) a \<longleftrightarrow>
     (\<exists>r rest. dbg_state a = cycles (length ms) @ r \<and> dbg_messages a = ms @ rest \<and>
        passes k (a\<lparr>dbg_state := r, dbg_messages := rest\<rparr>))"
proof (induction ms arbitrary: a)
  case Nil
  then show ?case by (simp add: passes_def io_seq_run ret_run)
next
  case (Cons m ms)
  have "io_seq (expect_messages (m # ms)) k = io_seq (expect_message m) (io_seq (expect_messages ms) k)"
    by (rule ext) (simp add: io_seq_run split: option.splits res.splits)
  then show ?case by (auto simp: passes_message Cons.IH)
qed

lemma collect_round_run:
  "collect_round (a, l) = (case dbg_messages a of [] \<Rightarrow> Some (Done (Leave ()), (a, l))
     | m # ms \<Rightarrow> Some (Done Again, (a\<lparr>dbg_messages := ms\<rparr>, l @ [m])))"
  by (simp add: collect_round_def shift_message_def io_simps split: list.split)

lemma collect_loop:
  "io_loop collect_round (a\<lparr>dbg_messages := ms\<rparr>, l) = Some (Done (), (a\<lparr>dbg_messages := []\<rparr>, l @ ms))"
proof (induction ms arbitrary: l)
  case Nil
  show ?case by (subst io_loop.simps) (simp add: collect_round_run)
next
  case (Cons m ms)
  show ?case by (subst io_loop.simps) (simp add: collect_round_run Cons.IH)
qed

lemma passes_collect:
  "passes (io_bind collect_messages k) a \<longleftrightarrow> passes (k (dbg_messages a)) (a\<lparr>dbg_messages := []\<rparr>)"
  using collect_loop [where a = a and ms = "dbg_messages a" and l = "[]"] by (simp add: passes_def collect_messages_def io_bind_run)

lemma passes_stopped_somewhere:
  "passes (io_seq expect_stopped_event_in_state k) a \<longleftrightarrow>
     LcStopped \<in> set (dbg_state a) \<and> passes k (a\<lparr>dbg_state := remove1 LcStopped (dbg_state a)\<rparr>)"
  by (auto simp: passes_def expect_stopped_event_in_state_def io_seq_run io_bind_run gets_run modify_run panic_run)

lemma passes_deaths:
  "passes (io_seq (expect_deaths l is) k) a \<longleftrightarrow>
     (\<exists>r xs. dbg_state a = cycles (length is) @ r \<and> l = xs @ rev (map (Despawn \<circ> TestOk) is) \<and> passes k (a\<lparr>dbg_state := r\<rparr>))"
proof (induction "is" arbitrary: l a)
  case Nil
  then show ?case by (simp add: passes_def io_seq_run ret_run)
next
  case (Cons i "is")
  have "passes (io_seq (expect_deaths l (i # is)) k) a \<longleftrightarrow> (l \<noteq> [] \<and> last l = Despawn (TestOk i)) \<and>
      passes (io_seq expect_system_message (io_seq (expect_deaths (butlast l) is) k)) a"
    by (auto simp: passes_def io_seq_run io_assert_run split: option.splits res.splits)
  then show ?case
    by (cases l rule: rev_cases) (auto simp: passes_system Cons.IH)
qed

lemma passes_empty: "passes expect_empty a \<longleftrightarrow> dbg_state a = [] \<and> dbg_messages a = []"
  using accepts_empty by (auto simp: accepts_log_def passes_def)

lemma many_script_passes:
  "passes many_script a \<longleftrightarrow>
     (\<exists>rest ms xs. dbg_state a = LcStart # cycles 10 @ [LcPreRun, LcPostRun, LcStopping] @ rest \<and>
        LcStopped \<in> set rest \<and> remove1 LcStopped rest = cycles 10 @ [LcEnd] \<and>
        dbg_messages a = map (\<lambda>i. SpawnChild i None) ten @ ms \<and>
        sort ms = xs @ map (Despawn \<circ> TestOk) ten)"
proof -
  have l: "length ten = 10" by (simp add: ten_def)
  show ?thesis
    unfolding many_script_def expect_start_def expect_stopping_def expect_end_def passes_state passes_messages
      passes_system passes_collect passes_stopped_somewhere passes_deaths passes_empty
    by (auto simp: l rev_map)
qed

text \<open>The expectations of the test hold exactly for the structs that recorded the ten spawns, the request to
  stop, and then the ten deaths in whatever order, with the end of the shutdown anywhere among them.\<close>

theorem many_script_accepts:
  "(\<exists>t. many_script a = Some (Done (), t)) \<longleftrightarrow>
     (\<exists>rest ms xs. dbg_state a = LcStart # cycles 10 @ [LcPreRun, LcPostRun, LcStopping] @ rest \<and>
        LcStopped \<in> set rest \<and> remove1 LcStopped rest = cycles 10 @ [LcEnd] \<and>
        dbg_messages a = map (\<lambda>i. SpawnChild i None) ten @ ms \<and>
        sort ms = xs @ map (Despawn \<circ> TestOk) ten)"
  unfolding passes_def [symmetric] by (rule many_script_passes)

text \<open>So any order of the ten deaths passes, and any place for the end of the shutdown.\<close>

lemma deaths_sorted: "sorted (map (Despawn \<circ> TestOk) ten)"
  by code_simp

corollary many_script_any_order:
  assumes "dbg_state a = LcStart # cycles 10 @ [LcPreRun, LcPostRun, LcStopping] @ rest" "LcStopped \<in> set rest"
    and "remove1 LcStopped rest = cycles 10 @ [LcEnd]"
    and "dbg_messages a = map (\<lambda>i. SpawnChild i None) ten @ ms" "mset ms = mset (map (Despawn \<circ> TestOk) ten)"
  shows "\<exists>t. many_script a = Some (Done (), t)"
proof -
  have "sort ms = [] @ map (Despawn \<circ> TestOk) ten"
    using assms(5) by (simp only: append_Nil) (rule properties_for_sort [OF _ deaths_sorted], simp)
  with assms(1-4) show ?thesis unfolding passes_def [symmetric] many_script_passes by blast
qed

end
