(* ===== verification/Function_Actor.thy ===== *)
theory Function_Actor
  imports Envelope
begin

text \<open>
  \<open>AnonymousActor\<close> of \<open>anonymous.rs\<close>: an actor made from a function. The function is taken out of the
  struct by the first message. A call of it is a computation on the world; in the asynchronous
  case its result is a future.
\<close>

datatype ('m, 'o, 'w) fn_actor = FnActor (fn_f: "('m \<Rightarrow> ('o, 'w) io) option")

definition fn_actor_from :: "('m \<Rightarrow> ('o, 'w) io) \<Rightarrow> ('m, 'o, 'w) fn_actor" where
  "fn_actor_from f = FnActor (Some f)"

definition fn_actor_impl :: "('a, 'w) actor_impl" where
  "fn_actor_impl = (default_actor ''AnoymousFnActor'')\<lparr>impl_mailbox_size := 1\<rparr>"

text \<open>\<open>self.f.take().unwrap()\<close>, and the three handlers.\<close>

definition take_f :: "('m \<Rightarrow> ('o, 'w) io, (('m, 'o, 'w) fn_actor, 'w) env) io" where
  "take_f =
     io_bind (gets (\<lambda>(self, _, _). fn_f self)) (\<lambda>f.
     io_seq (modify (\<lambda>(_, c, w). (FnActor None, c, w))) (unwrap f))"

definition fn_handle :: "'m \<Rightarrow> (unit, (('m, unit, 'w) fn_actor, 'w) env) io" where
  "fn_handle message = io_bind take_f (\<lambda>f. in_ctx (in_world (f message)))"

definition fn_ask :: "'m \<Rightarrow> ('m ask_result, (('m, 'm, 'w) fn_actor, 'w) env) io" where
  "fn_ask message = io_bind take_f (\<lambda>f. io_bind (in_ctx (in_world (f message))) (\<lambda>out. ret (Reply out)))"

definition fn_async_ask ::
  "'m \<Rightarrow> (('m, ('m, ('m, 'w) io, 'w) fn_actor \<times> 'w) io, (('m, ('m, 'w) io, 'w) fn_actor, 'w) env) io" where
  "fn_async_ask message =
     io_bind take_f (\<lambda>f. io_bind (in_ctx (in_world (f message))) (\<lambda>fut. ret (on_world fut)))"

lemma take_f_run [io_simps]:
  "take_f (self, c, w) = Some (case fn_f self of None \<Rightarrow> Panic | Some f \<Rightarrow> Done f, (FnActor None, c, w))"
  by (simp add: take_f_def io_simps)

lemma take_f_seq: "io_bind (io_bind take_f k) (\<lambda>_. io_bind take_f h) (self, c, w) =
  (case fn_f self of
     None \<Rightarrow> Some (Panic, (FnActor None, c, w))
   | Some f \<Rightarrow> io_bind (k f) (\<lambda>_. io_bind take_f h) (FnActor None, c, w))"
  by (simp add: io_simps split: option.split)

text \<open>The handlers leave a struct without its function.\<close>

lemma fn_handle_takes: "fn_handle m (self, c, w) = Some (x, (self', c', w')) \<Longrightarrow> fn_f self' = None"
  by (auto simp: fn_handle_def io_simps split: option.splits)

lemma fn_ask_takes: "fn_ask m (self, c, w) = Some (x, (self', c', w')) \<Longrightarrow> fn_f self' = None"
  by (auto simp: fn_ask_def io_simps split: option.splits res.splits)

lemma fn_async_ask_takes: "fn_async_ask m (self, c, w) = Some (x, (self', c', w')) \<Longrightarrow> fn_f self' = None"
  by (auto simp: fn_async_ask_def io_simps split: option.splits res.splits)

text \<open>An actor made from a function handles one message: the function is called on it, and the second
  message panics without a call.\<close>

theorem fn_handle_once:
  "io_seq (fn_handle m1) (fn_handle m2) (fn_actor_from f, c, w) =
    (case f m1 w of None \<Rightarrow> None | Some (x, w') \<Rightarrow> Some (Panic, (FnActor None, c, w')))"
  by (auto simp: fn_handle_def fn_actor_from_def io_simps split: option.split res.split)

end
