(* ===== verification/In_Time.thy ===== *)
theory In_Time
  imports Family Runs
begin

text \<open>
  The bound of a stopping actor from both sides (\<open>executor.rs\<close>): one whose children all end within ten idle seconds
  after they were told to shut down does not give up on them, closes its mailbox and goes on; one of whose children
  is still there after ten idle seconds gives up in the eleventh. Messages that it handles meanwhile make no difference.
\<close>

text \<open>
  \<open>deadline w\<close> is the number of idle seconds from the world \<open>w\<close> on after which the last child has let go of its receiver.
  A second that the actor sleeps is one of them; a message, which the actor handles meanwhile, takes none and
  does not keep the children.
\<close>

definition children_end ::
  "('a, 'm, 'w) tokio \<Rightarrow> ('a, 'm, 'w) actor_ops \<Rightarrow> handle \<Rightarrow> handle \<Rightarrow> ('w \<Rightarrow> nat) \<Rightarrow> bool" where
  "children_end T P mb n deadline \<longleftrightarrow>
     (\<forall>w. watch_is_closed T n w \<longleftrightarrow> deadline w = 0) \<and>
     (\<forall>w w'. select_stopping T mb 1 w = Some (StopSlept, w') \<longrightarrow> deadline w' \<le> deadline w - 1) \<and>
     (\<forall>w r w'. select_stopping T mb 1 w = Some (StopRecv r, w') \<longrightarrow> deadline w' \<le> deadline w) \<and>
     (\<forall>b E ev E'. process_message T P b E = Some (Done ev, E') \<longrightarrow> deadline (world E') \<le> deadline (world E)) \<and>
     (\<forall>w. deadline (watch_send T n (Some Shutdown) w) = deadline w \<and> deadline (mpsc_close T mb w) = deadline w)"

lemma children_endD:
  assumes "children_end T P mb n deadline"
  shows "watch_is_closed T n w \<longleftrightarrow> deadline w = 0"
    and "select_stopping T mb 1 w = Some (StopSlept, w') \<Longrightarrow> deadline w' \<le> deadline w - 1"
    and "select_stopping T mb 1 w = Some (StopRecv r, w') \<Longrightarrow> deadline w' \<le> deadline w"
    and "process_message T P b E = Some (Done ev, E') \<Longrightarrow> deadline (world E') \<le> deadline (world E)"
    and "deadline (watch_send T n (Some Shutdown) w) = deadline w" "deadline (mpsc_close T mb w) = deadline w"
  using assms unfolding children_end_def by blast+

text \<open>
  From an executor with \<open>J\<close> on, every message that comes in while the actor is stopping is handled without a panic, and
  \<open>J\<close> holds on.
\<close>

definition handles_mail ::
  "('a, 'm, 'w) tokio \<Rightarrow> ('a, 'm, 'w) actor_ops \<Rightarrow> (('a, 'm, 'w) executor \<Rightarrow> bool) \<Rightarrow> bool" where
  "handles_mail T P J \<longleftrightarrow>
     (\<forall>E ev w. J E \<longrightarrow> select_stopping T (mailbox (ectx E)) 1 (world E) = Some (ev, w) \<longrightarrow> (case ev of
        StopRecv (Some b) \<Rightarrow> (\<exists>r E'. process_message T P b (E\<lparr>world := w\<rparr>) = Some (Done r, E') \<and> J E')
      | StopRecv None \<Rightarrow> J (E\<lparr>world := w\<rparr>)
      | StopSlept \<Rightarrow> J (E\<lparr>world := w\<rparr>))) \<and>
     (\<forall>E. J E \<longrightarrow> J (E\<lparr>world := watch_send T (notifier (ectx E)) (Some Shutdown) (world E)\<rparr>))"

lemma handles_mailD:
  assumes "handles_mail T P J" "J E"
  shows "select_stopping T (mailbox (ectx E)) 1 (world E) = Some (StopRecv (Some b), w) \<Longrightarrow>
      \<exists>r E'. process_message T P b (E\<lparr>world := w\<rparr>) = Some (Done r, E') \<and> J E'"
    and "select_stopping T (mailbox (ectx E)) 1 (world E) = Some (StopRecv None, w) \<Longrightarrow> J (E\<lparr>world := w\<rparr>)"
    and "select_stopping T (mailbox (ectx E)) 1 (world E) = Some (StopSlept, w) \<Longrightarrow> J (E\<lparr>world := w\<rparr>)"
    and "J (E\<lparr>world := watch_send T (notifier (ectx E)) (Some Shutdown) (world E)\<rparr>)"
  using assms unfolding handles_mail_def by fastforce+

text \<open>One event of the loop, before it looks at its children: a message or a second.\<close>

definition stopping_event ::
  "('a, 'm, 'w) tokio \<Rightarrow> ('a, 'm, 'w) actor_ops \<Rightarrow> (unit, ('a, 'm, 'w) executor \<times> nat) io" where
  "stopping_event T P =
     io_bind (gets snd) (\<lambda>k.
     io_bind (zoom fst (\<lambda>E (_, n). (E, n))
       (io_bind (gets (mailbox \<circ> ectx)) (\<lambda>mb. in_w (await (select_stopping T mb 1))))) (\<lambda>event. case event of
         StopRecv (Some msg) \<Rightarrow> zoom fst (\<lambda>E (_, n). (E, n)) (io_bind (process_message T P msg) (\<lambda>_. ret ()))
       | StopRecv None \<Rightarrow> ret ()
       | StopSlept \<Rightarrow> (if k = 10 then panic else modify (\<lambda>(E, n). (E, n + 1)))))"

lemma stopping_round_event:
  "stopping_round T P s = (case stopping_event T P s of
       None \<Rightarrow> None | Some (Panic, t) \<Rightarrow> Some (Panic, t)
     | Some (Done _, (E, k)) \<Rightarrow> if watch_is_closed T (notifier (ectx E)) (world E)
         then Some (Done (Leave ()), (E\<lparr>world := mpsc_close T (mailbox (ectx E)) (world E)\<rparr>, k))
         else Some (Done Again, (E, k)))"
  by (cases s) (auto simp: stopping_round_def stopping_event_def io_simps set_world_def
      split: option.splits res.splits prod.splits stopping_event.splits)

lemma process_same_channels:
  "mail_hyps T P mb M \<Longrightarrow> process_message T P b E = Some (Done ev, E') \<Longrightarrow> same_channels E E'"
  using keepsD [OF same_channels.process, of T P b E ev E'] by (simp add: same_channels_if_def mail_hyps_def)

text \<open>The events: a second, a closed mailbox, a message.\<close>

lemma stopping_event_cases:
  assumes H: "mail_hyps T P mb M" and J: "handles_mail T P J" "J E" and mb: "mailbox (ectx E) = mb"
    and run: "stopping_event T P (E, k) = Some (x, (E', k'))"
  obtains (slept) w where "select_stopping T mb 1 (world E) = Some (StopSlept, w)" "E' = E\<lparr>world := w\<rparr>" "J E'"
      "if k = 10 then x = Panic \<and> k' = k else x = Done () \<and> k' = Suc k"
  | (closed) w where "select_stopping T mb 1 (world E) = Some (StopRecv None, w)" "E' = E\<lparr>world := w\<rparr>" "J E'"
      "x = Done ()" "k' = k"
  | (message) b r w where "select_stopping T mb 1 (world E) = Some (StopRecv (Some b), w)"
      "process_message T P b (E\<lparr>world := w\<rparr>) = Some (Done r, E')" "J E'" "x = Done ()" "k' = k" "same_channels E E'"
proof -
  obtain ev w where sel: "select_stopping T mb 1 (world E) = Some (ev, w)"
    using run mb by (auto simp: stopping_event_def io_simps split: option.splits)
  note j = handles_mailD [OF J, unfolded mb]
  show thesis
  proof (cases ev)
    case StopSlept
    with run sel mb j(3) [of w] show thesis
      by (intro slept [of w]) (auto simp: stopping_event_def io_simps split: if_splits)
  next
    case (StopRecv r)
    show thesis
    proof (cases r)
      case None
      with run sel mb StopRecv j(2) [of w] show thesis
        by (intro closed [of w]) (auto simp: stopping_event_def io_simps)
    next
      case (Some b)
      obtain y G where p: "process_message T P b (E\<lparr>world := w\<rparr>) = Some (Done y, G)" "J G"
        using j(1) [of b w] sel StopRecv Some by blast
      have "same_channels E G" using process_same_channels [OF H p(1)] by (simp add: same_channels_def)
      with run sel mb StopRecv Some p show thesis
        by (intro message [of b w y]) (auto simp: stopping_event_def io_simps)
    qed
  qed
qed

section \<open>Within ten seconds\<close>

text \<open>The counter and what the children still need stay within ten seconds.\<close>

definition within_time ::
  "(('a, 'm, 'w) executor \<Rightarrow> bool) \<Rightarrow> handle \<Rightarrow> handle \<Rightarrow> ('w \<Rightarrow> nat) \<Rightarrow> ('a, 'm, 'w) executor \<times> nat \<Rightarrow> bool" where
  "within_time J mb n deadline s \<longleftrightarrow> J (fst s) \<and> mailbox (ectx (fst s)) = mb \<and> notifier (ectx (fst s)) = n \<and>
     0 < deadline (world (fst s)) \<and> snd s + deadline (world (fst s)) \<le> 10"

lemma stopping_event_in_time:
  assumes H: "mail_hyps T P mb M" and J: "handles_mail T P J" and D: "children_end T P mb n deadline"
    and I: "within_time J mb n deadline (E, k)" and run: "stopping_event T P (E, k) = Some (x, (E', k'))"
  shows "x = Done () \<and> J E' \<and> mailbox (ectx E') = mb \<and> notifier (ectx E') = n \<and> k' + deadline (world E') \<le> 10"
proof -
  have E: "J E" "mailbox (ectx E) = mb" "notifier (ectx E) = n" "0 < deadline (world E)" "k + deadline (world E) \<le> 10"
    using I by (simp_all add: within_time_def)
  from H J E(1,2) run show ?thesis
  proof (cases rule: stopping_event_cases)
    case (slept w)
    with E children_endD(2) [OF D slept(1)] show ?thesis by auto
  next
    case (closed w)
    with E children_endD(3) [OF D closed(1)] show ?thesis by auto
  next
    case (message b r w)
    with E children_endD(3) [OF D message(1)] children_endD(4) [OF D message(2)] show ?thesis
      by (auto simp: same_channels_def)
  qed
qed

lemma stopping_round_in_time:
  assumes H: "mail_hyps T P mb M" and J: "handles_mail T P J" and D: "children_end T P mb n deadline"
    and I: "within_time J mb n deadline s" and run: "stopping_round T P s = Some (x, t)"
  shows "case x of Panic \<Rightarrow> False | Done Again \<Rightarrow> within_time J mb n deadline t
    | Done (Leave u) \<Rightarrow> deadline (world (fst t)) = 0 \<and> mail_closed M (world (fst t))"
proof -
  obtain E k y E' k' where s: "s = (E, k)" and e: "stopping_event T P (E, k) = Some (y, (E', k'))"
    using run by (cases s) (auto simp: stopping_round_event split: option.splits)
  note E' = stopping_event_in_time [OF H J D I [unfolded s] e]
  have "children_end T P (mailbox (ectx E')) (notifier (ectx E')) deadline" "mpsc_receiver T (mailbox (ectx E')) M"
    using D H E' by (simp_all add: mail_hyps_def)
  with run e E' show ?thesis
    by (auto simp: s stopping_round_event within_time_def children_endD(1,6) mpsc_receiverD(5) split: if_splits)
qed

lemma stopping_in_time_run:
  assumes H: "mail_hyps T P (mailbox (ectx E)) M" and J: "handles_mail T P J" "J E"
    and D: "children_end T P (mailbox (ectx E)) (notifier (ectx E)) deadline" and d: "deadline (world E) \<le> 10"
    and run: "stopping T P E = Some (x, E')"
  shows "x = Done () \<and> deadline (world E') = 0 \<and> mail_closed M (world E')"
proof (cases "deadline (world E) = 0")
  case True
  have "mpsc_receiver T (mailbox (ectx E)) M" using H by (simp add: mail_hyps_def)
  with run True show ?thesis by (auto simp: stopping_def io_simps children_endD(1,6) [OF D] mpsc_receiverD(5))
next
  case False
  let ?F = "E\<lparr>world := watch_send T (notifier (ectx E)) (Some Shutdown) (world E)\<rparr>"
  let ?Q = "\<lambda>x G. x = Done () \<and> deadline (world G) = 0 \<and> mail_closed M (world G)"
  from run False obtain k where l: "io_loop (stopping_round T P) (?F, 0) = Some (x, (E', k))"
    by (auto simp: stopping_def io_simps children_endD(1) [OF D] split: option.splits)
  have "?Q x (fst (E', k))"
  proof (rule io_loop_rule [where I = "within_time J (mailbox (ectx E)) (notifier (ectx E)) deadline"
        and Q = "\<lambda>x t. ?Q x (fst t)", OF l])
    show "within_time J (mailbox (ectx E)) (notifier (ectx E)) deadline (?F, 0)"
      using False d handles_mailD(4) [OF J] by (simp add: within_time_def children_endD(5) [OF D])
  qed (auto dest: stopping_round_in_time [OF H J(1) D])
  then show ?thesis by simp
qed

text \<open>C18: a stopping actor whose children all end within ten idle seconds after it told them to shut down, and that
  handles the messages it is sent meanwhile without a panic, returns from \<open>stopping\<close>: it does not give up on its
  children, none of them has a receiver any more, and its mailbox is closed.\<close>

theorem stopping_in_time:
  assumes "mail_hyps T P (mailbox (ectx E)) M" "live T P (mailbox (ectx E)) M budget" "\<not> mail_closed M (world E)"
    and "handles_mail T P J" "J E"
    and "children_end T P (mailbox (ectx E)) (notifier (ectx E)) deadline" "deadline (world E) \<le> 10"
  shows "\<exists>E'. stopping T P E = Some (Done (), E') \<and> deadline (world E') = 0 \<and> mail_closed M (world E')"
  using stopping_total [OF assms(1,2) refl assms(3)] stopping_in_time_run [OF assms(1,4-7)] by blast

section \<open>In the eleventh second\<close>

text \<open>
  \<open>slept w\<close> counts the idle seconds until the world \<open>w\<close>, while a child is there: the actor sleeps for one more,
  and what else it does takes none.
\<close>

definition counts_idle ::
  "('a, 'm, 'w) tokio \<Rightarrow> ('a, 'm, 'w) actor_ops \<Rightarrow> handle \<Rightarrow> handle \<Rightarrow> ('w \<Rightarrow> int) \<Rightarrow> bool" where
  "counts_idle T P mb n slept \<longleftrightarrow>
     (\<forall>w w'. select_stopping T mb 1 w = Some (StopSlept, w') \<longrightarrow> watch_is_closed T n w \<or> slept w' = slept w + 1) \<and>
     (\<forall>w r w'. select_stopping T mb 1 w = Some (StopRecv r, w') \<longrightarrow> slept w' = slept w) \<and>
     (\<forall>b E ev E'. process_message T P b E = Some (Done ev, E') \<longrightarrow> slept (world E') = slept (world E)) \<and>
     (\<forall>w. slept (watch_send T n (Some Shutdown) w) = slept w)"

lemma counts_idleD:
  assumes "counts_idle T P mb n slept"
  shows "select_stopping T mb 1 w = Some (StopSlept, w') \<Longrightarrow> \<not> watch_is_closed T n w \<Longrightarrow> slept w' = slept w + 1"
    and "select_stopping T mb 1 w = Some (StopRecv r, w') \<Longrightarrow> slept w' = slept w"
    and "process_message T P b E = Some (Done ev, E') \<Longrightarrow> slept (world E') = slept (world E)"
    and "slept (watch_send T n (Some Shutdown) w) = slept w"
  using assms unfolding counts_idle_def by blast+

definition waiting ::
  "(('a, 'm, 'w) executor \<Rightarrow> bool) \<Rightarrow> handle \<Rightarrow> handle \<Rightarrow> ('w \<Rightarrow> int) \<Rightarrow> int \<Rightarrow> ('a, 'm, 'w) executor \<times> nat \<Rightarrow> bool" where
  "waiting J mb n slept s0 s \<longleftrightarrow> J (fst s) \<and> mailbox (ectx (fst s)) = mb \<and> notifier (ectx (fst s)) = n \<and>
     slept (world (fst s)) = s0 + int (snd s) \<and> snd s \<le> 10"

lemma stopping_round_waiting:
  assumes H: "mail_hyps T P mb M" and J: "handles_mail T P J" and C: "counts_idle T P mb n slept"
    and alive: "\<And>w. slept w \<le> s0 + 10 \<Longrightarrow> \<not> watch_is_closed T n w"
    and I: "waiting J mb n slept s0 s" and run: "stopping_round T P s = Some (x, t)"
  shows "case x of Panic \<Rightarrow> slept (world (fst t)) = s0 + 11 | Done Again \<Rightarrow> waiting J mb n slept s0 t
    | Done (Leave u) \<Rightarrow> False"
proof -
  obtain E k y E' k' where s: "s = (E, k)" and e: "stopping_event T P (E, k) = Some (y, (E', k'))"
    using run by (cases s) (auto simp: stopping_round_event split: option.splits)
  have E: "J E" "mailbox (ectx E) = mb" "notifier (ectx E) = n" "slept (world E) = s0 + int k" "k \<le> 10"
    using I by (simp_all add: waiting_def s)
  have open_: "\<not> watch_is_closed T n (world E)" using alive E by simp
  have "y = Panic \<and> slept (world E') = s0 + 11 \<or>
    y = Done () \<and> waiting J mb n slept s0 (E', k') \<and> \<not> watch_is_closed T (notifier (ectx E')) (world E')"
    using H J E(1,2) e
  proof (cases rule: stopping_event_cases)
    case (slept w)
    with E counts_idleD(1) [OF C slept(1) open_] alive show ?thesis by (auto simp: waiting_def split: if_splits)
  next
    case (closed w)
    with E counts_idleD(2) [OF C closed(1)] alive show ?thesis by (auto simp: waiting_def)
  next
    case (message b r w)
    with E counts_idleD(2) [OF C message(1)] counts_idleD(3) [OF C message(2)] alive show ?thesis
      by (auto simp: waiting_def same_channels_def)
  qed
  with run e show ?thesis by (auto simp: s stopping_round_event)
qed

text \<open>C21: a stopping actor of whose children one is still there after ten idle seconds, and so for one that never ends,
  panics in the eleventh idle second, neither before nor after, whatever messages it handles meanwhile.\<close>

theorem stopping_times_out:
  assumes "mail_hyps T P (mailbox (ectx E)) M" "live T P (mailbox (ectx E)) M budget" "\<not> mail_closed M (world E)"
    and "handles_mail T P J" "J E"
    and "counts_idle T P (mailbox (ectx E)) (notifier (ectx E)) slept"
    and "\<And>w. slept w \<le> slept (world E) + 10 \<Longrightarrow> \<not> watch_is_closed T (notifier (ectx E)) w"
  shows "\<exists>E'. stopping T P E = Some (Panic, E') \<and> slept (world E') = slept (world E) + 11"
proof -
  let ?F = "E\<lparr>world := watch_send T (notifier (ectx E)) (Some Shutdown) (world E)\<rparr>"
  let ?I = "waiting J (mailbox (ectx E)) (notifier (ectx E)) slept (slept (world E))"
  let ?Q = "\<lambda>x G. x = Panic \<and> slept (world G) = slept (world E) + 11"
  obtain x E' where run: "stopping T P E = Some (x, E')"
    using stopping_total [OF assms(1,2) refl assms(3)] by blast
  have "\<not> watch_is_closed T (notifier (ectx E)) (world E)" using assms(7) by simp
  with run obtain k where l: "io_loop (stopping_round T P) (?F, 0) = Some (x, (E', k))"
    by (auto simp: stopping_def io_simps split: option.splits)
  have r: "case x of Panic \<Rightarrow> slept (world (fst t)) = slept (world E) + 11 | Done Again \<Rightarrow> ?I t | Done (Leave u) \<Rightarrow> False"
    if "?I s" "stopping_round T P s = Some (x, t)" for s x t
    using that by (rule stopping_round_waiting [OF assms(1,4,6), rotated]) (rule assms(7))
  have "?Q x (fst (E', k))"
  proof (rule io_loop_rule [where I = ?I and Q = "\<lambda>x t. ?Q x (fst t)", OF l])
    show "?I (?F, 0)" using handles_mailD(4) [OF assms(4,5)] by (simp add: waiting_def counts_idleD(4) [OF assms(6)])
  qed (drule (1) r, simp)+
  with run show ?thesis by simp
qed

section \<open>Witnesses\<close>

text \<open>In the sample runtime a child ends in every idle second; the actor has some of them and two messages.\<close>

definition stopping_adder :: "nat \<Rightarrow> (nat, nat, adder_world) executor" where
  "stopping_adder n = executor_new 5 (sample_ctx\<lparr>state := Stopping\<rparr>) ((letters [3, 4])\<lparr>watchers := n\<rparr>)"

definition good_mail :: "(nat, nat, adder_world) executor \<Rightarrow> bool" where
  "good_mail E \<longleftrightarrow> (\<forall>b\<in>set (queue (world E)). box_ok b)"

lemma adder_handles: "handles_mail sample adder good_mail"
proof -
  have "\<exists>r E'. process_message sample adder b E = Some (Done r, E') \<and> good_mail E'" if ok: "box_ok b" and good: "good_mail E" for b E
  proof -
    obtain x E' where "process_message sample adder b E = Some (x, E')" "queue (world E') = queue (world E)" "x \<noteq> Panic"
      using adder_process [of b E] ok by auto
    with good show ?thesis by (cases x) (auto simp: good_mail_def)
  qed
  then show ?thesis
    by (auto simp: handles_mail_def sample_def take_first_def good_mail_def split: list.splits)
qed

lemma stopping_adder_start:
  "mail_hyps sample adder (mailbox (ectx (stopping_adder n))) sample_view" "\<not> mail_closed sample_view (world (stopping_adder n))"
  "live sample adder (mailbox (ectx (stopping_adder n))) sample_view (\<lambda>_. 0)" "good_mail (stopping_adder n)"
  "watchers (world (stopping_adder n)) = n"
  using sample_hyps adder_live
  by (simp_all add: stopping_adder_def sample_view_simps put_def letters_def empty_world_def executor_new_def good_mail_def)

lemma adder_children_end: "children_end sample adder h n watchers"
proof -
  have "watchers (world E') \<le> watchers (world E)" if "process_message sample adder b E = Some (Done ev, E')" for b E ev E'
    using adder_process [of b E] that by auto
  then show ?thesis
    by (auto simp: children_end_def sample_def take_first_def split: list.splits)
qed

lemma adder_counts_idle: "counts_idle sample adder h n (\<lambda>w. - int (watchers w))"
proof -
  have "watchers (world E') = watchers (world E)" if "process_message sample adder b E = Some (Done ev, E')" for b E ev E'
    using adder_process [of b E] that by auto
  then show ?thesis
    by (auto simp: counts_idle_def sample_def take_first_def split: list.splits)
qed

text \<open>Ten children end in time, eleven do not.\<close>

theorem stopping_in_time_witness:
  "\<exists>E'. stopping sample adder (stopping_adder 10) = Some (Done (), E') \<and> watchers (world E') = 0 \<and> shut (world E')"
  using stopping_in_time [where E = "stopping_adder 10", OF stopping_adder_start(1,3,2) adder_handles stopping_adder_start(4) adder_children_end]
  by (simp add: stopping_adder_start(5) sample_view_simps)

theorem stopping_times_out_witness:
  "\<exists>E'. stopping sample adder (stopping_adder 11) = Some (Panic, E') \<and> watchers (world E') = 0"
proof -
  have "\<not> watch_is_closed sample h w" if "- int (watchers w) \<le> - int (watchers (world (stopping_adder 11))) + 10" for h w
    using that by (simp add: stopping_adder_start(5) sample_def)
  from stopping_times_out [where E = "stopping_adder 11", OF stopping_adder_start(1,3,2) adder_handles stopping_adder_start(4) adder_counts_idle this]
  show ?thesis by (simp add: stopping_adder_start(5))
qed

end
