(* ===== verification/Data_Path.thy ===== *)
theory Data_Path
  imports Pipes Tcp_Examples Relays
begin

text \<open>
  From the bytes of a stream to the objects that a connection is asked with: the reader task of \<open>io/mod.rs\<close> with the
  frames of \<open>io/read/exact.rs\<close>. Every request is served a segment of the stream: the frames it was read in, one after the
  other, no byte lost or doubled between two of them or between two requests, and its answer is what the payload makes
  of just these frames. The HTTP server of the examples is an instance, with what that means for bytes after the end of a
  request.
\<close>

section \<open>The stream of a reader task\<close>

text \<open>\<open>bs\<close> was taken out of the stream between two worlds, and nothing else; more may have arrived.\<close>

definition took :: "('w \<Rightarrow> byte list) \<Rightarrow> 'w \<Rightarrow> byte list \<Rightarrow> 'w \<Rightarrow> bool" where
  "took avail w bs w' \<longleftrightarrow> (\<exists>more. bs @ avail w' = avail w @ more)"

lemma took_refl [simp]: "took avail w [] w"
  by (simp add: took_def)

lemma took_append:
  assumes "took avail w as u" "took avail u bs v"
  shows "took avail w (as @ bs) v"
proof -
  obtain m n where "as @ avail u = avail w @ m" "bs @ avail v = avail u @ n"
    using assms by (auto simp: took_def)
  then have "(as @ bs) @ avail v = avail w @ (m @ n)" by (metis append.assoc)
  then show ?thesis unfolding took_def by blast
qed

lemma took_after: "took avail w bs u \<Longrightarrow> took avail u [] v \<Longrightarrow> took avail w bs v"
  using took_append [of avail w bs u "[]" v] by simp

lemma took_before: "took avail w [] u \<Longrightarrow> took avail u bs v \<Longrightarrow> took avail w bs v"
  using took_append [of avail w "[]" u bs v] by simp

text \<open>
  The operations of a reader task that reads frames of \<open>len\<close> bytes from the stream \<open>S\<close>: the frame that comes with a request
  has that size; the future of a read is polled, which takes bytes only in the poll that makes it ready; all else leaves
  the stream to the peer, which may send.
\<close>

definition stream_reader ::
  "(read_frame, 'p, 'o, 'w) reader_env \<Rightarrow> 'w tcp_read \<Rightarrow> ('w \<Rightarrow> byte list) \<Rightarrow> nat \<Rightarrow> bool" where
  "stream_reader R S avail len \<longleftrightarrow> tcp_stream S avail \<and> len < 2 ^ 64 \<and>
     (\<forall>w b w'. select_request R w = Some (b, w') \<longrightarrow> took avail w [] w' \<and>
        (\<forall>f h. b = FutureDone (Some (f, h)) \<longrightarrow> length (buffer f) = len)) \<and>
     (\<forall>f w b f' w'. length (buffer f) = len \<longrightarrow> select_frame R (f, w) = Some (b, (f', w')) \<longrightarrow> (case b of
        FutureDone r \<Rightarrow> (\<exists>u v. took avail w [] u \<and> read_poll S (f, u) = Some (Done (Ready r), (f', v)) \<and> took avail v [] w')
      | _ \<Rightarrow> f' = f \<and> took avail w [] w')) \<and>
     (\<forall>h r w. took avail w [] (send_object R h r w)) \<and> (\<forall>h w. took avail w [] (drop_sender R h w)) \<and>
     (\<forall>w. took avail w [] (send_shutdown R w))"

lemma stream_readerD:
  assumes "stream_reader R S avail len"
  shows "tcp_stream S avail" "len < 2 ^ 64"
    and "select_request R w = Some (c, w') \<Longrightarrow> took avail w [] w'"
    and "select_request R w = Some (FutureDone (Some (f, h)), w') \<Longrightarrow> length (buffer f) = len"
    and "length (buffer f) = len \<Longrightarrow> select_frame R (f, w) = Some (b, (f', w')) \<Longrightarrow> (case b of
        FutureDone r \<Rightarrow> (\<exists>u v. took avail w [] u \<and> read_poll S (f, u) = Some (Done (Ready r), (f', v)) \<and> took avail v [] w')
      | _ \<Rightarrow> f' = f \<and> took avail w [] w')"
    and "took avail w [] (send_object R h obj w)" "took avail w [] (drop_sender R h w)" "took avail w [] (send_shutdown R w)"
  using assms unfolding stream_reader_def by blast+

text \<open>A poll that is ready took the bytes its frame holds, or none.\<close>

lemma read_poll_took:
  assumes S: "tcp_stream S avail" and run: "read_poll S (f, s) = Some (Done (Ready r), (f', s'))"
    and len: "length (buffer f) < 2 ^ 64"
  shows "length (buffer f') = length (buffer f) \<and>
    (case r of Inr (Some _) \<Rightarrow> \<exists>bs. bs \<noteq> [] \<and> holds f' bs \<and> took avail s bs s' | _ \<Rightarrow> took avail s [] s')"
proof (cases "r = Inr (Some ())")
  case True
  have "0 < unat (read f') \<and> unat (read f') \<le> length (buffer f') \<and>
      (\<exists>more. take (unat (read f')) (buffer f') @ avail s' = avail s @ more)" "length (buffer f') = length (buffer f)"
    using read_poll_run [OF S run len] True by simp_all
  then have "holds f' (take (unat (read f')) (buffer f'))" "take (unat (read f')) (buffer f') \<noteq> []"
    "took avail s (take (unat (read f')) (buffer f')) s'" "length (buffer f') = length (buffer f)"
    by (auto simp: holds_def took_def)
  then have "\<exists>bs. bs \<noteq> [] \<and> holds f' bs \<and> took avail s bs s'" "length (buffer f') = length (buffer f)" by blast+
  with True show ?thesis by simp
next
  case False
  obtain p s1 where p: "poll_peek S (length (buffer f)) s = (p, s1)" by force
  have "took avail s [] s1" using S p unfolding tcp_stream_def took_def by simp
  moreover have "s' = s1"
    using run False p by (auto simp: read_poll_def Let_def split: poll.splits sum.splits if_splits prod.splits)
  ultimately show ?thesis
    using read_poll_run [OF S run len] False by (auto split: sum.split option.split)
qed

section \<open>What a request is served\<close>

text \<open>A segment: the sender of a request, the frames that were read for it with the bytes they hold, and the answer.\<close>

record 'o segment =
  seg_sender :: handle
  seg_frames :: "read_frame list"
  seg_chunks :: "byte list list"
  seg_answer :: "'o option"

definition seg_bytes :: "'o segment \<Rightarrow> byte list" where
  "seg_bytes s = concat (seg_chunks s)"

definition seg_events :: "'o segment \<Rightarrow> 'o pipe_event list" where
  "seg_events s = [Requested (seg_sender s),
     case seg_answer s of Some v \<Rightarrow> Answered (seg_sender s) (Inr v) | None \<Rightarrow> Dropped (seg_sender s)]"

text \<open>The answer came with the last frame: the payload has none for the frames before it.\<close>

definition seg_received :: "(read_frame, 'p, 'o, 'w) reader_env \<Rightarrow> 'o segment \<Rightarrow> bool" where
  "seg_received R s \<longleftrightarrow> list_all2 holds (seg_frames s) (seg_chunks s) \<and> [] \<notin> set (seg_chunks s) \<and>
     (case seg_answer s of
        None \<Rightarrow> (\<exists>p. recv_all (payload_recv R) (seg_frames s) (payload_default R) = Some (Done None, p))
      | Some v \<Rightarrow> (\<exists>fs f p q. seg_frames s = fs @ [f] \<and>
          recv_all (payload_recv R) fs (payload_default R) = Some (Done None, p) \<and> payload_recv R f p = Some (Done (Some v), q)))"

lemma recv_all_snoc:
  "recv_all recv fs s = Some (Done None, p) \<Longrightarrow> recv_all recv (fs @ [f]) s = recv f p"
proof (induction fs arbitrary: s)
  case Nil
  then show ?case by (auto simp: io_simps split: option.splits res.splits)
next
  case (Cons g fs)
  then show ?case by (auto simp: io_simps split: option.splits res.splits)
qed

definition fed ::
  "(read_frame, 'p, 'o, 'w) reader_env \<Rightarrow> ('w \<Rightarrow> byte list) \<Rightarrow> nat \<Rightarrow> 'w \<Rightarrow> read_frame list \<Rightarrow> byte list list \<Rightarrow>
   'p \<times> read_frame \<times> 'w \<Rightarrow> bool" where
  "fed R avail len w0 fs cs = (\<lambda>(p, f, w). list_all2 holds fs cs \<and> [] \<notin> set cs \<and> length (buffer f) = len \<and>
     recv_all (payload_recv R) fs (payload_default R) = Some (Done None, p) \<and> took avail w0 (concat cs) w)"

lemma supervised_frame_took:
  assumes R: "stream_reader R S avail len" and f: "length (buffer f) = len"
    and run: "supervisor (reader_parent R \<circ> snd) (select_frame R) (f, w) = Some (Done r, (f', w'))"
  shows "length (buffer f') = len \<and>
    (case r of Success (Inr (Some _)) \<Rightarrow> \<exists>bs. bs \<noteq> [] \<and> holds f' bs \<and> took avail w bs w' | _ \<Rightarrow> took avail w [] w')"
  using run
proof (rule supervisor_cases)
  fix x
  assume r: "r = Success x" and "select_frame R (f, w) = Some (FutureDone x, (f', w'))"
  from stream_readerD(5) [OF R f this(2)] obtain u v where
    u: "took avail w [] u" "read_poll S (f, u) = Some (Done (Ready x), (f', v))" "took avail v [] w'"
    by auto
  have "length (buffer f') = len \<and>
      (case x of Inr (Some _) \<Rightarrow> \<exists>bs. bs \<noteq> [] \<and> holds f' bs \<and> took avail u bs v | _ \<Rightarrow> took avail u [] v)"
    using read_poll_took [OF stream_readerD(1) [OF R] u(2)] stream_readerD(2) [OF R] f by simp
  then show ?thesis
    using took_before [OF u(1)] took_after [OF _ u(3)] r
    by (auto split: sum.splits option.splits)
next
  fix ok
  assume "select_frame R (f, w) = Some (ParentChanged ok, (f', w'))" and r: "\<And>x. r \<noteq> Success x"
  from stream_readerD(5) [OF R f this(1)] r f show ?thesis by (cases r) auto
next
  assume "select_frame R (f, w) = Some (ShutdownFired, (f', w'))" "r = SuperviseShutdown"
  with stream_readerD(5) [OF R f this(1)] f show ?thesis by auto
qed

text \<open>What becomes of a request: the sender is used for the answer of a segment, or still owned after one without.\<close>

definition segment_ends ::
  "(read_frame, 'p, 'o, 'w) reader_env \<Rightarrow> ('w \<Rightarrow> byte list) \<Rightarrow> ('w \<Rightarrow> 'o pipe_event list) \<Rightarrow> 'w \<Rightarrow> handle \<Rightarrow>
   handle option \<Rightarrow> 'w \<Rightarrow> bool" where
  "segment_ends R avail log w0 sender owned w \<longleftrightarrow> (\<exists>s. seg_sender s = sender \<and> seg_received R s \<and>
     took avail w0 (seg_bytes s) w \<and> (case owned of
       Some k \<Rightarrow> k = sender \<and> seg_answer s = None \<and> log w = log w0
     | None \<Rightarrow> \<exists>v. seg_answer s = Some v \<and> log w = log w0 @ [Answered sender (Inr v)]))"

lemma segment_owned:
  assumes "fed R avail len w0 fs cs (p, f, w)" "took avail w [] w'" "log w' = log w0"
  shows "segment_ends R avail log w0 h (Some h) w'"
  unfolding segment_ends_def
  using assms
  by (intro exI [of _ "\<lparr>seg_sender = h, seg_frames = fs, seg_chunks = cs, seg_answer = None\<rparr>"])
    (auto simp: fed_def seg_received_def seg_bytes_def intro: took_after)

lemma fed_snoc:
  assumes "fed R avail len w0 fs cs (p, f, w)" "length (buffer g) = len" "bs \<noteq> []" "holds g bs" "took avail w bs w'"
    and "payload_recv R g p = Some (Done None, q)"
  shows "fed R avail len w0 (fs @ [g]) (cs @ [bs]) (q, g, w')"
  using assms by (auto simp: fed_def recv_all_snoc list_all2_appendI intro: took_append)

lemma segment_answered:
  assumes "fed R avail len w0 fs cs (p, f, w)" "bs \<noteq> []" "holds g bs" "took avail w bs w'"
    and "payload_recv R g p = Some (Done (Some v), q)" "took avail w' [] w''" "log w'' = log w0 @ [Answered h (Inr v)]"
  shows "segment_ends R avail log w0 h None w''"
  unfolding segment_ends_def
  using assms
  by (intro exI [of _ "\<lparr>seg_sender = h, seg_frames = fs @ [g], seg_chunks = cs @ [bs], seg_answer = Some v\<rparr>"])
    (auto simp: fed_def seg_received_def seg_bytes_def list_all2_appendI intro: took_append took_after)

lemma frame_round_segment:
  assumes R: "stream_reader R S avail len" "reader_logged R log"
  shows "triple (\<lambda>(p, f, w). log w = log w0 \<and> (\<exists>fs cs. fed R avail len w0 fs cs (p, f, w))) (frame_round R h)
    (\<lambda>fl (p, f, w). case fl of
         Again \<Rightarrow> log w = log w0 \<and> (\<exists>fs cs. fed R avail len w0 fs cs (p, f, w))
       | Leave owned \<Rightarrow> segment_ends R avail log w0 h owned w)"
proof (rule tripleI, clarify)
  fix p f w fl p' f' w' fs cs
  assume l: "log w = log w0" and fed: "fed R avail len w0 fs cs (p, f, w)"
    and "frame_round R h (p, f, w) = Some (Done fl, (p', f', w'))"
  then obtain r g u where r: "supervisor (reader_parent R \<circ> snd) (select_frame R) (f, w) = Some (Done r, (g, u))"
    and rest: "(case r of
           Success (Inr (Some _)) \<Rightarrow>
             io_bind (gets (fst \<circ> snd)) (\<lambda>frame.
             io_bind (zoom fst (\<lambda>p (_, fw). (p, fw)) (payload_recv R frame))
               (\<lambda>obj. case obj of
                   Some object \<Rightarrow>
                     io_seq (modify (\<lambda>(p, f, w). (p, f, send_object R h (Inr object) w))) (ret (Leave None))
                 | None \<Rightarrow> ret Again))
         | SuperviseContinue \<Rightarrow> ret Again
         | Success (Inl _) \<Rightarrow> ret (Leave (Some h))
         | Success (Inr None) \<Rightarrow> ret (Leave (Some h))
         | Dead \<Rightarrow> ret (Leave (Some h))
         | SuperviseShutdown \<Rightarrow> ret (Leave (Some h))) (p, g, u) = Some (Done fl, (p', f', w'))"
    unfolding frame_round_def by (elim io_bind_DoneE) (auto simp: zoom_run split: option.splits)
  have f: "length (buffer f) = len" using fed by (simp add: fed_def)
  note t = supervised_frame_took [OF R(1) f r]
  have lu: "log u = log w0" using supervised_frame_log [OF R(2) r] l by simp
  show "case fl of
      Again \<Rightarrow> log w' = log w0 \<and> (\<exists>fs cs. fed R avail len w0 fs cs (p', f', w'))
    | Leave owned \<Rightarrow> segment_ends R avail log w0 h owned w'"
  proof (cases "r = Success (Inr (Some ()))")
    case False
    then have u: "took avail w [] u" "length (buffer g) = len"
      using t by (auto split: supervise.splits sum.splits option.splits)
    have "fed R avail len w0 fs cs (p, g, u)"
      using fed u by (auto simp: fed_def intro: took_after)
    moreover have "segment_ends R avail log w0 h (Some h) u"
      using segment_owned [OF fed u(1) lu] .
    ultimately show ?thesis
      using rest lu False by (auto simp: io_simps split: supervise.splits sum.splits option.splits)
  next
    case True
    then obtain bs where bs: "bs \<noteq> []" "holds g bs" "took avail w bs u" "length (buffer g) = len"
      using t by auto
    from True rest obtain obj q where q: "payload_recv R g p = Some (Done obj, q)"
      and w': "(case obj of Some v \<Rightarrow> fl = Leave None \<and> w' = send_object R h (Inr v) u
        | None \<Rightarrow> fl = Again \<and> p' = q \<and> f' = g \<and> w' = u)"
      by (auto simp: io_simps split: option.splits res.splits)
    show ?thesis
    proof (cases obj)
      case None
      with q w' lu fed_snoc [OF fed bs(4,1,2,3)] show ?thesis by auto
    next
      case (Some v)
      with w' have fl: "fl = Leave None" "w' = send_object R h (Inr v) u" by simp_all
      have "segment_ends R avail log w0 h None (send_object R h (Inr v) u)"
        using segment_answered [OF fed bs(1,2,3) q [unfolded Some] stream_readerD(6) [OF R(1)]]
        by (simp add: reader_loggedD(6) [OF R(2)] lu)
      with fl show ?thesis by simp
    qed
  qed
qed

lemma read_object_segment:
  assumes R: "stream_reader R S avail len" "reader_logged R log" and f: "length (buffer f) = len"
    and run: "read_object R f h w = Some (Done owned, w')"
  shows "segment_ends R avail log w h owned w'"
proof -
  have loop: "triple (\<lambda>(p, f, v). log v = log w \<and> (\<exists>fs cs. fed R avail len w fs cs (p, f, v))) (io_loop (frame_round R h))
      (\<lambda>owned (p, f, v). segment_ends R avail log w h owned v)"
    by (rule triple_loop, rule triple_post [OF frame_round_segment [OF R]]) (auto split: flow.splits)
  have "fed R avail len w [] [] (payload_default R, f, w)"
    using f by (simp add: fed_def ret_run)
  then show ?thesis
    using run by (auto simp: read_object_def dest!: tripleD [OF loop, rotated] split: option.splits)
qed

text \<open>A round of the task serves one request, or none.\<close>

lemma reader_round_segment:
  assumes R: "stream_reader R S avail len" "reader_logged R log" and run: "reader_round R w = Some (Done fl, w')"
  shows "(log w' = log w \<and> took avail w [] w') \<or>
    (\<exists>s. seg_received R s \<and> log w' = log w @ seg_events s \<and> took avail w (seg_bytes s) w')"
proof -
  from run obtain r u where r: "supervisor (reader_parent R) (select_request R) w = Some (Done r, u)"
    unfolding reader_round_def by (elim io_bind_DoneE)
  have u: "took avail w [] u" using r by (rule supervisor_cases) (auto dest: stream_readerD(3) [OF R(1)])
  note l = supervised_request_log [OF R(2) r]
  show ?thesis
  proof (cases "\<exists>f h. r = Success (Some (f, h))")
    case False
    with run r have "w' = u" by (auto simp: reader_round_def io_simps split: supervise.splits option.splits)
    with l u False show ?thesis by (auto split: supervise.splits option.splits)
  next
    case True
    then obtain f h where fh: "r = Success (Some (f, h))" by blast
    have f: "length (buffer f) = len"
      using r fh by (auto elim: supervisor_cases dest: stream_readerD(4) [OF R(1)])
    from fh run r obtain owned v where o: "read_object R f h u = Some (Done owned, v)"
      and w': "w' = (case owned of None \<Rightarrow> v | Some s \<Rightarrow> drop_sender R s v)"
      by (auto simp: reader_round_def io_simps split: option.splits res.splits)
    from read_object_segment [OF R f o] obtain s where
      s: "seg_sender s = h" "seg_received R s" "took avail u (seg_bytes s) v"
        "case owned of Some k \<Rightarrow> k = h \<and> seg_answer s = None \<and> log v = log u
         | None \<Rightarrow> \<exists>x. seg_answer s = Some x \<and> log v = log u @ [Answered h (Inr x)]"
      unfolding segment_ends_def by blast
    have "took avail w (seg_bytes s) v" using took_before [OF u s(3)] .
    then have "took avail w (seg_bytes s) w'"
      using w' took_after [OF _ stream_readerD(7) [OF R(1)]] by (auto split: option.splits)
    moreover have "log w' = log w @ seg_events s"
      using s(1,4) w' l fh by (auto simp: seg_events_def reader_loggedD(7) [OF R(2)] split: option.splits)
    ultimately show ?thesis using s(2) by blast
  qed
qed

lemma reader_actor_segments:
  assumes R: "stream_reader R S avail len" "reader_logged R log" and run: "create_reader_actor R w = Some (Done (), w')"
  shows "\<exists>segs. list_all (seg_received R) segs \<and> log w' = log w @ concat (map seg_events segs) @ [ShutdownSent] \<and>
    took avail w (concat (map seg_bytes segs)) w'"
proof -
  let ?I = "\<lambda>v. \<exists>segs. list_all (seg_received R) segs \<and> log v = log w @ concat (map seg_events segs) \<and>
    took avail w (concat (map seg_bytes segs)) v"
  from run obtain x v where 1: "io_loop (reader_round R) w = Some (Done x, v)" and 2: "w' = send_shutdown R v"
    unfolding create_reader_actor_def by (elim io_seq_DoneE) (simp add: modify_run)
  have round: "?I u'" if "?I u" "reader_round R u = Some (Done fl, u')" for u fl u'
  proof -
    from that(1) obtain segs where segs: "list_all (seg_received R) segs"
      "log u = log w @ concat (map seg_events segs)" "took avail w (concat (map seg_bytes segs)) u" by blast
    from reader_round_segment [OF R that(2)] show ?thesis
    proof (elim disjE conjE exE)
      assume "log u' = log u" "took avail u [] u'"
      with segs show ?thesis by (intro exI [of _ segs]) (auto intro: took_after)
    next
      fix s assume "seg_received R s" "log u' = log u @ seg_events s" "took avail u (seg_bytes s) u'"
      with segs show ?thesis by (intro exI [of _ "segs @ [s]"]) (auto intro: took_append)
    qed
  qed
  have "triple ?I (io_loop (reader_round R)) (\<lambda>_. ?I)"
    by (rule triple_loop, rule tripleI, drule (1) round) (simp split: flow.split)
  moreover have "?I w" by (rule exI [of _ "[]"]) simp
  ultimately have "?I v" using 1 by (rule tripleD)
  then show ?thesis
    using 2 stream_readerD(8) [OF R(1)] by (auto simp: reader_loggedD(8) [OF R(2)] intro: took_after)
qed

section \<open>What a writer task puts on the wire\<close>

text \<open>
  The pipe of the writer: \<open>sent\<close> is what it has taken, \<open>asked\<close> the data that came with the requests. \<open>write_all\<close> writes
  the data from its first byte on, all of it if it ends well; what a \<open>select!\<close> drops of it may have been written in part.
\<close>

definition stream_writer :: "'w writer_env \<Rightarrow> ('w \<Rightarrow> byte list) \<Rightarrow> ('w \<Rightarrow> byte list list) \<Rightarrow> bool" where
  "stream_writer R sent asked \<longleftrightarrow>
     (\<forall>w b w'. select_data R w = Some (b, w') \<longrightarrow> sent w' = sent w \<and>
        asked w' = asked w @ (case b of FutureDone (Some (d, h)) \<Rightarrow> [d] | _ \<Rightarrow> [])) \<and>
     (\<forall>d w b w'. select_write R d w = Some (b, w') \<longrightarrow> asked w' = asked w \<and>
        (\<exists>out. prefix out d \<and> sent w' = sent w @ out \<and> (b = FutureDone (Inr ()) \<longrightarrow> out = d))) \<and>
     (\<forall>h r w. sent (send_written R h r w) = sent w \<and> asked (send_written R h r w) = asked w) \<and>
     (\<forall>h w. sent (drop_written R h w) = sent w \<and> asked (drop_written R h w) = asked w)"

lemma stream_writerD:
  assumes "stream_writer R sent asked"
  shows "select_data R w = Some (b, w') \<Longrightarrow> sent w' = sent w"
    and "select_data R w = Some (b, w') \<Longrightarrow>
      asked w' = asked w @ (case b of FutureDone (Some (d, h)) \<Rightarrow> [d] | _ \<Rightarrow> [])"
    and "select_write R d w = Some (c, w') \<Longrightarrow> asked w' = asked w"
    and "select_write R d w = Some (c, w') \<Longrightarrow>
      \<exists>out. prefix out d \<and> sent w' = sent w @ out \<and> (c = FutureDone (Inr ()) \<longrightarrow> out = d)"
    and "sent (send_written R h r w) = sent w" "asked (send_written R h r w) = asked w"
    and "sent (drop_written R h w) = sent w" "asked (drop_written R h w) = asked w"
  using assms unfolding stream_writer_def by blast+

text \<open>A request of the writer: its sender, its data, the bytes that were written of it, and the answer.\<close>

record write_segment =
  wr_sender :: handle
  wr_data :: "byte list"
  wr_out :: "byte list"
  wr_answer :: "(io_error + unit) option"

definition write_events :: "write_segment \<Rightarrow> unit pipe_event list" where
  "write_events s = [Requested (wr_sender s),
     case wr_answer s of Some r \<Rightarrow> Answered (wr_sender s) r | None \<Rightarrow> Dropped (wr_sender s)]"

definition written :: "write_segment \<Rightarrow> bool" where
  "written s \<longleftrightarrow> prefix (wr_out s) (wr_data s) \<and> (wr_answer s = Some (Inr ()) \<longrightarrow> wr_out s = wr_data s)"

lemma supervised_write:
  assumes R: "stream_writer R sent asked" and run: "supervisor (writer_parent R) (select_write R d) w = Some (Done r, w')"
  shows "asked w' = asked w \<and> (\<exists>out. prefix out d \<and> sent w' = sent w @ out \<and> (r = Success (Inr ()) \<longrightarrow> out = d))"
  using run by (rule supervisor_cases) (auto dest: stream_writerD(3,4) [OF R])

lemma supervised_data:
  assumes R: "stream_writer R sent asked" and run: "supervisor (writer_parent R) (select_data R) w = Some (Done r, w')"
  shows "sent w' = sent w \<and> asked w' = asked w @ (case r of Success (Some (d, h)) \<Rightarrow> [d] | _ \<Rightarrow> [])"
  using run
proof (rule supervisor_cases)
  fix ok assume "select_data R w = Some (ParentChanged ok, w')" and r: "\<And>x. r \<noteq> Success x"
  with stream_writerD(1,2) [OF R this(1)] show ?thesis by (cases r) auto
qed (auto dest: stream_writerD(1,2) [OF R])

lemma writer_round_segment:
  assumes R: "stream_writer R sent asked" "writer_logged R log" and run: "writer_round R w = Some (Done fl, w')"
  shows "(log w' = log w \<and> sent w' = sent w \<and> asked w' = asked w) \<or>
    (\<exists>s. written s \<and> log w' = log w @ write_events s \<and> sent w' = sent w @ wr_out s \<and> asked w' = asked w @ [wr_data s])"
proof -
  from run obtain r u where r: "supervisor (writer_parent R) (select_data R) w = Some (Done r, u)"
    unfolding writer_round_def by (elim io_bind_DoneE)
  note l = supervised_data_log [OF R(2) r] and d = supervised_data [OF R(1) r]
  show ?thesis
  proof (cases "\<exists>d h. r = Success (Some (d, h))")
    case False
    with run r have "w' = u" by (auto simp: writer_round_def io_simps split: supervise.splits option.splits)
    with l d False show ?thesis by (auto split: supervise.splits option.splits)
  next
    case True
    then obtain data h where dh: "r = Success (Some (data, h))" by blast
    with run r obtain s v where s: "supervisor (writer_parent R) (select_write R data) u = Some (Done s, v)"
      and w': "w' = (case s of Success res \<Rightarrow> send_written R h res v | _ \<Rightarrow> drop_written R h v)"
      by (auto simp: writer_round_def io_simps split: option.splits res.splits supervise.splits)
    from supervised_write [OF R(1) s] obtain out where out: "asked v = asked u" "prefix out data"
      "sent v = sent u @ out" "s = Success (Inr ()) \<longrightarrow> out = data" by blast
    let ?s = "\<lparr>wr_sender = h, wr_data = data, wr_out = out,
      wr_answer = (case s of Success res \<Rightarrow> Some res | _ \<Rightarrow> None)\<rparr>"
    have "written ?s" using out by (auto simp: written_def split: supervise.splits)
    moreover have "log w' = log w @ write_events ?s"
      using l supervised_write_log [OF R(2) s] dh w'
      by (auto simp: write_events_def writer_loggedD(6,7) [OF R(2)] split: supervise.splits)
    moreover have "sent w' = sent w @ out" "asked w' = asked w @ [data]"
      using d dh out w' by (auto simp: stream_writerD(5-8) [OF R(1)] split: supervise.splits)
    ultimately show ?thesis by (intro disjI2 exI [of _ ?s]) simp
  qed
qed

lemma writer_actor_segments:
  assumes R: "stream_writer R sent asked" "writer_logged R log" and run: "create_writer_actor R w = Some (Done (), w')"
  shows "\<exists>segs. list_all written segs \<and> log w' = log w @ concat (map write_events segs) \<and>
    sent w' = sent w @ concat (map wr_out segs) \<and> asked w' = asked w @ map wr_data segs"
proof -
  let ?I = "\<lambda>v. \<exists>segs. list_all written segs \<and> log v = log w @ concat (map write_events segs) \<and>
    sent v = sent w @ concat (map wr_out segs) \<and> asked v = asked w @ map wr_data segs"
  have round: "?I u'" if "?I u" "writer_round R u = Some (Done fl, u')" for u fl u'
  proof -
    from that(1) obtain segs where segs: "list_all written segs" "log u = log w @ concat (map write_events segs)"
      "sent u = sent w @ concat (map wr_out segs)" "asked u = asked w @ map wr_data segs" by blast
    from writer_round_segment [OF R that(2)] show ?thesis
    proof (elim disjE conjE exE)
      assume "log u' = log u" "sent u' = sent u" "asked u' = asked u"
      with segs show ?thesis by auto
    next
      fix s assume "written s" "log u' = log u @ write_events s" "sent u' = sent u @ wr_out s"
        "asked u' = asked u @ [wr_data s]"
      with segs show ?thesis by (intro exI [of _ "segs @ [s]"]) simp
    qed
  qed
  have "triple ?I (io_loop (writer_round R)) (\<lambda>_. ?I)"
    by (rule triple_loop, rule tripleI, drule (1) round) (simp split: flow.split)
  moreover have "?I w" by (rule exI [of _ "[]"]) simp
  ultimately show ?thesis using run [unfolded create_writer_actor_def] by (rule tripleD)
qed

section \<open>From the stream to the actor of a connection\<close>

text \<open>
  The task of a connection reads through a handle of the reader task. \<open>pl\<close> is the history of that task, which goes on
  while the other one waits; a sender that is new has not been used, and what comes through its channel was sent with it.
\<close>

definition pipe_client ::
  "('f \<times> handle, 'w) typed \<Rightarrow> ('o, 'w) results \<Rightarrow> ('a, 'o, 'w) tokio \<Rightarrow> ('w \<Rightarrow> 'o pipe_event list) \<Rightarrow> bool" where
  "pipe_client C A T pl \<longleftrightarrow>
     (\<forall>w tx w'. result_channel A w = (tx, w') \<longrightarrow> prefix (pl w) (pl w') \<and> (\<forall>res. Answered tx res \<notin> set (pl w'))) \<and>
     (\<forall>h x w r w'. typed_send C h x w = Some (r, w') \<longrightarrow> prefix (pl w) (pl w')) \<and>
     (\<forall>tx w r w'. result_recv A tx w = Some (r, w') \<longrightarrow> prefix (pl w) (pl w') \<and>
        (\<forall>res. r = Inr res \<longrightarrow> Answered tx res \<in> set (pl w'))) \<and>
     (\<forall>w tx w'. oneshot_channel T w = (tx, w') \<longrightarrow> prefix (pl w) (pl w')) \<and>
     (\<forall>a b w r w'. mpsc_send T a b w = Some (r, w') \<longrightarrow> prefix (pl w) (pl w')) \<and>
     (\<forall>tx w r w'. oneshot_recv T tx w = Some (r, w') \<longrightarrow> prefix (pl w) (pl w')) \<and>
     (\<forall>tx w r w'. oneshot_recv_actor T tx w = Some (r, w') \<longrightarrow> prefix (pl w) (pl w'))"

lemma pipe_clientD:
  assumes "pipe_client C A T pl"
  shows "result_channel A w = (tx, w') \<Longrightarrow> prefix (pl w) (pl w') \<and> (\<forall>res. Answered tx res \<notin> set (pl w'))"
    and "typed_send C h x w = Some (sent, w') \<Longrightarrow> prefix (pl w) (pl w')"
    and "result_recv A tx w = Some (r, w') \<Longrightarrow> prefix (pl w) (pl w')"
    and "result_recv A tx w = Some (Inr res, w') \<Longrightarrow> Answered tx res \<in> set (pl w')"
    and "oneshot_channel T w = (tx, w') \<Longrightarrow> prefix (pl w) (pl w')"
    and "mpsc_send T a b w = Some (k, w') \<Longrightarrow> prefix (pl w) (pl w')"
    and "oneshot_recv T tx w = Some (v, w') \<Longrightarrow> prefix (pl w) (pl w')"
    and "oneshot_recv_actor T tx w = Some (y, w') \<Longrightarrow> prefix (pl w) (pl w')"
  using assms unfolding pipe_client_def by (simp_all del: split_paired_All)

text \<open>The answers in a history, and those of segments.\<close>

fun pipe_answers :: "'o pipe_event list \<Rightarrow> 'o list" where
  "pipe_answers [] = []"
| "pipe_answers (Answered h (Inr v) # es) = v # pipe_answers es"
| "pipe_answers (Answered h (Inl e) # es) = pipe_answers es"
| "pipe_answers (Requested h # es) = pipe_answers es"
| "pipe_answers (Dropped h # es) = pipe_answers es"
| "pipe_answers (ShutdownSent # es) = pipe_answers es"

lemma pipe_answers_append [simp]: "pipe_answers (xs @ ys) = pipe_answers xs @ pipe_answers ys"
  by (induction xs rule: pipe_answers.induct) simp_all

lemma answered_in: "Answered h (Inr v) \<in> set es \<Longrightarrow> v \<in> set (pipe_answers es)"
  by (induction es rule: pipe_answers.induct) auto

lemma pipe_answers_segments:
  "pipe_answers (concat (map seg_events segs)) = List.map_filter seg_answer segs"
  by (induction segs) (auto simp: seg_events_def map_filter_simps split: option.split)

text \<open>A payload that was read is an answer that the reader task gave since the read began.\<close>

lemma read_answered:
  assumes P: "pipe_client C A T pl" and run: "component_read C A f0 rd w = Some (Done res, w')"
  shows "prefix (pl w) (pl w')"
    and "res = Inr (Some m) \<Longrightarrow> \<exists>new. pl w' = pl w @ new \<and> m \<in> set (pipe_answers new)"
proof -
  obtain tx w1 where c: "result_channel A w = (tx, w1)" by force
  from run c obtain sent w2 where s: "typed_send C (reader_inner rd) (f0, tx) w1 = Some (sent, w2)"
    by (auto simp: component_read_def reader_clone_def reader_read_def io_simps split: option.splits)
  note 1 = pipe_clientD(1) [OF P c] and 2 = pipe_clientD(2) [OF P s]
  show "prefix (pl w) (pl w')"
    using run c s 1 2 pipe_clientD(3) [OF P]
    by (cases sent) (fastforce simp: component_read_def reader_clone_def reader_read_def io_simps
        split: option.splits sum.splits intro: prefix_order.trans)+
  assume "res = Inr (Some m)"
  with run c s have r: "result_recv A tx w2 = Some (Inr (Inr m), w')"
    by (auto simp: component_read_def reader_clone_def reader_read_def io_simps split: option.splits sum.splits)
  have "prefix (pl w1) (pl w')" using 2 pipe_clientD(3) [OF P r] by (rule prefix_order.trans)
  then obtain n where n: "pl w' = pl w1 @ n" by (rule prefixE)
  with 1 pipe_clientD(4) [OF P r] have "Answered tx (Inr m) \<in> set n" by auto
  moreover obtain k where "pl w1 = pl w @ k" using 1 by (auto elim: prefixE)
  ultimately show "\<exists>new. pl w' = pl w @ new \<and> m \<in> set (pipe_answers new)"
    using n by (intro exI [of _ "k @ n"]) (simp add: answered_in)
qed

lemma async_ask_grows:
  assumes "pipe_client C A T pl" "mpsc_returns T" "async_ask T r m w = Some (x, w')"
  shows "prefix (pl w) (pl w')"
  using assms(3) unfolding async_ask_result [OF assms(2)]
  by (auto split: prod.splits option.splits sum.splits
      dest!: pipe_clientD(5-7) [OF assms(1)] intro: prefix_order.trans)

text \<open>
  The task of a connection after some rounds: the messages it has asked the actor with are, in order, among the answers
  of the reader task.
\<close>

definition fed_from ::
  "('w \<Rightarrow> 'm relay_event list) \<Rightarrow> ('w \<Rightarrow> 'm pipe_event list) \<Rightarrow> handle \<Rightarrow> 'w \<Rightarrow> 'w \<Rightarrow> bool" where
  "fed_from log pl a w v \<longleftrightarrow> (\<exists>xs new. log v = log w @ concat (map (asked_turn a) xs) \<and> pl v = pl w @ new \<and>
     subseq (map fst xs) (pipe_answers new))"

lemma subseq_one: "x \<in> set ys \<Longrightarrow> subseq [x] ys"
  by (induction ys) auto

lemma fed_from_grows:
  assumes "fed_from log pl a w v" "log v' = log v" "prefix (pl v) (pl v')"
  shows "fed_from log pl a w v'"
proof -
  obtain xs new where "log v = log w @ concat (map (asked_turn a) xs)" "pl v = pl w @ new" "subseq (map fst xs) (pipe_answers new)"
    using assms(1) by (auto simp: fed_from_def)
  moreover obtain rest where "pl v' = pl v @ rest" using assms(3) by (auto elim: prefixE)
  ultimately show ?thesis
    using assms(2) unfolding fed_from_def
    by (intro exI [of _ xs] exI [of _ "new @ rest"]) (simp add: list_emb_prefix)
qed

lemma fed_from_asked:
  assumes "fed_from log pl a w v" "log v' = log v @ asked_turn a (m, tx, out)" "pl v' = pl v @ rest" "m \<in> set (pipe_answers rest)"
  shows "fed_from log pl a w v'"
proof -
  obtain xs new where x: "log v = log w @ concat (map (asked_turn a) xs)" "pl v = pl w @ new" "subseq (map fst xs) (pipe_answers new)"
    using assms(1) by (auto simp: fed_from_def)
  have "subseq (map fst xs @ [m]) (pipe_answers new @ pipe_answers rest)"
    using x(3) assms(4) by (intro list_emb_append_mono) (simp_all add: subseq_one)
  with x assms(2,3) show ?thesis
    unfolding fed_from_def by (intro exI [of _ "xs @ [(m, tx, out)]"] exI [of _ "new @ rest"]) simp
qed

lemma serve_round_fed:
  assumes P: "pipe_client C A T pl" and O: "sends_observed T log" "reads_observed (component_read C A f0 rd) log"
    and I: "fed_from log pl (ref_address r) w v"
    and run: "serve_round T (component_read C A f0 rd) r v = Some (Done fl, v')"
  shows "fed_from log pl (ref_address r) w v'"
proof -
  obtain res u where d: "component_read C A f0 rd v = Some (Done res, u)"
    using run by (auto simp: serve_round_def io_simps split: option.splits res.splits)
  note g = read_answered [OF P d]
  show ?thesis
  proof (cases res rule: nothing_read.cases)
    case (3 m)
    with d run obtain x where x: "async_ask T r m u = Some (Done x, v')"
      by (auto simp: serve_round_def io_simps split: option.splits res.splits)
    from async_ask_log [OF O(1) x] reads_observedD(1) [OF O(2) d [unfolded 3]]
    obtain tx out where l: "log v' = log v @ asked_turn (ref_address r) (m, tx, out)"
      by (auto simp: asked_turn_def async_ask_box_def)
    obtain new where n: "pl u = pl v @ new" "m \<in> set (pipe_answers new)" using g(2) [OF 3] by blast
    obtain rest where "pl v' = pl u @ rest"
      using async_ask_grows [OF P sends_observedD(1) [OF O(1)] x] by (auto elim: prefixE)
    with n have "pl v' = pl v @ (new @ rest)" "m \<in> set (pipe_answers (new @ rest))" by simp_all
    with fed_from_asked [OF I l] show ?thesis by blast
  next
    case 1
    with d run have "v' = u" by (simp add: serve_round_def io_simps)
    with fed_from_grows [OF I _ g(1)] reads_observedD(3) [OF O(2) d [unfolded 1]] show ?thesis by simp
  next
    case 2
    with d run have "v' = u" by (simp add: serve_round_def io_simps)
    with fed_from_grows [OF I _ g(1)] reads_observedD(2) [OF O(2) d [unfolded 2]] show ?thesis by simp
  qed
qed

lemma serve_connection_fed:
  assumes P: "pipe_client C A T pl" and O: "sends_observed T log" "reads_observed (component_read C A f0 rd) log"
    and run: "serve_connection T (component_read C A f0 rd) r w = Some (Done (), w')"
  obtains u out where "fed_from log pl (ref_address r) w u" "into_future T r u = Some (Done out, w')"
proof -
  from run obtain x u out where 1: "io_loop (serve_round T (component_read C A f0 rd) r) w = Some (Done x, u)"
    and 2: "into_future T r u = Some (Done out, w')"
    unfolding serve_connection_def by (elim io_seq_DoneE io_bind_DoneE) (simp add: io_simps)
  have "triple (fed_from log pl (ref_address r) w) (io_loop (serve_round T (component_read C A f0 rd) r))
      (\<lambda>_. fed_from log pl (ref_address r) w)"
    by (rule triple_loop, rule tripleI, drule (1) serve_round_fed [OF P O]) (simp split: flow.split)
  moreover have "fed_from log pl (ref_address r) w w"
    unfolding fed_from_def by (rule exI [of _ "[]"], rule exI [of _ "[]"]) simp
  ultimately have "fed_from log pl (ref_address r) w u" using 1 by (rule tripleD)
  with 2 that show thesis by blast
qed

lemma internal_send_grows:
  "pipe_client C A T pl \<Longrightarrow> internal_send_async T r m w = Some (Done x, w') \<Longrightarrow> prefix (pl w) (pl w')"
  by (auto simp: internal_send_async_def io_simps envelope_unwrap_def
      split: option.splits res.splits sum.splits prod.splits dest: pipe_clientD(6))

lemma into_future_grows:
  assumes P: "pipe_client C A T pl" and run: "into_future T r w = Some (Done x, w')"
  shows "prefix (pl w) (pl w')"
proof (cases "mpsc_is_closed T (ref_address r) w")
  case True
  with run show ?thesis by (simp add: into_future_def io_simps)
next
  case False
  obtain tx u where c: "oneshot_channel T w = (tx, u)" by force
  from False run c obtain sent v where s: "internal_send_async T r (InternalShutdown (IntoFutureShutdown True tx)) u = Some (Done sent, v)"
    and a: "(case sent of Inl _ \<Rightarrow> ret (Inl MailboxClosed) | Inr _ \<Rightarrow> await_actor T tx) v = Some (Done x, w')"
    by (auto simp: into_future_def request_shutdown_def io_bind_run gets_run call_run split: option.splits res.splits)
  have "prefix (pl v) (pl w')"
    using a pipe_clientD(8) [OF P]
    by (cases sent) (auto simp: await_actor_def io_simps split: option.splits sum.splits)
  then show ?thesis
    using pipe_clientD(5) [OF P c] internal_send_grows [OF P s] by (blast intro: prefix_order.trans)
qed

section \<open>The HTTP server\<close>

text \<open>What \<open>Data\<close> has after a number of chunks is their concatenation, and none of them completed the request.\<close>

lemma http_waiting:
  assumes "list_all2 holds fs cs" "recv_all (http_data_recv L) fs data = Some (Done None, p)"
  shows "p = data @ concat cs \<and> (\<forall>i. 0 < i \<longrightarrow> i \<le> length cs \<longrightarrow> http_result L (data @ concat (take i cs)) = Done None)"
  using assms
proof (induction fs cs arbitrary: data rule: list_all2_induct)
  case Nil
  then show ?case by (simp add: ret_run)
next
  case (Cons f fs c cs)
  have c: "http_result L (data @ c) = Done None" "recv_all (http_data_recv L) fs (data @ c) = Some (Done None, p)"
    using Cons.prems Cons.hyps(1) by (auto simp: io_simps http_data_recv_holds split: res.splits option.splits)
  from Cons.IH [OF c(2)] have IH: "p = (data @ c) @ concat cs"
    "\<And>i. 0 < i \<Longrightarrow> i \<le> length cs \<Longrightarrow> http_result L ((data @ c) @ concat (take i cs)) = Done None" by blast+
  have "http_result L (data @ concat (take i (c # cs))) = Done None" if "0 < i" "i \<le> length (c # cs)" for i
    using that IH(2) [of "i - 1"] c(1) by (cases i; cases "i = 1") auto
  with IH(1) show ?case by simp
qed

text \<open>A request is what \<open>httparse\<close> and the builder make of all bytes of its segment; no chunk before the last one ends it.\<close>

definition http_segment :: "'q http_lib \<Rightarrow> 'q segment \<Rightarrow> bool" where
  "http_segment L s \<longleftrightarrow> (let cs = seg_chunks s in case seg_answer s of
       Some q \<Rightarrow> cs \<noteq> [] \<and> http_result L (seg_bytes s) = Done (Some q) \<and>
         (\<forall>i. 0 < i \<longrightarrow> i < length cs \<longrightarrow> http_result L (concat (take i cs)) = Done None)
     | None \<Rightarrow> \<forall>i. 0 < i \<longrightarrow> i \<le> length cs \<longrightarrow> http_result L (concat (take i cs)) = Done None)"

lemma received_http_segment:
  assumes s: "seg_received R s" and R: "payload_recv R = http_data_recv L" "payload_default R = []"
  shows "http_segment L s"
proof (cases "seg_answer s")
  case None
  with s R obtain p where "list_all2 holds (seg_frames s) (seg_chunks s)"
    "recv_all (http_data_recv L) (seg_frames s) [] = Some (Done None, p)"
    by (auto simp: seg_received_def)
  from http_waiting [OF this] None show ?thesis by (simp add: http_segment_def)
next
  case (Some q)
  with s R obtain fs f p p' where f: "seg_frames s = fs @ [f]" "list_all2 holds (fs @ [f]) (seg_chunks s)"
    "recv_all (http_data_recv L) fs [] = Some (Done None, p)" "http_data_recv L f p = Some (Done (Some q), p')"
    by (auto simp: seg_received_def)
  then obtain cs c where cs: "seg_chunks s = cs @ [c]" "list_all2 holds fs cs" "holds f c"
    by (auto simp: list_all2_append1 list_all2_Cons1)
  from http_waiting [OF cs(2) f(3)] f(4) cs(1,3) Some show ?thesis
    by (auto simp: http_segment_def seg_bytes_def http_data_recv_holds)
qed

section \<open>Properties\<close>

text \<open>C15: the reader task cuts the stream into one segment for each request it takes: the segments follow each other
  without a gap and without an overlap from where the stream was, each is the frames read for that request and nothing
  else, and the request is answered, through its own sender and once, with what the payload makes of these frames (no
  frame but the last completes it), or its sender is dropped when they do not complete it; then the writer is told.\<close>

theorem reader_data_path:
  assumes "stream_reader R S avail len" "reader_logged R log" "create_reader_actor R w = Some (Done (), w')"
  shows "\<exists>segs more. log w' = log w @ concat (map seg_events segs) @ [ShutdownSent] \<and>
    concat (map seg_bytes segs) @ avail w' = avail w @ more \<and> (\<forall>s\<in>set segs. seg_received R s)"
  using reader_actor_segments [OF assms] by (auto simp: took_def list_all_iff)

text \<open>C17: the writer task puts the data of its requests on the pipe in the order in which it took them: of each it
  writes from the first byte on, an answer \<open>Ok\<close> means that all of it was written, and every request is answered once
  through its own sender or has that sender dropped.\<close>

theorem writer_data_path:
  assumes "stream_writer R sent asked" "writer_logged R log" "create_writer_actor R w = Some (Done (), w')"
  shows "\<exists>segs. asked w' = asked w @ map wr_data segs \<and> log w' = log w @ concat (map write_events segs) \<and>
    sent w' = sent w @ concat (map wr_out segs) \<and> (\<forall>s\<in>set segs. written s)"
  using writer_actor_segments [OF assms] by (auto simp: list_all_iff)

text \<open>C16: the messages that the task of a connection asks its actor with are, in their order, the answers of the reader task
  of that connection, which it has made of consecutive segments of the stream: nothing reaches the actor that did not
  come from the stream, nothing twice and nothing out of order.\<close>

theorem connection_asked_with_stream:
  assumes "stream_reader R S avail len" "reader_logged R pl" "create_reader_actor R v = Some (Done (), v')"
    and "pipe_client C A T pl" "sends_observed T log" "reads_observed (component_read C A f0 rd) log"
    and "serve_connection T (component_read C A f0 rd) connection w = Some (Done (), w')"
    and "pl w = pl v" "prefix (pl w') (pl v')"
  shows "\<exists>segs rest xs u out. concat (map seg_bytes segs) @ avail v' = avail v @ rest \<and> (\<forall>s\<in>set segs. seg_received R s) \<and>
    log u = log w @ concat (map (asked_turn (ref_address connection)) xs) \<and>
    into_future T connection u = Some (Done out, w') \<and> subseq (map fst xs) (List.map_filter seg_answer segs)"
proof -
  from reader_actor_segments [OF assms(1-3)] obtain segs rest where
    segs: "\<forall>s\<in>set segs. seg_received R s" "pl v' = pl v @ concat (map seg_events segs) @ [ShutdownSent]"
      "concat (map seg_bytes segs) @ avail v' = avail v @ rest"
    by (auto simp: took_def list_all_iff)
  from serve_connection_fed [OF assms(4-7)] obtain u out where
    u: "fed_from log pl (ref_address connection) w u" "into_future T connection u = Some (Done out, w')" .
  from u(1) obtain xs new where
    xs: "log u = log w @ concat (map (asked_turn (ref_address connection)) xs)" "pl u = pl w @ new"
      "subseq (map fst xs) (pipe_answers new)"
    by (auto simp: fed_from_def)
  have "prefix (pl u) (pl v')"
    using into_future_grows [OF assms(4) u(2)] assms(9) by (rule prefix_order.trans)
  then obtain k where "concat (map seg_events segs) @ [ShutdownSent] = new @ k"
    using xs(2) segs(2) assms(8) by (auto elim!: prefixE)
  then have "pipe_answers (concat (map seg_events segs) @ [ShutdownSent]) = pipe_answers (new @ k)" by simp
  then have "List.map_filter seg_answer segs = pipe_answers new @ pipe_answers k"
    by (simp add: pipe_answers_segments)
  with xs(3) have "subseq (map fst xs) (List.map_filter seg_answer segs)" by (simp add: list_emb_prefix)
  with segs xs(1) u(2) show ?thesis by blast
qed

text \<open>C28: the requests of the HTTP server are a division of the stream: each request is what the parser makes of all
  bytes of its segment, it was not complete after any frame before the last one, and the next request starts with the
  byte after the segment, so that what the last frame holds beyond the end of the request is not seen again.\<close>

theorem http_stream_division:
  assumes "stream_reader R S avail len" "reader_logged R log" "create_reader_actor R w = Some (Done (), w')"
    and "payload_recv R = http_data_recv L" "payload_default R = []"
  shows "\<exists>segs more. log w' = log w @ concat (map seg_events segs) @ [ShutdownSent] \<and>
    concat (map seg_bytes segs) @ avail w' = avail w @ more \<and> list_all (http_segment L) segs"
  using reader_actor_segments [OF assms(1-3)] received_http_segment [OF _ assms(4,5)]
  by (auto simp: took_def list_all_iff)

end
