(* ===== verification/Streams.thy ===== *)
theory Streams
  imports Data_Path Runs
begin

text \<open>
  Streams that are lists of bytes, with the two tasks of a connection on them, as witnesses of Data_Path; in the last one
  the reader task runs while the task of the connection waits for it.
\<close>

section \<open>One task\<close>

text \<open>
  A stream that is a list of bytes whose peer has closed it, and a number of requests still to come, each with a frame of
  three bytes.
\<close>

type_synonym demo = "byte list \<times> nat \<times> nat pipe_event list"

definition list_read :: "demo tcp_read" where
  "list_read = \<lparr> poll_peek = (\<lambda>n (bs, r). (Ready (Inr (take n bs)), (bs, r))),
     try_read = (\<lambda>n (bs, r). (Inr (take n bs), (drop n bs, r))) \<rparr>"

definition list_reader :: "(read_frame, byte list, nat, demo) reader_env" where
  "list_reader = \<lparr>
     select_request = (\<lambda>(bs, n, l). if n = 0 then Some (FutureDone None, (bs, 0, l))
       else Some (FutureDone (Some (read_default 3, n)), (bs, n - 1, l @ [Requested n]))),
     select_frame = (\<lambda>fw. case read_poll list_read fw of
         Some (Done (Ready r), fw') \<Rightarrow> Some (FutureDone r, fw') | _ \<Rightarrow> None),
     reader_parent = (\<lambda>w. None),
     payload_default = [],
     payload_recv = http_data_recv four_bytes,
     send_object = (\<lambda>h r (bs, n, l). (bs, n, l @ [Answered h r])),
     drop_sender = (\<lambda>h (bs, n, l). (bs, n, l @ [Dropped h])),
     send_shutdown = (\<lambda>(bs, n, l). (bs, n, l @ [ShutdownSent])) \<rparr>"

lemma list_reader_stream: "stream_reader list_reader list_read fst 3"
proof -
  have "tcp_stream list_read fst" by (auto simp: tcp_stream_def list_read_def)
  moreover have "\<exists>u v. took fst w [] u \<and> read_poll list_read (f, u) = Some (Done (Ready r), (f', v)) \<and> took fst v [] w'"
    if "select_frame list_reader (f, w) = Some (FutureDone r, (f', w'))" for f w r f' w'
    using that by (intro exI [of _ w] exI [of _ w'])
      (auto simp: list_reader_def split: option.splits res.splits poll.splits)
  moreover have "\<exists>r. b = FutureDone r" if "select_frame list_reader (f, w) = Some (b, (f', w'))" for f w b f' w'
    using that by (auto simp: list_reader_def split: option.splits res.splits poll.splits)
  ultimately show ?thesis
    unfolding stream_reader_def
    by (fastforce simp: list_reader_def took_def read_default_def split: sup_branch.split if_splits)
qed

lemma list_reader_logged: "reader_logged list_reader (snd \<circ> snd)"
proof -
  have "snd (snd w') = snd (snd w)" if "read_poll list_read (f, w) = Some (x, (f', w'))" for f w x f' w'
    using that by (cases w) (auto simp: read_poll_def list_read_def Let_def split: if_splits)
  then show ?thesis
    by (auto simp: reader_logged_def list_reader_def split: if_splits option.splits res.splits poll.splits)
qed

text \<open>Two requests of four bytes, the second of which is cut off by the end of the stream.\<close>

theorem reader_data_path_witness:
  "\<exists>w' segs more. create_reader_actor list_reader ([1, 2, 3, 4], 2, []) = Some (Done (), w') \<and>
    snd (snd w') = concat (map seg_events segs) @ [ShutdownSent] \<and>
    concat (map seg_bytes segs) @ fst w' = [1, 2, 3, 4] @ more \<and> (\<forall>s\<in>set segs. seg_received list_reader s)"
proof -
  have "run_done (create_reader_actor list_reader ([1, 2, 3, 4], 2, []))" by code_simp
  then obtain w' where w': "create_reader_actor list_reader ([1, 2, 3, 4], 2, []) = Some (Done (), w')"
    by (rule run_doneE) simp
  show ?thesis using reader_data_path [OF list_reader_stream list_reader_logged w'] w' by auto
qed

text \<open>
  Two requests of four bytes in one burst: the second frame has the first two bytes of the second request, which are gone
  with the first; the rest of it is never a request.
\<close>

lemma pipelined_run:
  "create_reader_actor list_reader ([1, 2, 3, 4, 5, 6, 7, 8], 2, []) =
    Some (Done (), ([], 0, [Requested 2, Answered 2 (Inr 3), Requested 1, Dropped 1, ShutdownSent]))"
  by code_simp

theorem http_stream_division_witness:
  "\<exists>segs more. [Requested 2, Answered 2 (Inr 3), Requested 1, Dropped 1, ShutdownSent] =
      concat (map seg_events segs) @ [ShutdownSent] \<and>
    concat (map seg_bytes segs) = [1, 2, 3, 4, 5, 6, 7, 8] @ more \<and> list_all (http_segment four_bytes) segs"
  using http_stream_division [OF list_reader_stream list_reader_logged pipelined_run, of four_bytes]
  by (simp add: list_reader_def)

text \<open>A pipe that keeps what it takes; the write of the second of three requests is cut short by a change of the watch channel.\<close>

type_synonym wire = "byte list \<times> byte list list \<times> nat \<times> unit pipe_event list"

definition list_writer :: "wire writer_env" where
  "list_writer = \<lparr>
     select_data = (\<lambda>(out, as, n, l). if n = 0 then Some (FutureDone None, (out, as, 0, l))
       else Some (FutureDone (Some ([1, 2], n)), (out, as @ [[1, 2]], n - 1, l @ [Requested n]))),
     select_write = (\<lambda>d (out, as, n, l). if n = 1 then Some (ParentChanged True, (out @ take 1 d, as, n, l))
       else Some (FutureDone (Inr ()), (out @ d, as, n, l))),
     writer_parent = (\<lambda>w. None),
     send_written = (\<lambda>h r (out, as, n, l). (out, as, n, l @ [Answered h r])),
     drop_written = (\<lambda>h (out, as, n, l). (out, as, n, l @ [Dropped h])) \<rparr>"

lemma list_writer_stream: "stream_writer list_writer fst (fst \<circ> snd)"
  by (auto simp: stream_writer_def list_writer_def take_is_prefix split: if_splits)

lemma list_writer_logged: "writer_logged list_writer (snd \<circ> snd \<circ> snd)"
  by (auto simp: writer_logged_def list_writer_def split: if_splits)

lemma list_writer_run:
  "create_writer_actor list_writer ([], [], 3, []) = Some (Done (), ([1, 2, 1, 1, 2], [[1, 2], [1, 2], [1, 2]], 0,
    [Requested 3, Answered 3 (Inr ()), Requested 2, Dropped 2, Requested 1, Answered 1 (Inr ())]))"
  by code_simp

theorem writer_data_path_witness:
  "\<exists>segs. [[1, 2], [1, 2], [1, 2]] = map wr_data segs \<and>
    [Requested 3, Answered 3 (Inr ()), Requested 2, Dropped 2, Requested 1, Answered 1 (Inr ())] =
      concat (map write_events segs) \<and>
    [1, 2, 1, 1, 2] = concat (map wr_out segs) \<and> (\<forall>s\<in>set segs. written s)"
  using writer_data_path [OF list_writer_stream list_writer_logged list_writer_run] by simp

section \<open>Two tasks in one world\<close>

text \<open>
  Both tasks of a connection in one world: the history of the reader task and the log of the other one are kept together,
  in the list of what was handed over; the bytes that have arrived are numbers. While the other task waits for a
  read the reader task makes a round.
\<close>

datatype joint_event = ByTask "nat relay_event" | ByReader "nat pipe_event"

type_synonym joint = "(joint_event, nat) sample_world"

definition arrived :: "joint \<Rightarrow> byte list" where
  "arrived w = map of_nat (dropped w)"

definition note_event :: "joint_event \<Rightarrow> joint \<Rightarrow> joint" where
  "note_event ev w = w\<lparr>handed := handed w @ [(0, ev)]\<rparr>"

fun by_task :: "handle \<times> joint_event \<Rightarrow> nat relay_event list" where
  "by_task (h, ByTask e) = [e]"
| "by_task (h, ByReader e) = []"

fun by_reader :: "handle \<times> joint_event \<Rightarrow> nat pipe_event list" where
  "by_reader (h, ByTask e) = []"
| "by_reader (h, ByReader e) = [e]"

definition task_log :: "joint \<Rightarrow> nat relay_event list" where
  "task_log w = concat (map by_task (handed w))"

definition pipe_log :: "joint \<Rightarrow> nat pipe_event list" where
  "pipe_log w = concat (map by_reader (handed w))"

lemma note_event_logs [simp]:
  "task_log (note_event ev w) = task_log w @ by_task (0, ev)" "pipe_log (note_event ev w) = pipe_log w @ by_reader (0, ev)"
  "dropped (note_event ev w) = dropped w" "watchers (note_event ev w) = watchers w"
  by (simp_all add: note_event_def task_log_def pipe_log_def)

text \<open>A sender that is new.\<close>

fun event_handle :: "nat pipe_event \<Rightarrow> handle" where
  "event_handle (Requested h) = h"
| "event_handle (Answered h r) = h"
| "event_handle (Dropped h) = h"
| "event_handle ShutdownSent = 0"

definition new_handle :: "nat pipe_event list \<Rightarrow> handle" where
  "new_handle l = Suc (sum_list (map event_handle l))"

lemma new_handle_unused: "Answered (new_handle l) r \<notin> set l"
proof
  assume "Answered (new_handle l) r \<in> set l"
  then have "new_handle l \<in> set (map event_handle l)" by force
  then have "new_handle l \<le> sum_list (map event_handle l)" by (rule member_le_sum_list) simp
  then show False by (simp add: new_handle_def)
qed

definition joint_read :: "joint tcp_read" where
  "joint_read = \<lparr> poll_peek = (\<lambda>n w. (Ready (Inr (take n (arrived w))), w)),
     try_read = (\<lambda>n w. (Inr (take n (arrived w)), w\<lparr>dropped := drop n (dropped w)\<rparr>)) \<rparr>"

definition joint_reader :: "(read_frame, byte list, nat, joint) reader_env" where
  "joint_reader = \<lparr>
     select_request = (\<lambda>w. if watchers w = 0 then Some (FutureDone None, w)
       else let h = new_handle (pipe_log w) in
         Some (FutureDone (Some (read_default 3, h)), note_event (ByReader (Requested h)) (w\<lparr>watchers := watchers w - 1\<rparr>))),
     select_frame = (\<lambda>fw. case read_poll joint_read fw of
         Some (Done (Ready r), fw') \<Rightarrow> Some (FutureDone r, fw') | _ \<Rightarrow> None),
     reader_parent = (\<lambda>w. None),
     payload_default = [],
     payload_recv = http_data_recv four_bytes,
     send_object = (\<lambda>h r. note_event (ByReader (Answered h r))),
     drop_sender = (\<lambda>h. note_event (ByReader (Dropped h))),
     send_shutdown = note_event (ByReader ShutdownSent) \<rparr>"

definition joint_channel :: "(read_frame \<times> handle, joint) typed" where
  "joint_channel = \<lparr> typed_channel = (\<lambda>n w. (0, w)), typed_try_send = (\<lambda>h x w. (Inr (), w)),
     typed_send = (\<lambda>h x w. Some (Inr (), w)), typed_send_timeout = (\<lambda>h x n w. Some (Inr (), w)) \<rparr>"

fun seen_by :: "handle \<Rightarrow> nat pipe_event list \<Rightarrow> joint \<Rightarrow> ((unit + (io_error + nat)) \<times> joint) option" where
  "seen_by tx [Requested h, Answered k r] w = (if k = tx
     then Some (Inr r, case r of Inr v \<Rightarrow> note_event (ByTask (Taken v None)) w | Inl e \<Rightarrow> w) else None)"
| "seen_by tx [Requested h, Dropped k] w = Some (Inl (), w)"
| "seen_by tx es w = None"

definition joint_results :: "(nat, joint) results" where
  "joint_results = \<lparr> result_channel = (\<lambda>w. (new_handle (pipe_log w), w)),
     result_recv = (\<lambda>tx w. case reader_round joint_reader w of
         Some (Done fl, w') \<Rightarrow> (let new = drop (length (pipe_log w)) (pipe_log w') in
           seen_by tx new (w'\<lparr>handed := handed w @ map (Pair 0 \<circ> ByReader) new\<rparr>))
       | _ \<Rightarrow> None) \<rparr>"

definition joint_tokio :: "(joint_event, nat, joint) tokio" where
  "joint_tokio = sample\<lparr>
     mpsc_send := (\<lambda>a b w. if shut w then Some (Inl b, note_event (ByTask (Refused a b)) w)
       else Some (Inr (), note_event (ByTask (Offered a b)) w)),
     oneshot_recv := (\<lambda>tx w. Some (Inr 5, note_event (ByTask (Got tx (Inr 5))) w)),
     oneshot_recv_actor := (\<lambda>tx w. Some (Inl (), w))\<rparr>"

lemma joint_logs [simp]:
  "pipe_log (w\<lparr>dropped := ds\<rparr>) = pipe_log w" "pipe_log (w\<lparr>watchers := n\<rparr>) = pipe_log w"
  "arrived (note_event ev w) = arrived w" "arrived (w\<lparr>watchers := n\<rparr>) = arrived w"
  "arrived (w\<lparr>dropped := drop k (dropped w)\<rparr>) = drop k (arrived w)"
  "task_log (w\<lparr>handed := handed u @ map (Pair 0 \<circ> ByReader) es\<rparr>) = task_log u"
  "pipe_log (w\<lparr>handed := handed u @ map (Pair 0 \<circ> ByReader) es\<rparr>) = pipe_log u @ es"
proof -
  have "concat (map by_task (map (Pair 0 \<circ> ByReader) es)) = []" "concat (map by_reader (map (Pair 0 \<circ> ByReader) es)) = es"
    by (induction es) simp_all
  then show "task_log (w\<lparr>handed := handed u @ map (Pair 0 \<circ> ByReader) es\<rparr>) = task_log u"
    "pipe_log (w\<lparr>handed := handed u @ map (Pair 0 \<circ> ByReader) es\<rparr>) = pipe_log u @ es"
    by (simp_all add: task_log_def pipe_log_def)
qed (simp_all add: pipe_log_def arrived_def drop_map)

lemma joint_stream: "stream_reader joint_reader joint_read arrived 3"
proof -
  have "tcp_stream joint_read arrived" by (auto simp: tcp_stream_def joint_read_def)
  moreover have "\<exists>u v. took arrived w [] u \<and> read_poll joint_read (f, u) = Some (Done (Ready r), (f', v)) \<and> took arrived v [] w'"
    if "select_frame joint_reader (f, w) = Some (FutureDone r, (f', w'))" for f w r f' w'
    using that by (intro exI [of _ w] exI [of _ w'])
      (auto simp: joint_reader_def split: option.splits res.splits poll.splits)
  moreover have "\<exists>r. b = FutureDone r" if "select_frame joint_reader (f, w) = Some (b, (f', w'))" for f w b f' w'
    using that by (auto simp: joint_reader_def split: option.splits res.splits poll.splits)
  ultimately show ?thesis
    unfolding stream_reader_def
    by (fastforce simp: joint_reader_def took_def read_default_def Let_def split: sup_branch.split if_splits)
qed

lemma joint_logged: "reader_logged joint_reader pipe_log"
proof -
  have "pipe_log w' = pipe_log w" if "read_poll joint_read (f, w) = Some (x, (f', w'))" for f w x f' w'
    using that by (auto simp: read_poll_def joint_read_def Let_def split: if_splits)
  then show ?thesis
    by (auto simp: reader_logged_def joint_reader_def Let_def split: if_splits option.splits res.splits poll.splits)
qed

lemma seen_by_result:
  assumes "seen_by tx es w = Some (r, w')"
  shows "pipe_log w' = pipe_log w" "r = Inr x \<Longrightarrow> Answered tx x \<in> set es"
    and "task_log w' = task_log w @ (case r of Inr (Inr v) \<Rightarrow> [Taken v None] | _ \<Rightarrow> [])"
  using assms by (induction tx es w rule: seen_by.induct) (auto split: if_splits sum.splits)

lemma joint_recv:
  assumes "result_recv joint_results tx w = Some (r, w')"
  obtains es where "pipe_log w' = pipe_log w @ es" "\<And>x. r = Inr x \<Longrightarrow> Answered tx x \<in> set es"
    "task_log w' = task_log w @ (case r of Inr (Inr v) \<Rightarrow> [Taken v None] | _ \<Rightarrow> [])"
proof -
  from assms obtain es u where "seen_by tx es (u\<lparr>handed := handed w @ map (Pair 0 \<circ> ByReader) es\<rparr>) = Some (r, w')"
    by (auto simp: joint_results_def Let_def split: option.splits res.splits)
  from seen_by_result [OF this] that [of es] show thesis by simp
qed

lemma joint_client: "pipe_client joint_channel joint_results joint_tokio pipe_log"
proof -
  have "prefix (pipe_log w) (pipe_log w') \<and> (\<forall>res. r = Inr res \<longrightarrow> Answered tx res \<in> set (pipe_log w'))"
    if "result_recv joint_results tx w = Some (r, w')" for tx w r w'
    using that by (rule joint_recv) (auto simp: prefix_def)
  then show ?thesis
    by (auto simp: pipe_client_def joint_channel_def joint_tokio_def sample_def new_handle_unused joint_results_def
        split: if_splits simp del: split_paired_All)
qed

lemma joint_sends: "sends_observed joint_tokio task_log"
  by (auto simp: sends_observed_def joint_tokio_def mpsc_returns_def sample_def split: if_splits)

lemma joint_reads: "reads_observed (component_read joint_channel joint_results f0 rd) task_log"
proof -
  have "task_log w' = task_log w @ (case res of Inr (Some m) \<Rightarrow> [Taken m None] | _ \<Rightarrow> [])"
    if "component_read joint_channel joint_results f0 rd w = Some (Done res, w')" for w res w'
  proof -
    from that obtain tx r where r: "result_recv joint_results tx w = Some (r, w')"
      "res = (case r of Inr (Inr v) \<Rightarrow> Inr (Some v) | Inr (Inl e) \<Rightarrow> Inl e | Inl u \<Rightarrow> Inr None)"
      by (auto simp: component_read_def reader_read_def io_simps joint_channel_def joint_results_def
          split: option.splits sum.splits)
    from r(1) obtain es where "task_log w' = task_log w @ (case r of Inr (Inr v) \<Rightarrow> [Taken v None] | _ \<Rightarrow> [])"
      by (rule joint_recv)
    with r(2) show ?thesis by (auto split: sum.splits)
  qed
  then show ?thesis by (auto simp: reads_observed_def)
qed

definition joint_start :: joint where
  "joint_start = empty_world\<lparr>dropped := [1, 2, 3, 4, 5], watchers := 2\<rparr>"

lemma joint_runs:
  "map_option (\<lambda>(x, w). (x, pipe_log w, arrived w)) (create_reader_actor joint_reader joint_start) =
    Some (Done (), [Requested 1, Answered 1 (Inr 3), Requested 3, Dropped 3, ShutdownSent], [])"
  "map_option (\<lambda>(x, w). (x, pipe_log w)) (serve_connection joint_tokio (component_read joint_channel joint_results
      (read_default 3) (Reader 0)) (ActorRef 4) joint_start) =
    Some (Done (), [Requested 1, Answered 1 (Inr 3), Requested 3, Dropped 3])"
  by code_simp+

theorem connection_asked_with_stream_witness:
  "\<exists>segs rest xs u out v' w'. create_reader_actor joint_reader joint_start = Some (Done (), v') \<and>
    serve_connection joint_tokio (component_read joint_channel joint_results (read_default 3) (Reader 0)) (ActorRef 4) joint_start =
      Some (Done (), w') \<and>
    concat (map seg_bytes segs) @ arrived v' = [1, 2, 3, 4, 5] @ rest \<and> (\<forall>s\<in>set segs. seg_received joint_reader s) \<and>
    task_log u = concat (map (asked_turn 4) xs) \<and> into_future joint_tokio (ActorRef 4) u = Some (Done out, w') \<and>
    subseq (map fst xs) (List.map_filter seg_answer segs)"
proof -
  obtain v' where v: "create_reader_actor joint_reader joint_start = Some (Done (), v')"
    "pipe_log v' = [Requested 1, Answered 1 (Inr 3), Requested 3, Dropped 3, ShutdownSent]"
    using joint_runs(1) by auto
  obtain w' where w: "serve_connection joint_tokio (component_read joint_channel joint_results (read_default 3) (Reader 0))
      (ActorRef 4) joint_start = Some (Done (), w')"
    "pipe_log w' = [Requested 1, Answered 1 (Inr 3), Requested 3, Dropped 3]"
    using joint_runs(2) by auto
  have "prefix (pipe_log w') (pipe_log v')" using v(2) w(2) by simp
  moreover have "arrived joint_start = [1, 2, 3, 4, 5]" "task_log joint_start = []"
    by (simp_all add: joint_start_def arrived_def task_log_def empty_world_def)
  ultimately show ?thesis
    using connection_asked_with_stream [OF joint_stream joint_logged v(1) joint_client joint_sends joint_reads w(1)] v(1) w(1)
    by fastforce
qed

end
