(* ===== verification/Spec2Isabelle.thy ===== *)
theory Spec2Isabelle
  imports Runs Nursery Many_Children Function_Actor In_Time Streams
begin

text \<open>
  \<^bold>\<open>A model of tokactor\<close>

  tokactor is an actor library on the Tokio runtime. An actor is a struct with handlers; its context
  (\<open>src/src/context.rs\<close>) holds the receiver of its mailbox, the sender of a watch channel to its
  children, its life cycle state and a semaphore; its executor (\<open>src/src/executor.rs\<close>) owns both and
  runs the loop that takes boxed messages (\<open>src/src/envelope.rs\<close>) from the mailbox and has them
  delivered to the handlers. Addresses (\<open>src/src/address.rs\<close>) are senders of the mailbox. Around this core
  there are a router, workflows, typed addresses with a builder, pipes over TCP, and the world that
  runs listeners.

  \<^bold>\<open>How the code is translated\<close>

  A function of the code is a computation \<open>('r, 's) io\<close> (Prelude): from a state to a value or a panic and
  the state after it, or to \<open>None\<close> if an \<open>.await\<close> is never resolved or a loop never left. Loops are
  \<open>io_loop\<close>, defined by \<open>partial_function (option)\<close>; there is no fuel. Where a claim is about finished
  runs the run is a hypothesis, and that the loop does finish is a claim of its own
  (\<open>executor_stop_total\<close>, \<open>stopping_times_out\<close>, \<open>stopping_ends\<close>, \<open>stopping_in_time\<close>, \<open>awaited_actor_ends\<close>,
  \<open>told_child_ends\<close>). \<open>usize\<close> is a 64 bit word, with the overflow panics of addition and subtraction written out, as for the smaller integers of the
  examples; durations are in milliseconds.

  Tokio is not part of the repository. Its functions are the fields of the record \<open>tokio\<close>
  (Tokio.thy), an argument of every definition that calls them, over an abstract world \<open>'w\<close>; an awaited
  function returns the world it was resolved in, with what all other tasks did meanwhile. What its
  documentation promises is stated as predicates on that record (\<open>mpsc_returns\<close>, \<open>sem_bounded\<close>,
  \<open>mpsc_receiver\<close>, \<open>select_receiver\<close>, \<open>mail_runtime\<close>, \<open>blocking_runs\<close>, \<open>mpsc_delivers\<close>) and taken as
  hypotheses by the theorems that need it. User code is the record \<open>actor_ops\<close>; a hook is
  \<open>well_behaved\<close> if all it does to its context is a sequence of calls of the public methods, which is
  what the privacy of the fields enforces. Drops that other code depends on are written out.

  \<^bold>\<open>Theories\<close>

  \<^item> Prelude: computations, loops, Hoare triples, relations kept by every run (\<open>frame_rel\<close>), \<open>usize\<close>.
  \<^item> Message, Tokio, Actor: the data of \<open>message.rs\<close>, \<open>context.rs\<close>, \<open>envelope.rs\<close>; the runtime; the traits of
    \<open>actor.rs\<close>.
  \<^item> Address: \<open>address.rs\<close>, every branch of sending, asking and awaiting. Sends that return an error share
    the contract \<open>returning_sender\<close>, which the typed addresses of Single also have.
  \<^item> Context, Envelope, Executor, Spawned: \<open>context.rs\<close>, \<open>envelope.rs\<close> with \<open>generic.rs\<close>, and \<open>executor.rs\<close>.
    The state of an executor has a ghost log of its callbacks.
  \<^item> Lifecycle, Mail, Permits, Delivery, Children: what holds of whole runs: the order of the callbacks
    and of the states; no message lost, duplicated or reordered; the limit on anonymous actors; the
    answers to asks; parents that wait for their children. The first two are instances of one contract,
    \<open>executor_rounds\<close>: a relation that every round keeps is kept by every phase.
  \<^item> Worlds: what the tasks of a runtime rely on and guarantee each other, as a relation of worlds (\<open>kept_world\<close>)
    that every operation of the library keeps if the runtime, the user's code and the other tasks do. Mail is its
    instance for mailboxes, Family for a parent and all its children: a child lets go of its receiver only when its
    death is in the mailbox of the parent, which the block of a child keeps unless it panicked or its struct was handed to a
    caller that awaits it.
  \<^item> Machine: what an actor promises as an abstract machine, and the proof that every run is a path of it.
  \<^item> Awaiting, Liveness: who gets the struct of a finished actor and what \<open>Ctx::drop\<close> finds; that an awaited
    actor does end, and the one case in which a stopping actor does not. Supervised: that a child which was told
    to shut down ends. In_Time: that a stopping actor whose children end within its ten seconds does not give up, and that
    one with a child that is longer there panics in the eleventh.
  \<^item> Folding, Defaults: the struct of a finished actor as a fold over its messages. \<open>struct_effects\<close> is the
    contract of an actor whose hooks and handlers have known effects; Defaults discharges it for actors with
    the default hooks.
  \<^item> Answers: what a finished actor has answered, with the contract \<open>answering\<close> of the actors that answer at once (the
    actor of \<open>examples/ping-pong.rs\<close> is an instance), and what the caller of \<open>ask\<close> gets of it. \<open>executor_steps\<close> is
    the contract of \<open>executor_rounds\<close> for relations that look at the world.
  \<^item> Boxes: the envelopes as typed boxes. Relays: the tasks that hand items on to an actor, the bridges behind
    typed addresses and the task of a connection; the asking bridges share the contract \<open>asking_body\<close>.
  \<^item> Function_Actor (\<open>anonymous.rs\<close>), Router (\<open>utils/router.rs\<close>), Workflow (\<open>utils/workflow\<close>), Tuples and
    Single (\<open>single\<close>), Io, Pipes and Tcp (\<open>io\<close>), World and Tcp_World (\<open>world\<close>): the rest of the library.
    Data_Path joins the two tasks of a connection with the frames of \<open>io/read/exact.rs\<close> and the stream, from the bytes
    that arrive to the requests of the HTTP server and the messages its connection is asked with, and from the data of
    a write to the bytes on the wire.
  \<^item> Examples, Ping, Tcp_Examples: the programs under \<open>src/examples\<close>, with what their actors compute as
    instances of Folding. Debug, Many_Children, Suites: the actors and tests of the test modules. Fan_In and
    Graceful_Exit: those under \<open>src/tests\<close>; the parent of Fan_In is an instance of Folding and of Family.
  \<^item> Sample, Witnesses, Runs: a concrete runtime and actor, and a run of them for each property that has
    hypotheses. Nursery: a runtime with watch channels, for the properties of a family. Streams: both tasks of a
    connection on a list of bytes.

  \<^bold>\<open>What the properties show\<close>

  A finished actor has handled every message its mailbox accepted, once and in order, and its callbacks
  came in the documented order and states: a run is a path of the machine of Machine.thy. Its struct is what
  its handlers make of those messages, and the last thing the run does is to hand it to whoever waits for it.
  It has answered each accepted question once, through the sender that came with it, and what \<open>ask\<close> returns is the
  handler's reply for the struct of that moment.
  An actor with such a request in its mailbox ends, whatever its children do, and so does a child that was told to
  shut down. A stopping actor waits for its children for ten idle seconds and gives up with a panic in the eleventh, whatever
  messages it handles meanwhile. The block of a child lets go of its receiver only when the child's death is in the mailbox of the
  parent, unless the child panicked or its struct was handed to a caller that awaits it; a parent of children that do
  neither has closed its mailbox only when the death of every one of them was in it, and has handled all of these
  when it ends, for any number of children and any schedule. A \<open>send_async\<close> that is refused gives its message
  back; an ask of a closed mailbox panics, so the router's retries are dead code. Addresses put only full
  boxes into a mailbox and the delivery of a full box panics only if the handler does or the count of the tasks without
  a permit is at its end. The tasks of a pipe
  answer every request once or drop it; the reader cuts its stream into the requests it serves without a gap, the
  writer keeps the order of its requests, frames neither lose nor repeat bytes, and the actor of a connection is asked
  with what came from the stream, in its order. A bridge sends each answer
  to the sender that came with the question; the task of a connection asks with one payload after the other. An
  input of the world serves
  every connection it accepts, unless an accept fails, which panics it. Of the examples: the counter has the
  sum of the accepted amounts, connections have distinct ids, the broadcaster has the table its messages
  make, and how a request is cut into frames does not change what the HTTP receiver answers, which however loses what
  the last frame holds of the next request. The records that
  the tests of \<open>context.rs\<close> compare are the log of the callbacks; the parent of \<open>tests/mod.rs\<close> counts every
  accepted death, and so all the children it had when it closed its mailbox; an
  actor that spawns more tasks than its limit counts exactly those that got no permit.

  \<^bold>\<open>Not modelled\<close>

  Printing, logging, thread scheduling and the network are outside; \<open>io/fs.rs\<close> is an empty struct; \<open>lib.rs\<close> only
  re-exports. Aborting a task from outside and the destruction of a panicked actor's struct are not followed
  beyond what the spawning block does about them. Of the tests, \<open>size_of_context\<close> (a matter of memory layout) is
  left out, and so are the measurements under \<open>benches\<close>.

  \<^bold>\<open>Bounds of the statements\<close>

  The point at which a parent closes its mailbox is the end of \<open>run_to_close\<close>, the first part of its run; as it is not
  running then, no child can be born later (\<open>spawn_with_births\<close>). In the stopping phase that the messages an actor handles do
  not make it panic is a hypothesis (\<open>handles_mail\<close>), from an executor state with an invariant on. The promise of Family is
  for children: the block of an anonymous task may let go of its receiver before its
  \<open>AnonymousTaskCancelled\<close> is sent, and its messages carry no identity to count them by. \<open>answering\<close> is about actors that
  answer at once: a reply that is left to a task is sent whenever that task ends. Time is counted in the seconds that a
  stopping actor sleeps; nothing is said of the duration of a handler.
\<close>

end
